(* ===== verification/Net_Prelude.thy ===== *)
theory Net_Prelude
  imports Main "HOL-Library.Word"
begin

section \<open>Shared vocabulary of the development\<close>

text \<open>
  This theory names the machine integers, the results of Rust code that may panic or may not be
  ready, and the list operations that stand for slices, \<open>Vec\<close> and \<open>ArrayVec\<close> in the sources.
  A \<open>usize\<close> that only ever holds a length or an index is a \<open>nat\<close>; a counter that the code lets
  wrap is a word.
\<close>

type_synonym u8 = "8 word"
type_synonym u16 = "16 word"
type_synonym u32 = "32 word"
type_synonym u64 = "64 word"
type_synonym usize = "64 word"
type_synonym i32 = "32 word"

text \<open>Raw addresses. The null pointer is \<open>0\<close>, as \<open>NonNull::new\<close> tests it.\<close>

type_synonym ptr = nat

abbreviation (input) null_ptr :: ptr where
  "null_ptr \<equiv> 0"

named_theorems list_ops \<open>rewriting of the list operations that stand for slices and vectors\<close>
named_theorems mbuf_defs \<open>definitions of the operations on packet buffers\<close>
named_theorems device_defs \<open>definitions of the operations of the polled device\<close>
named_theorems sock_defs \<open>definitions of the socket operations\<close>

subsection \<open>Outcomes of Rust code\<close>

text \<open>
  A call that can reach \<open>panic!\<close>, \<open>assert!\<close>, \<open>expect\<close> or an index out of range returns an
  \<open>outcome\<close>; a \<open>Result\<close> is the sum type with \<open>Inl\<close> for \<open>Err\<close>; \<open>Poll\<close> is \<open>poll\<close>.
\<close>

datatype 'a outcome = Done 'a | Panic string

datatype 'a poll = Ready 'a | Pending

primrec outcome_bind :: "'a outcome \<Rightarrow> ('a \<Rightarrow> 'b outcome) \<Rightarrow> 'b outcome" where
  "outcome_bind (Done x) k = k x"
| "outcome_bind (Panic m) k = Panic m"

primrec is_panic :: "'a outcome \<Rightarrow> bool" where
  "is_panic (Done x) = False"
| "is_panic (Panic m) = True"

text \<open>\<open>std::io::Error\<close>: the kinds the sources build, with the message.\<close>

datatype io_error_kind = NotConnected | ConnectionRefused | ConnectionReset | BrokenPipe | AddrInUse
  | AddrNotAvailable | InvalidInput | TimedOut | WriteZero | UnexpectedEof | WouldBlock | Unsupported | Other

datatype io_error = IoError (io_kind: io_error_kind) (io_msg: string)

lemma outcome_bind_Done [simp]:
  "(outcome_bind m k = Done y) \<longleftrightarrow> (\<exists>x. m = Done x \<and> k x = Done y)"
  by (cases m) auto

lemma outcome_bind_assoc: "outcome_bind (outcome_bind m k) h = outcome_bind m (\<lambda>x. outcome_bind (k x) h)"
  by (cases m) auto

lemma not_is_panic: "\<not> is_panic m \<longleftrightarrow> (\<exists>x. m = Done x)"
  by (cases m) auto

subsection \<open>Slices\<close>

text \<open>\<open>subslice i j xs\<close> is \<open>&xs[i..j]\<close>; \<open>slice_write xs i bs\<close> is \<open>xs[i..i+n].copy_from_slice(bs)\<close>.\<close>

definition subslice :: "nat \<Rightarrow> nat \<Rightarrow> 'a list \<Rightarrow> 'a list" where
  "subslice i j xs = take (j - i) (drop i xs)"

definition slice_write :: "'a list \<Rightarrow> nat \<Rightarrow> 'a list \<Rightarrow> 'a list" where
  "slice_write xs i bs = take i xs @ bs @ drop (i + length bs) xs"

lemma length_subslice [simp]: "length (subslice i j xs) = min (j - i) (length xs - i)"
  by (simp add: subslice_def min.commute)

lemma length_slice_write [simp]:
  "i + length bs \<le> length xs \<Longrightarrow> length (slice_write xs i bs) = length xs"
  by (simp add: slice_write_def)

lemma nth_slice_write:
  assumes "i + length bs \<le> length xs" and "k < length xs"
  shows "slice_write xs i bs ! k = (if i \<le> k \<and> k < i + length bs then bs ! (k - i) else xs ! k)"
  using assms by (auto simp: slice_write_def nth_append)

lemma slice_write_same [simp]:
  "i + length bs \<le> length xs \<Longrightarrow> subslice i (i + length bs) (slice_write xs i bs) = bs"
  by (simp add: subslice_def slice_write_def)

lemma slice_write_all [simp]: "length bs = length xs \<Longrightarrow> slice_write xs 0 bs = bs"
  by (simp add: slice_write_def)

subsection \<open>Bounded vectors\<close>

text \<open>
  \<open>ArrayVec<T, N>\<close> is a list that \<open>try_push\<close> extends at the back while it is shorter than \<open>N\<close>;
  \<open>pop\<close> takes from the back and \<open>remove(0)\<close> from the front.
\<close>

definition try_push :: "nat \<Rightarrow> 'a list \<Rightarrow> 'a \<Rightarrow> 'a list option" where
  "try_push cap xs x = (if length xs < cap then Some (xs @ [x]) else None)"

definition vec_pop :: "'a list \<Rightarrow> ('a \<times> 'a list) option" where
  "vec_pop xs = (if xs = [] then None else Some (last xs, butlast xs))"

lemma try_push_Some [simp]: "length xs < cap \<Longrightarrow> try_push cap xs x = Some (xs @ [x])"
  by (simp add: try_push_def)

lemma try_push_None [simp]: "\<not> length xs < cap \<Longrightarrow> try_push cap xs x = None"
  by (simp add: try_push_def)

lemma vec_pop_Nil [simp]: "vec_pop [] = None"
  by (simp add: vec_pop_def)

lemma vec_pop_snoc [simp]: "vec_pop (xs @ [x]) = Some (x, xs)"
  by (simp add: vec_pop_def)

lemma vec_pop_eq_None [simp]: "vec_pop xs = None \<longleftrightarrow> xs = []"
  by (simp add: vec_pop_def)

lemma vec_pop_eq_Some: "vec_pop xs = Some (x, ys) \<longleftrightarrow> xs = ys @ [x]"
  by (auto simp: vec_pop_def)

lemmas vec_simps = try_push_def vec_pop_eq_Some

subsection \<open>Conversions between widths\<close>

lemma unat_of_nat_u16 [simp]: "n < 65536 \<Longrightarrow> unat (of_nat n :: u16) = n"
  by (simp add: unat_of_nat take_bit_nat_eq_self)

lemma unat_of_nat_u16_mod: "unat (of_nat n :: u16) = n mod 65536"
  by (simp add: unat_of_nat take_bit_eq_mod)

lemma unat_u16_bound: "unat (x :: u16) < 65536"
proof -
  have "unat x < 2 ^ LENGTH(16)" by (rule unsigned_less)
  then show ?thesis by simp
qed

lemma unat_of_nat_u32 [simp]: "n < 4294967296 \<Longrightarrow> unat (of_nat n :: u32) = n"
  by (simp add: unat_of_nat take_bit_nat_eq_self)

lemma unat_of_nat_u64 [simp]: "n < 18446744073709551616 \<Longrightarrow> unat (of_nat n :: u64) = n"
  by (simp add: unat_of_nat take_bit_nat_eq_self)

lemma of_nat_u64_inj:
  assumes "(of_nat k :: u64) = of_nat c" and "k < 2 ^ 64" and "c < 2 ^ 64"
  shows "k = c"
proof -
  have "k = unat (of_nat k :: u64)" using assms(2) by simp
  also have "\<dots> = unat (of_nat c :: u64)" by (simp only: assms(1))
  also have "\<dots> = c" using assms(3) by simp
  finally show ?thesis .
qed

subsection \<open>Decimal numbers\<close>

text \<open>\<open>to_string\<close> on an unsigned integer.\<close>

definition digit_char :: "nat \<Rightarrow> char" where
  "digit_char n = ''0123456789'' ! n"

fun show_nat :: "nat \<Rightarrow> string" where
  "show_nat n = (if n < 10 then [digit_char n] else show_nat (n div 10) @ [digit_char (n mod 10)])"

declare show_nat.simps [simp del]

lemma digit_char_inj: "a < 10 \<Longrightarrow> b < 10 \<Longrightarrow> digit_char a = digit_char b \<longleftrightarrow> a = b"
  unfolding digit_char_def by (subst nth_eq_iff_index_eq) simp_all

lemma show_nat_nonempty: "show_nat n \<noteq> []"
  by (subst show_nat.simps) simp

lemma show_nat_inj: "show_nat m = show_nat n \<longleftrightarrow> m = n"
proof (induction m arbitrary: n rule: show_nat.induct)
  case (1 m)
  note em = show_nat.simps [of m] and en = show_nat.simps [of n]
  show ?case
  proof (cases "m < 10"; cases "n < 10")
    assume m: "\<not> m < 10" and n: "\<not> n < 10"
    have "show_nat m = show_nat n \<longleftrightarrow> m div 10 = n div 10 \<and> m mod 10 = n mod 10"
      using m n 1 [OF m, of "n div 10"] by (simp add: em en digit_char_inj)
    also have "\<dots> \<longleftrightarrow> m = n" by (metis div_mult_mod_eq)
    finally show ?thesis .
  next
    assume m: "\<not> m < 10" and n: "n < 10"
    then show ?thesis using show_nat_nonempty [of "m div 10"] by (auto simp: em en append_eq_Cons_conv)
  next
    assume m: "m < 10" and n: "\<not> n < 10"
    then show ?thesis using show_nat_nonempty [of "n div 10"] by (auto simp: em en Cons_eq_append_conv)
  qed (simp add: em en digit_char_inj)
qed

end
