(* ===== verification/Dpdk_Ffi.thy ===== *)
theory Dpdk_Ffi
  imports Net_Prelude
begin

section \<open>The DPDK functions the data path calls\<close>

text \<open>
  DPDK is not part of the repository: the crate reaches it through \<open>dpdk_net_sys::ffi\<close>. The
  functions it calls are the fields of the records below, over a type \<open>'w\<close> that stands for
  everything DPDK and the memory hold (the \<open>rust_\<close> functions are the one-line C wrappers of
  \<open>src/dpdk-net-sys/src/wrapper.c\<close>). A function that only inspects takes the world first; a
  function that changes it takes it last and returns it. \<open>mem_read\<close> and \<open>mem_write\<close> are the
  accesses through \<open>slice::from_raw_parts\<close> and its mutable form.

  What the code relies on of these functions is stated as predicates over them (\<open>..._law\<close>),
  from the documented meaning of the fields of \<open>struct rte_mbuf\<close>; the theorems that need a law
  name it as a hypothesis. Theory \<open>Sim_Nic\<close> gives a concrete NIC, with a pool, rings and a memory,
  that satisfies all of them.
\<close>

record 'w mbuf_ffi =
  mem_read :: "'w \<Rightarrow> ptr \<Rightarrow> nat \<Rightarrow> u8 list"
  mem_write :: "ptr \<Rightarrow> u8 list \<Rightarrow> 'w \<Rightarrow> 'w"
  rust_pktmbuf_alloc :: "ptr \<Rightarrow> 'w \<Rightarrow> ptr \<times> 'w"
  rust_pktmbuf_free :: "ptr \<Rightarrow> 'w \<Rightarrow> 'w"
  rust_pktmbuf_mtod :: "'w \<Rightarrow> ptr \<Rightarrow> ptr"
  rust_pktmbuf_data_len :: "'w \<Rightarrow> ptr \<Rightarrow> u16"
  rust_pktmbuf_set_data_len :: "ptr \<Rightarrow> u16 \<Rightarrow> 'w \<Rightarrow> 'w"
  rust_pktmbuf_pkt_len :: "'w \<Rightarrow> ptr \<Rightarrow> u32"
  rust_pktmbuf_set_pkt_len :: "ptr \<Rightarrow> u32 \<Rightarrow> 'w \<Rightarrow> 'w"
  rust_pktmbuf_headroom :: "'w \<Rightarrow> ptr \<Rightarrow> u16"
  rust_pktmbuf_tailroom :: "'w \<Rightarrow> ptr \<Rightarrow> u16"
  rust_pktmbuf_append :: "ptr \<Rightarrow> u16 \<Rightarrow> 'w \<Rightarrow> ptr \<times> 'w"
  rust_pktmbuf_prepend :: "ptr \<Rightarrow> u16 \<Rightarrow> 'w \<Rightarrow> ptr \<times> 'w"
  rust_pktmbuf_adj :: "ptr \<Rightarrow> u16 \<Rightarrow> 'w \<Rightarrow> ptr \<times> 'w"
  rust_pktmbuf_trim :: "ptr \<Rightarrow> u16 \<Rightarrow> 'w \<Rightarrow> i32 \<times> 'w"
  rust_pktmbuf_reset :: "ptr \<Rightarrow> 'w \<Rightarrow> 'w"

text \<open>
  The burst functions. \<open>rust_eth_rx_burst\<close> fills the array it is given and returns the number of
  entries it wrote; \<open>rust_eth_tx_burst\<close> returns the number of leading entries it took.
\<close>

record 'w queue_ffi = "'w mbuf_ffi" +
  rust_eth_rx_burst :: "u16 \<Rightarrow> u16 \<Rightarrow> ptr list \<Rightarrow> u16 \<Rightarrow> 'w \<Rightarrow> u16 \<times> ptr list \<times> 'w"
  rust_eth_tx_burst :: "u16 \<Rightarrow> u16 \<Rightarrow> ptr list \<Rightarrow> u16 \<Rightarrow> 'w \<Rightarrow> u16 \<times> 'w"

subsection \<open>The documented state of a packet buffer\<close>

text \<open>
  The fields of a single-segment \<open>rte_mbuf\<close>: the buffer and its address, the offset of the data in
  it, the length of the data and the length of the packet. A \<open>view\<close> gives these fields for the
  buffers that are out of the pool and owned by the application.
\<close>

record mbuf_view =
  buf_addr :: ptr
  buf_bytes :: "u8 list"
  data_off :: nat
  seg_len :: nat
  pkt_bytes :: nat

type_synonym 'w view = "'w \<Rightarrow> ptr \<Rightarrow> mbuf_view option"

definition RTE_PKTMBUF_HEADROOM :: nat where
  "RTE_PKTMBUF_HEADROOM = 128"

definition view_wf :: "mbuf_view \<Rightarrow> bool" where
  "view_wf v \<longleftrightarrow> buf_addr v \<noteq> null_ptr \<and> length (buf_bytes v) < 65536
     \<and> data_off v + seg_len v \<le> length (buf_bytes v) \<and> pkt_bytes v < 4294967296"

definition view_data :: "mbuf_view \<Rightarrow> u8 list" where
  "view_data v = subslice (data_off v) (data_off v + seg_len v) (buf_bytes v)"

definition view_tail :: "mbuf_view \<Rightarrow> nat" where
  "view_tail v = length (buf_bytes v) - data_off v - seg_len v"

definition view_empty :: "mbuf_view \<Rightarrow> mbuf_view" where
  "view_empty v = v\<lparr>data_off := min RTE_PKTMBUF_HEADROOM (length (buf_bytes v)),
     seg_len := 0, pkt_bytes := 0\<rparr>"

text \<open>Only the buffer \<open>p\<close> changed between the two worlds.\<close>

definition only :: "'w view \<Rightarrow> ptr \<Rightarrow> 'w \<Rightarrow> 'w \<Rightarrow> bool" where
  "only V p w w' \<longleftrightarrow> (\<forall>q. q \<noteq> p \<longrightarrow> V w' q = V w q)"

definition read_law :: "('w, 'z) mbuf_ffi_scheme \<Rightarrow> 'w view \<Rightarrow> bool" where
  "read_law f V \<longleftrightarrow> (\<forall>w p v. V w p = Some v \<longrightarrow> p \<noteq> null_ptr \<and> view_wf v
     \<and> rust_pktmbuf_mtod f w p = buf_addr v + data_off v
     \<and> rust_pktmbuf_data_len f w p = of_nat (seg_len v)
     \<and> rust_pktmbuf_pkt_len f w p = of_nat (pkt_bytes v)
     \<and> rust_pktmbuf_headroom f w p = of_nat (data_off v)
     \<and> rust_pktmbuf_tailroom f w p = of_nat (view_tail v)
     \<and> (\<forall>k n. k + n \<le> length (buf_bytes v)
          \<longrightarrow> mem_read f w (buf_addr v + k) n = subslice k (k + n) (buf_bytes v)))"

definition write_law :: "('w, 'z) mbuf_ffi_scheme \<Rightarrow> 'w view \<Rightarrow> bool" where
  "write_law f V \<longleftrightarrow> (\<forall>w p v k bs. V w p = Some v \<and> k + length bs \<le> length (buf_bytes v) \<longrightarrow>
     V (mem_write f (buf_addr v + k) bs w) p = Some (v\<lparr>buf_bytes := slice_write (buf_bytes v) k bs\<rparr>)
     \<and> only V p w (mem_write f (buf_addr v + k) bs w))"

definition set_len_law :: "('w, 'z) mbuf_ffi_scheme \<Rightarrow> 'w view \<Rightarrow> bool" where
  "set_len_law f V \<longleftrightarrow> (\<forall>w p v n m. V w p = Some v \<longrightarrow>
     (data_off v + unat n \<le> length (buf_bytes v) \<longrightarrow>
        V (rust_pktmbuf_set_data_len f p n w) p = Some (v\<lparr>seg_len := unat n\<rparr>))
     \<and> only V p w (rust_pktmbuf_set_data_len f p n w)
     \<and> V (rust_pktmbuf_set_pkt_len f p m w) p = Some (v\<lparr>pkt_bytes := unat m\<rparr>)
     \<and> only V p w (rust_pktmbuf_set_pkt_len f p m w))"

definition reset_law :: "('w, 'z) mbuf_ffi_scheme \<Rightarrow> 'w view \<Rightarrow> bool" where
  "reset_law f V \<longleftrightarrow> (\<forall>w p v. V w p = Some v \<longrightarrow>
     V (rust_pktmbuf_reset f p w) p = Some (view_empty v) \<and> only V p w (rust_pktmbuf_reset f p w))"

text \<open>Room at the end, room at the front, and bytes given back at either end.\<close>

definition append_law :: "('w, 'z) mbuf_ffi_scheme \<Rightarrow> 'w view \<Rightarrow> bool" where
  "append_law f V \<longleftrightarrow> (\<forall>w p v n. V w p = Some v \<longrightarrow>
     (if unat n \<le> view_tail v
      then fst (rust_pktmbuf_append f p n w) = buf_addr v + data_off v + seg_len v
        \<and> V (snd (rust_pktmbuf_append f p n w)) p
            = Some (v\<lparr>seg_len := seg_len v + unat n,
                      pkt_bytes := (pkt_bytes v + unat n) mod 4294967296\<rparr>)
        \<and> only V p w (snd (rust_pktmbuf_append f p n w))
      else rust_pktmbuf_append f p n w = (null_ptr, w)))"

definition prepend_law :: "('w, 'z) mbuf_ffi_scheme \<Rightarrow> 'w view \<Rightarrow> bool" where
  "prepend_law f V \<longleftrightarrow> (\<forall>w p v n. V w p = Some v \<longrightarrow>
     (if unat n \<le> data_off v
      then fst (rust_pktmbuf_prepend f p n w) = buf_addr v + (data_off v - unat n)
        \<and> V (snd (rust_pktmbuf_prepend f p n w)) p
            = Some (v\<lparr>data_off := data_off v - unat n, seg_len := seg_len v + unat n,
                      pkt_bytes := (pkt_bytes v + unat n) mod 4294967296\<rparr>)
        \<and> only V p w (snd (rust_pktmbuf_prepend f p n w))
      else rust_pktmbuf_prepend f p n w = (null_ptr, w)))"

definition adj_law :: "('w, 'z) mbuf_ffi_scheme \<Rightarrow> 'w view \<Rightarrow> bool" where
  "adj_law f V \<longleftrightarrow> (\<forall>w p v n. V w p = Some v \<longrightarrow>
     (if unat n \<le> seg_len v
      then fst (rust_pktmbuf_adj f p n w) = buf_addr v + data_off v + unat n
        \<and> V (snd (rust_pktmbuf_adj f p n w)) p
            = Some (v\<lparr>data_off := data_off v + unat n, seg_len := seg_len v - unat n,
                      pkt_bytes := (pkt_bytes v + (4294967296 - unat n)) mod 4294967296\<rparr>)
        \<and> only V p w (snd (rust_pktmbuf_adj f p n w))
      else rust_pktmbuf_adj f p n w = (null_ptr, w)))"

definition trim_law :: "('w, 'z) mbuf_ffi_scheme \<Rightarrow> 'w view \<Rightarrow> bool" where
  "trim_law f V \<longleftrightarrow> (\<forall>w p v n. V w p = Some v \<longrightarrow>
     (if unat n \<le> seg_len v
      then fst (rust_pktmbuf_trim f p n w) = 0
        \<and> V (snd (rust_pktmbuf_trim f p n w)) p
            = Some (v\<lparr>seg_len := seg_len v - unat n, pkt_bytes := (pkt_bytes v + (4294967296 - unat n)) mod 4294967296\<rparr>)
        \<and> only V p w (snd (rust_pktmbuf_trim f p n w))
      else rust_pktmbuf_trim f p n w = (- 1, w)))"

text \<open>
  Taking a buffer out of a pool and putting it back. A pool hands out empty buffers that nobody
  else holds, each of \<open>room pool\<close> bytes (its data room).
\<close>

definition alloc_law :: "('w, 'z) mbuf_ffi_scheme \<Rightarrow> 'w view \<Rightarrow> (ptr \<Rightarrow> nat) \<Rightarrow> bool" where
  "alloc_law f V room \<longleftrightarrow> (\<forall>w pool p w'. rust_pktmbuf_alloc f pool w = (p, w') \<longrightarrow>
     (if p = null_ptr then (\<forall>q. V w' q = V w q)
      else V w p = None \<and> only V p w w'
        \<and> (\<exists>v. V w' p = Some (view_empty v) \<and> length (buf_bytes v) = room pool)))"

definition free_law :: "('w, 'z) mbuf_ffi_scheme \<Rightarrow> 'w view \<Rightarrow> bool" where
  "free_law f V \<longleftrightarrow> (\<forall>w p v. V w p = Some v \<longrightarrow>
     V (rust_pktmbuf_free f p w) p = None \<and> only V p w (rust_pktmbuf_free f p w))"

definition mbuf_laws :: "('w, 'z) mbuf_ffi_scheme \<Rightarrow> 'w view \<Rightarrow> (ptr \<Rightarrow> nat) \<Rightarrow> bool" where
  "mbuf_laws f V room \<longleftrightarrow> read_law f V \<and> write_law f V \<and> set_len_law f V \<and> reset_law f V
     \<and> append_law f V \<and> prepend_law f V \<and> adj_law f V \<and> trim_law f V
     \<and> alloc_law f V room \<and> free_law f V"

text \<open>
  The bursts: no more packets than asked for; received buffers become the application's, they are
  distinct and were nobody's; transmitted ones leave it.
\<close>

definition rx_burst_law :: "('w, 'z) queue_ffi_scheme \<Rightarrow> 'w view \<Rightarrow> bool" where
  "rx_burst_law f V \<longleftrightarrow> (\<forall>port q raw nb w n raw' w'.
     rust_eth_rx_burst f port q raw nb w = (n, raw', w') \<and> unat nb \<le> length raw \<longrightarrow>
     unat n \<le> unat nb \<and> length raw' = length raw \<and> distinct (take (unat n) raw')
     \<and> (\<forall>p \<in> set (take (unat n) raw'). p \<noteq> null_ptr \<and> V w p = None \<and> V w' p \<noteq> None)
     \<and> (\<forall>p. p \<notin> set (take (unat n) raw') \<longrightarrow> V w' p = V w p))"

definition tx_burst_law :: "('w, 'z) queue_ffi_scheme \<Rightarrow> 'w view \<Rightarrow> bool" where
  "tx_burst_law f V \<longleftrightarrow> (\<forall>port q raw nb w n w'.
     rust_eth_tx_burst f port q raw nb w = (n, w') \<and> unat nb \<le> length raw \<longrightarrow>
     unat n \<le> unat nb
     \<and> (\<forall>p \<in> set (take (unat n) raw). V w' p = None)
     \<and> (\<forall>p. p \<notin> set (take (unat n) raw) \<longrightarrow> V w' p = V w p))"

lemma rx_burst_lawD:
  assumes "rx_burst_law f V" "rust_eth_rx_burst f port q raw nb w = (n, raw', w')" "unat nb \<le> length raw"
  shows "unat n \<le> unat nb" "length raw' = length raw" "distinct (take (unat n) raw')"
    "p \<in> set (take (unat n) raw') \<Longrightarrow> p \<noteq> null_ptr \<and> V w p = None \<and> V w' p \<noteq> None"
    "p \<notin> set (take (unat n) raw') \<Longrightarrow> V w' p = V w p"
  using assms unfolding rx_burst_law_def by blast+

lemma tx_burst_lawD:
  assumes "tx_burst_law f V" "rust_eth_tx_burst f port q raw nb w = (n, w')" "unat nb \<le> length raw"
  shows "unat n \<le> unat nb" "p \<in> set (take (unat n) raw) \<Longrightarrow> V w' p = None"
    "p \<notin> set (take (unat n) raw) \<Longrightarrow> V w' p = V w p"
  using assms unfolding tx_burst_law_def by blast+

lemma onlyD: "only V p w w' \<Longrightarrow> q \<noteq> p \<Longrightarrow> V w' q = V w q"
  by (simp add: only_def)

lemma only_trans: "only V p w w' \<Longrightarrow> only V p w' w'' \<Longrightarrow> only V p w w''"
  by (simp add: only_def)

lemma only_refl [simp]: "only V p w w"
  by (simp add: only_def)

lemma view_empty_simps [simp]:
  "buf_addr (view_empty v) = buf_addr v" "buf_bytes (view_empty v) = buf_bytes v"
  "seg_len (view_empty v) = 0" "pkt_bytes (view_empty v) = 0"
  "data_off (view_empty v) = min RTE_PKTMBUF_HEADROOM (length (buf_bytes v))"
  by (simp_all add: view_empty_def)

lemma view_data_empty [simp]: "view_data (view_empty v) = []"
  by (simp add: view_data_def subslice_def)

lemma length_view_data: "view_wf v \<Longrightarrow> length (view_data v) = seg_len v"
  by (auto simp: view_data_def view_wf_def)

lemma view_tail_bound: "view_wf v \<Longrightarrow> view_tail v < 65536"
  by (auto simp: view_wf_def view_tail_def)

lemma view_tail_empty:
  "view_tail (view_empty v) = length (buf_bytes v) - min RTE_PKTMBUF_HEADROOM (length (buf_bytes v))"
  by (simp add: view_tail_def)

lemmas view_simps = view_data_def view_tail_def view_wf_def subslice_def

end
