(* ===== verification/Sim_Nic.thy ===== *)
theory Sim_Nic
  imports Dpdk_Ffi
begin

section \<open>A concrete NIC\<close>

text \<open>
  An executable instance of the DPDK functions of \<open>Dpdk_Ffi\<close>: buffers of 2176 bytes
  (\<open>DEFAULT_MBUF_DATA_ROOM_SIZE\<close>) in a pool of limited size, a receive ring of frames and a
  transmit ring with limited room. It satisfies every law the theorems of the data path assume, so
  none of them is vacuous, and the witnesses run on it.
\<close>

record sim =
  cells :: "ptr \<Rightarrow> mbuf_view option"
  pool_free :: nat
  next_ptr :: nat
  rx_ring :: "u8 list list"
  tx_room :: nat
  wire :: "u8 list list"

definition sim_room :: nat where
  "sim_room = 2176"

definition sim_addr :: "ptr \<Rightarrow> ptr" where
  "sim_addr p = p * 65536"

definition sim_start :: "nat \<Rightarrow> u8 list list \<Rightarrow> nat \<Rightarrow> sim" where
  "sim_start n frames room =
     \<lparr>cells = (\<lambda>_. None), pool_free = n, next_ptr = 0, rx_ring = frames, tx_room = room, wire = []\<rparr>"

definition sim_view :: "sim view" where
  "sim_view w p =
     (if 0 < p \<and> p \<le> next_ptr w
      then (case cells w p of None \<Rightarrow> None
            | Some v \<Rightarrow> if view_wf v \<and> buf_addr v = sim_addr p then Some v else None)
      else None)"

definition sim_cell :: "ptr \<Rightarrow> u8 list \<Rightarrow> mbuf_view" where
  "sim_cell p bs = \<lparr>buf_addr = sim_addr p,
     buf_bytes = replicate 128 0 @ take 2048 bs @ replicate (2048 - length bs) 0,
     data_off = 128, seg_len = length (take 2048 bs), pkt_bytes = length (take 2048 bs)\<rparr>"

definition sim_upd :: "ptr \<Rightarrow> (mbuf_view \<Rightarrow> mbuf_view) \<Rightarrow> sim \<Rightarrow> sim" where
  "sim_upd p g w = w\<lparr>cells := (cells w)(p := map_option g (cells w p))\<rparr>"

definition sim_get :: "sim \<Rightarrow> ptr \<Rightarrow> mbuf_view" where
  "sim_get w p = (case cells w p of None \<Rightarrow> sim_cell p [] | Some v \<Rightarrow> v)"

definition sim_read :: "sim \<Rightarrow> ptr \<Rightarrow> nat \<Rightarrow> u8 list" where
  "sim_read w a n = subslice (a mod 65536) (a mod 65536 + n) (buf_bytes (sim_get w (a div 65536)))"

definition sim_write :: "ptr \<Rightarrow> u8 list \<Rightarrow> sim \<Rightarrow> sim" where
  "sim_write a bs =
     sim_upd (a div 65536) (\<lambda>v. v\<lparr>buf_bytes := slice_write (buf_bytes v) (a mod 65536) bs\<rparr>)"

definition sim_alloc :: "ptr \<Rightarrow> sim \<Rightarrow> ptr \<times> sim" where
  "sim_alloc pool w =
     (if pool_free w = 0 then (null_ptr, w)
      else (Suc (next_ptr w),
            w\<lparr>cells := (cells w)(Suc (next_ptr w) \<mapsto> sim_cell (Suc (next_ptr w)) []),
              next_ptr := Suc (next_ptr w), pool_free := pool_free w - 1\<rparr>))"

definition sim_free :: "ptr \<Rightarrow> sim \<Rightarrow> sim" where
  "sim_free p w = w\<lparr>cells := (cells w)(p := None), pool_free := Suc (pool_free w)\<rparr>"

definition sim_append :: "ptr \<Rightarrow> u16 \<Rightarrow> sim \<Rightarrow> ptr \<times> sim" where
  "sim_append p n w =
     (if unat n \<le> view_tail (sim_get w p)
      then (buf_addr (sim_get w p) + data_off (sim_get w p) + seg_len (sim_get w p),
            sim_upd p (\<lambda>v. v\<lparr>seg_len := seg_len v + unat n,
              pkt_bytes := (pkt_bytes v + unat n) mod 4294967296\<rparr>) w)
      else (null_ptr, w))"

definition sim_prepend :: "ptr \<Rightarrow> u16 \<Rightarrow> sim \<Rightarrow> ptr \<times> sim" where
  "sim_prepend p n w =
     (if unat n \<le> data_off (sim_get w p)
      then (buf_addr (sim_get w p) + (data_off (sim_get w p) - unat n),
            sim_upd p (\<lambda>v. v\<lparr>data_off := data_off v - unat n, seg_len := seg_len v + unat n,
              pkt_bytes := (pkt_bytes v + unat n) mod 4294967296\<rparr>) w)
      else (null_ptr, w))"

definition sim_adj :: "ptr \<Rightarrow> u16 \<Rightarrow> sim \<Rightarrow> ptr \<times> sim" where
  "sim_adj p n w =
     (if unat n \<le> seg_len (sim_get w p)
      then (buf_addr (sim_get w p) + data_off (sim_get w p) + unat n,
            sim_upd p (\<lambda>v. v\<lparr>data_off := data_off v + unat n, seg_len := seg_len v - unat n,
              pkt_bytes := (pkt_bytes v + (4294967296 - unat n)) mod 4294967296\<rparr>) w)
      else (null_ptr, w))"

definition sim_trim :: "ptr \<Rightarrow> u16 \<Rightarrow> sim \<Rightarrow> i32 \<times> sim" where
  "sim_trim p n w =
     (if unat n \<le> seg_len (sim_get w p)
      then (0, sim_upd p (\<lambda>v. v\<lparr>seg_len := seg_len v - unat n,
              pkt_bytes := (pkt_bytes v + (4294967296 - unat n)) mod 4294967296\<rparr>) w)
      else (- 1, w))"

definition sim_rx_burst :: "u16 \<Rightarrow> u16 \<Rightarrow> ptr list \<Rightarrow> u16 \<Rightarrow> sim \<Rightarrow> u16 \<times> ptr list \<times> sim" where
  "sim_rx_burst port q raw nb w =
     (let n = min (unat nb) (min (length (rx_ring w)) (pool_free w)); a = next_ptr w
      in (of_nat n, map Suc [a..<a + n] @ drop n raw,
          w\<lparr>cells := (\<lambda>p. if a < p \<and> p \<le> a + n then Some (sim_cell p (rx_ring w ! (p - Suc a)))
                         else cells w p),
            next_ptr := a + n, pool_free := pool_free w - n, rx_ring := drop n (rx_ring w)\<rparr>))"

definition sim_tx_burst :: "u16 \<Rightarrow> u16 \<Rightarrow> ptr list \<Rightarrow> u16 \<Rightarrow> sim \<Rightarrow> u16 \<times> sim" where
  "sim_tx_burst port q raw nb w =
     (let n = min (unat nb) (tx_room w); ps = take n raw
      in (of_nat n,
          w\<lparr>cells := (\<lambda>p. if p \<in> set ps then None else cells w p),
            pool_free := pool_free w + length ps, tx_room := tx_room w - n,
            wire := wire w @ map (\<lambda>p. view_data (sim_get w p)) ps\<rparr>))"

definition sim_ffi :: "sim queue_ffi" where
  "sim_ffi = \<lparr>mem_read = sim_read, mem_write = sim_write,
     rust_pktmbuf_alloc = sim_alloc, rust_pktmbuf_free = sim_free,
     rust_pktmbuf_mtod = (\<lambda>w p. buf_addr (sim_get w p) + data_off (sim_get w p)),
     rust_pktmbuf_data_len = (\<lambda>w p. of_nat (seg_len (sim_get w p))),
     rust_pktmbuf_set_data_len = (\<lambda>p n. sim_upd p (\<lambda>v. v\<lparr>seg_len := unat n\<rparr>)),
     rust_pktmbuf_pkt_len = (\<lambda>w p. of_nat (pkt_bytes (sim_get w p))),
     rust_pktmbuf_set_pkt_len = (\<lambda>p n. sim_upd p (\<lambda>v. v\<lparr>pkt_bytes := unat n\<rparr>)),
     rust_pktmbuf_headroom = (\<lambda>w p. of_nat (data_off (sim_get w p))),
     rust_pktmbuf_tailroom = (\<lambda>w p. of_nat (view_tail (sim_get w p))),
     rust_pktmbuf_append = sim_append, rust_pktmbuf_prepend = sim_prepend,
     rust_pktmbuf_adj = sim_adj, rust_pktmbuf_trim = sim_trim,
     rust_pktmbuf_reset = (\<lambda>p. sim_upd p view_empty),
     rust_eth_rx_burst = sim_rx_burst, rust_eth_tx_burst = sim_tx_burst\<rparr>"

definition sim_one :: sim where
  "sim_one = snd (sim_alloc 0 (sim_start 2 [] 8))"

subsection \<open>It satisfies the laws\<close>

lemma sim_viewD:
  assumes "sim_view w p = Some v"
  shows "0 < p" "p \<le> next_ptr w" "cells w p = Some v" "view_wf v" "buf_addr v = sim_addr p"
    "sim_get w p = v"
  using assms by (auto simp: sim_view_def sim_get_def split: if_splits option.splits)

lemma sim_view_upd:
  assumes "sim_view w p = Some v" and "view_wf (g v)" and "buf_addr (g v) = buf_addr v"
  shows "sim_view (sim_upd p g w) p = Some (g v)"
  using sim_viewD [OF assms(1)] assms(2,3) by (simp add: sim_view_def sim_upd_def)

lemma sim_only_upd [simp]: "only sim_view p w (sim_upd p g w)"
  by (simp add: only_def sim_view_def sim_upd_def)

lemma sim_addr_split: "k < 65536 \<Longrightarrow> (sim_addr p + k) div 65536 = p \<and> (sim_addr p + k) mod 65536 = k"
  by (simp add: sim_addr_def)

lemma sim_cell_wf: "0 < p \<Longrightarrow> view_wf (sim_cell p bs)"
  by (simp add: view_wf_def sim_cell_def sim_addr_def) arith

lemma sim_cell_empty: "sim_cell p [] = view_empty (sim_cell p [])"
  by (simp add: sim_cell_def view_empty_def RTE_PKTMBUF_HEADROOM_def)

lemma sim_cell_data: "length bs \<le> 2048 \<Longrightarrow> view_data (sim_cell p bs) = bs"
  by (simp add: sim_cell_def view_data_def subslice_def)

lemma sim_read_law: "read_law sim_ffi sim_view"
  unfolding read_law_def
proof (intro allI impI)
  fix w p v
  assume v: "sim_view w p = Some v"
  note d = sim_viewD [OF v]
  have "sim_read w (buf_addr v + k) n = subslice k (k + n) (buf_bytes v)"
    if kn: "k + n \<le> length (buf_bytes v)" for k n
  proof -
    have "k < 65536" using kn d(4) by (simp add: view_wf_def)
    then have "(buf_addr v + k) div 65536 = p" "(buf_addr v + k) mod 65536 = k"
      using sim_addr_split d(5) by simp_all
    then show ?thesis by (simp add: sim_read_def d(6))
  qed
  then show "p \<noteq> null_ptr \<and> view_wf v
      \<and> rust_pktmbuf_mtod sim_ffi w p = buf_addr v + data_off v
      \<and> rust_pktmbuf_data_len sim_ffi w p = of_nat (seg_len v)
      \<and> rust_pktmbuf_pkt_len sim_ffi w p = of_nat (pkt_bytes v)
      \<and> rust_pktmbuf_headroom sim_ffi w p = of_nat (data_off v)
      \<and> rust_pktmbuf_tailroom sim_ffi w p = of_nat (view_tail v)
      \<and> (\<forall>k n. k + n \<le> length (buf_bytes v)
          \<longrightarrow> mem_read sim_ffi w (buf_addr v + k) n = subslice k (k + n) (buf_bytes v))"
    using d by (simp add: sim_ffi_def)
qed

lemma sim_write_law: "write_law sim_ffi sim_view"
  unfolding write_law_def
proof (intro allI impI, elim conjE)
  fix w p v k and bs :: "u8 list"
  assume v: "sim_view w p = Some v" and kn: "k + length bs \<le> length (buf_bytes v)"
  note d = sim_viewD [OF v]
  have "k < 65536" using kn d(4) by (simp add: view_wf_def)
  then have split: "(buf_addr v + k) div 65536 = p" "(buf_addr v + k) mod 65536 = k"
    using sim_addr_split d(5) by simp_all
  have "view_wf (v\<lparr>buf_bytes := slice_write (buf_bytes v) k bs\<rparr>)"
    using d(4) kn by (simp add: view_wf_def)
  from sim_view_upd [OF v, of "\<lambda>v. v\<lparr>buf_bytes := slice_write (buf_bytes v) k bs\<rparr>", OF this]
  show "sim_view (mem_write sim_ffi (buf_addr v + k) bs w) p
          = Some (v\<lparr>buf_bytes := slice_write (buf_bytes v) k bs\<rparr>)
        \<and> only sim_view p w (mem_write sim_ffi (buf_addr v + k) bs w)"
    by (simp add: sim_ffi_def sim_write_def split)
qed

lemma sim_set_len_law: "set_len_law sim_ffi sim_view"
  unfolding set_len_law_def
proof (intro allI impI)
  fix w p v and n :: u16 and m :: u32
  assume v: "sim_view w p = Some v"
  note wf = sim_viewD(4) [OF v]
  have m: "unat m < 4294967296"
  proof -
    have "unat m < 2 ^ LENGTH(32)" by (rule unsigned_less)
    then show ?thesis by simp
  qed
  show "(data_off v + unat n \<le> length (buf_bytes v) \<longrightarrow>
        sim_view (rust_pktmbuf_set_data_len sim_ffi p n w) p = Some (v\<lparr>seg_len := unat n\<rparr>))
     \<and> only sim_view p w (rust_pktmbuf_set_data_len sim_ffi p n w)
     \<and> sim_view (rust_pktmbuf_set_pkt_len sim_ffi p m w) p = Some (v\<lparr>pkt_bytes := unat m\<rparr>)
     \<and> only sim_view p w (rust_pktmbuf_set_pkt_len sim_ffi p m w)"
    using wf m by (auto simp: sim_ffi_def view_wf_def intro!: sim_view_upd [OF v])
qed

lemma sim_reset_law: "reset_law sim_ffi sim_view"
  unfolding reset_law_def
proof (intro allI impI)
  fix w p v
  assume v: "sim_view w p = Some v"
  then show "sim_view (rust_pktmbuf_reset sim_ffi p w) p = Some (view_empty v)
      \<and> only sim_view p w (rust_pktmbuf_reset sim_ffi p w)"
    using sim_viewD(4) [OF v] by (auto simp: sim_ffi_def view_wf_def intro!: sim_view_upd [OF v])
qed

lemma sim_append_law: "append_law sim_ffi sim_view"
  unfolding append_law_def
proof (intro allI impI)
  fix w p v and n :: u16
  assume v: "sim_view w p = Some v"
  note d = sim_viewD [OF v]
  show "if unat n \<le> view_tail v
      then fst (rust_pktmbuf_append sim_ffi p n w) = buf_addr v + data_off v + seg_len v
        \<and> sim_view (snd (rust_pktmbuf_append sim_ffi p n w)) p
            = Some (v\<lparr>seg_len := seg_len v + unat n,
                      pkt_bytes := (pkt_bytes v + unat n) mod 4294967296\<rparr>)
        \<and> only sim_view p w (snd (rust_pktmbuf_append sim_ffi p n w))
      else rust_pktmbuf_append sim_ffi p n w = (null_ptr, w)"
    using d(4) by (auto simp: sim_ffi_def sim_append_def d(6) view_wf_def view_tail_def
        intro!: sim_view_upd [OF v])
qed

lemma sim_prepend_law: "prepend_law sim_ffi sim_view"
  unfolding prepend_law_def
proof (intro allI impI)
  fix w p v and n :: u16
  assume v: "sim_view w p = Some v"
  note d = sim_viewD [OF v]
  show "if unat n \<le> data_off v
      then fst (rust_pktmbuf_prepend sim_ffi p n w) = buf_addr v + (data_off v - unat n)
        \<and> sim_view (snd (rust_pktmbuf_prepend sim_ffi p n w)) p
            = Some (v\<lparr>data_off := data_off v - unat n, seg_len := seg_len v + unat n,
                      pkt_bytes := (pkt_bytes v + unat n) mod 4294967296\<rparr>)
        \<and> only sim_view p w (snd (rust_pktmbuf_prepend sim_ffi p n w))
      else rust_pktmbuf_prepend sim_ffi p n w = (null_ptr, w)"
    using d(4) by (auto simp: sim_ffi_def sim_prepend_def d(6) view_wf_def
        intro!: sim_view_upd [OF v])
qed

lemma sim_adj_law: "adj_law sim_ffi sim_view"
  unfolding adj_law_def
proof (intro allI impI)
  fix w p v and n :: u16
  assume v: "sim_view w p = Some v"
  note d = sim_viewD [OF v]
  show "if unat n \<le> seg_len v
      then fst (rust_pktmbuf_adj sim_ffi p n w) = buf_addr v + data_off v + unat n
        \<and> sim_view (snd (rust_pktmbuf_adj sim_ffi p n w)) p
            = Some (v\<lparr>data_off := data_off v + unat n, seg_len := seg_len v - unat n,
                      pkt_bytes := (pkt_bytes v + (4294967296 - unat n)) mod 4294967296\<rparr>)
        \<and> only sim_view p w (snd (rust_pktmbuf_adj sim_ffi p n w))
      else rust_pktmbuf_adj sim_ffi p n w = (null_ptr, w)"
    using d(4) by (auto simp: sim_ffi_def sim_adj_def d(6) view_wf_def
        intro!: sim_view_upd [OF v])
qed

lemma sim_trim_law: "trim_law sim_ffi sim_view"
  unfolding trim_law_def
proof (intro allI impI)
  fix w p v and n :: u16
  assume v: "sim_view w p = Some v"
  note d = sim_viewD [OF v]
  show "if unat n \<le> seg_len v
      then fst (rust_pktmbuf_trim sim_ffi p n w) = 0
        \<and> sim_view (snd (rust_pktmbuf_trim sim_ffi p n w)) p
            = Some (v\<lparr>seg_len := seg_len v - unat n,
                      pkt_bytes := (pkt_bytes v + (4294967296 - unat n)) mod 4294967296\<rparr>)
        \<and> only sim_view p w (snd (rust_pktmbuf_trim sim_ffi p n w))
      else rust_pktmbuf_trim sim_ffi p n w = (- 1, w)"
    using d(4) by (auto simp: sim_ffi_def sim_trim_def d(6) view_wf_def
        intro!: sim_view_upd [OF v])
qed

lemma sim_alloc_law: "alloc_law sim_ffi sim_view (\<lambda>_. sim_room)"
  unfolding alloc_law_def
proof (intro allI impI)
  fix w pool p w'
  assume a: "rust_pktmbuf_alloc sim_ffi pool w = (p, w')"
  show "if p = null_ptr then \<forall>q. sim_view w' q = sim_view w q
      else sim_view w p = None \<and> only sim_view p w w'
        \<and> (\<exists>v. sim_view w' p = Some (view_empty v) \<and> length (buf_bytes v) = sim_room)"
  proof (cases "pool_free w = 0")
    case True
    with a show ?thesis by (auto simp: sim_ffi_def sim_alloc_def)
  next
    case False
    with a have p: "p = Suc (next_ptr w)"
      and w': "w' = w\<lparr>cells := (cells w)(p \<mapsto> sim_cell p []), next_ptr := p,
                    pool_free := pool_free w - 1\<rparr>"
      by (auto simp: sim_ffi_def sim_alloc_def)
    have "sim_view w' p = Some (sim_cell p [])"
      using p by (simp add: w' sim_view_def sim_cell_wf) (simp add: sim_cell_def)
    then have "sim_view w' p = Some (view_empty (sim_cell p []))"
      using sim_cell_empty by metis
    moreover have "length (buf_bytes (sim_cell p [])) = sim_room"
      by (simp add: sim_cell_def sim_room_def)
    moreover have "sim_view w p = None" "only sim_view p w w'"
      using p by (auto simp: sim_view_def only_def w')
    ultimately show ?thesis using p by auto
  qed
qed

lemma sim_free_law: "free_law sim_ffi sim_view"
  by (auto simp: free_law_def only_def sim_ffi_def sim_free_def sim_view_def)

lemma sim_mbuf_laws: "mbuf_laws sim_ffi sim_view (\<lambda>_. sim_room)"
  by (simp add: mbuf_laws_def sim_read_law sim_write_law sim_set_len_law sim_reset_law
      sim_append_law sim_prepend_law sim_adj_law sim_trim_law sim_alloc_law sim_free_law)

lemma sim_count_small: "unat (of_nat (min (unat (nb :: u16)) k) :: u16) = min (unat nb) k"
  using unat_u16_bound [of nb] by (intro unat_of_nat_u16) (simp add: min_def)

lemma sim_tx_burst_law: "tx_burst_law sim_ffi sim_view"
  unfolding tx_burst_law_def
  by (auto simp: sim_ffi_def sim_tx_burst_def Let_def sim_count_small sim_view_def)

lemma sim_rx_burst_law: "rx_burst_law sim_ffi sim_view"
  unfolding rx_burst_law_def
proof (intro allI impI, elim conjE)
  fix port q raw and nb n :: u16 and raw' and w w' :: sim
  assume b: "rust_eth_rx_burst sim_ffi port q raw nb w = (n, raw', w')"
    and nb: "unat nb \<le> length raw"
  define k where "k = min (unat nb) (min (length (rx_ring w)) (pool_free w))"
  let ?a = "next_ptr w"
  from b have n: "unat n = k" and raw': "raw' = map Suc [?a..<?a + k] @ drop k raw"
    and w': "w' = w\<lparr>cells := (\<lambda>p. if ?a < p \<and> p \<le> ?a + k
                        then Some (sim_cell p (rx_ring w ! (p - Suc ?a))) else cells w p),
                  next_ptr := ?a + k, pool_free := pool_free w - k, rx_ring := drop k (rx_ring w)\<rparr>"
    by (auto simp: sim_ffi_def sim_rx_burst_def Let_def k_def sim_count_small)
  have t: "take (unat n) raw' = map Suc [?a..<?a + k]" by (simp add: n raw')
  have s: "p \<in> set (take (unat n) raw') \<longleftrightarrow> ?a < p \<and> p \<le> ?a + k" for p
    unfolding t by (cases p) auto
  have "distinct (take (unat n) raw')" by (simp add: t distinct_map)
  moreover have "sim_view w p = None \<and> sim_view w' p \<noteq> None" if "?a < p" "p \<le> ?a + k" for p
  proof -
    have "view_wf (sim_cell p bs)" "buf_addr (sim_cell p bs) = sim_addr p" for bs
      using that by (simp_all add: sim_cell_wf) (simp add: sim_cell_def)
    then show ?thesis using that by (simp add: sim_view_def w')
  qed
  moreover have "sim_view w' p = sim_view w p" if "\<not> (?a < p \<and> p \<le> ?a + k)" for p
    using that by (auto simp: sim_view_def w')
  moreover have "unat n \<le> unat nb" "length raw' = length raw"
    using nb by (simp_all add: n raw' k_def)
  ultimately show "unat n \<le> unat nb \<and> length raw' = length raw \<and> distinct (take (unat n) raw')
     \<and> (\<forall>p \<in> set (take (unat n) raw'). p \<noteq> null_ptr \<and> sim_view w p = None \<and> sim_view w' p \<noteq> None)
     \<and> (\<forall>p. p \<notin> set (take (unat n) raw') \<longrightarrow> sim_view w' p = sim_view w p)"
    by (auto simp: s)
qed

text \<open>A world with one empty buffer handed out.\<close>

lemma sim_one_view: "sim_view sim_one 1 = Some (sim_cell 1 [])"
proof -
  have "view_wf (sim_cell 1 [])" "buf_addr (sim_cell 1 []) = sim_addr 1"
    by (simp_all add: sim_cell_wf) (simp add: sim_cell_def)
  then show ?thesis by (simp add: sim_one_def sim_alloc_def sim_start_def sim_view_def)
qed

lemma sim_one_only: "sim_view sim_one p \<noteq> None \<longleftrightarrow> p = 1"
  using sim_one_view by (cases "p = 1") (auto simp: sim_view_def sim_one_def sim_alloc_def sim_start_def)

end
