(* ===== verification/Mbuf_Buf.thy ===== *)
theory Mbuf_Buf
  imports Dpdk_Ffi Sim_Nic
begin

section \<open>Packet buffers (api/rte/mbuf.rs)\<close>

text \<open>
  \<open>Mbuf\<close> owns one \<open>rte_mbuf\<close>. Its methods are the definitions \<open>Mbuf_...\<close> over the DPDK record; a
  method that returns a mutable slice returns its address and length, \<open>Mbuf_data_mut\<close> takes the
  closure that the caller runs on the slice. Locale \<open>dpdk_mbuf\<close> holds what follows for every DPDK
  that keeps its documented laws: each method acts on the fields of the buffer as the reference
  operations on \<open>mbuf_view\<close> say. Locale \<open>packet_store\<close> is the interface the pool and the device
  use: buffers are handed out, filled, read and given back.
\<close>

datatype mbuf = Mbuf (mbuf_inner: ptr)

definition Mbuf_from_raw :: "ptr \<Rightarrow> mbuf option" where
  "Mbuf_from_raw p = (if p = null_ptr then None else Some (Mbuf p))"

definition Mbuf_alloc :: "('w, 'z) mbuf_ffi_scheme \<Rightarrow> ptr \<Rightarrow> 'w \<Rightarrow> mbuf option \<times> 'w" where
  "Mbuf_alloc f pool w =
     (case rust_pktmbuf_alloc f pool w of (p, w') \<Rightarrow> (Mbuf_from_raw p, w'))"

definition Mbuf_as_ptr :: "mbuf \<Rightarrow> ptr" where
  "Mbuf_as_ptr m = mbuf_inner m"

definition Mbuf_data_len :: "('w, 'z) mbuf_ffi_scheme \<Rightarrow> 'w \<Rightarrow> mbuf \<Rightarrow> nat" where
  "Mbuf_data_len f w m = unat (rust_pktmbuf_data_len f w (mbuf_inner m))"

definition Mbuf_pkt_len :: "('w, 'z) mbuf_ffi_scheme \<Rightarrow> 'w \<Rightarrow> mbuf \<Rightarrow> nat" where
  "Mbuf_pkt_len f w m = unat (rust_pktmbuf_pkt_len f w (mbuf_inner m))"

definition Mbuf_headroom :: "('w, 'z) mbuf_ffi_scheme \<Rightarrow> 'w \<Rightarrow> mbuf \<Rightarrow> nat" where
  "Mbuf_headroom f w m = unat (rust_pktmbuf_headroom f w (mbuf_inner m))"

definition Mbuf_tailroom :: "('w, 'z) mbuf_ffi_scheme \<Rightarrow> 'w \<Rightarrow> mbuf \<Rightarrow> nat" where
  "Mbuf_tailroom f w m = unat (rust_pktmbuf_tailroom f w (mbuf_inner m))"

definition Mbuf_capacity :: "('w, 'z) mbuf_ffi_scheme \<Rightarrow> 'w \<Rightarrow> mbuf \<Rightarrow> nat" where
  "Mbuf_capacity f w m = Mbuf_data_len f w m + Mbuf_tailroom f w m"

definition Mbuf_data :: "('w, 'z) mbuf_ffi_scheme \<Rightarrow> 'w \<Rightarrow> mbuf \<Rightarrow> u8 list" where
  "Mbuf_data f w m =
     (let a = rust_pktmbuf_mtod f w (mbuf_inner m); len = Mbuf_data_len f w m
      in if a = null_ptr \<or> len = 0 then [] else mem_read f w a len)"

definition Mbuf_data_mut ::
  "('w, 'z) mbuf_ffi_scheme \<Rightarrow> mbuf \<Rightarrow> (u8 list \<Rightarrow> 'r \<times> u8 list) \<Rightarrow> 'w \<Rightarrow> 'r \<times> 'w" where
  "Mbuf_data_mut f m g w =
     (let a = rust_pktmbuf_mtod f w (mbuf_inner m); len = Mbuf_data_len f w m
      in if a = null_ptr \<or> len = 0 then (fst (g []), w)
         else (case g (mem_read f w a len) of (r, bs) \<Rightarrow> (r, mem_write f a bs w)))"

definition Mbuf_append ::
  "('w, 'z) mbuf_ffi_scheme \<Rightarrow> mbuf \<Rightarrow> nat \<Rightarrow> 'w \<Rightarrow> (ptr \<times> nat) option \<times> 'w" where
  "Mbuf_append f m len w =
     (if len > 65535 then (None, w)
      else (case rust_pktmbuf_append f (mbuf_inner m) (of_nat len) w of (a, w') \<Rightarrow>
              if a = null_ptr then (None, w') else (Some (a, len), w')))"

definition Mbuf_prepend ::
  "('w, 'z) mbuf_ffi_scheme \<Rightarrow> mbuf \<Rightarrow> nat \<Rightarrow> 'w \<Rightarrow> (ptr \<times> nat) option \<times> 'w" where
  "Mbuf_prepend f m len w =
     (if len > 65535 then (None, w)
      else (case rust_pktmbuf_prepend f (mbuf_inner m) (of_nat len) w of (a, w') \<Rightarrow>
              if a = null_ptr then (None, w') else (Some (a, len), w')))"

definition Mbuf_adj :: "('w, 'z) mbuf_ffi_scheme \<Rightarrow> mbuf \<Rightarrow> nat \<Rightarrow> 'w \<Rightarrow> bool \<times> 'w" where
  "Mbuf_adj f m len w =
     (if len > 65535 then (False, w)
      else (case rust_pktmbuf_adj f (mbuf_inner m) (of_nat len) w of (a, w') \<Rightarrow>
              (a \<noteq> null_ptr, w')))"

definition Mbuf_trim :: "('w, 'z) mbuf_ffi_scheme \<Rightarrow> mbuf \<Rightarrow> nat \<Rightarrow> 'w \<Rightarrow> bool \<times> 'w" where
  "Mbuf_trim f m len w =
     (if len > 65535 then (False, w)
      else (case rust_pktmbuf_trim f (mbuf_inner m) (of_nat len) w of (r, w') \<Rightarrow> (r = 0, w')))"

definition Mbuf_reset :: "('w, 'z) mbuf_ffi_scheme \<Rightarrow> mbuf \<Rightarrow> 'w \<Rightarrow> 'w" where
  "Mbuf_reset f m w = rust_pktmbuf_reset f (mbuf_inner m) w"

text \<open>\<open>extend\<close> and \<open>shrink\<close> are the \<open>unsafe\<close> methods: the casts to \<open>u16\<close> and \<open>u32\<close> wrap.\<close>

definition Mbuf_extend :: "('w, 'z) mbuf_ffi_scheme \<Rightarrow> mbuf \<Rightarrow> nat \<Rightarrow> 'w \<Rightarrow> 'w" where
  "Mbuf_extend f m len w =
     (let new_data_len = Mbuf_data_len f w m + len; new_pkt_len = Mbuf_pkt_len f w m + len
      in rust_pktmbuf_set_pkt_len f (mbuf_inner m) (of_nat new_pkt_len)
           (rust_pktmbuf_set_data_len f (mbuf_inner m) (of_nat new_data_len) w))"

definition Mbuf_shrink :: "('w, 'z) mbuf_ffi_scheme \<Rightarrow> mbuf \<Rightarrow> nat \<Rightarrow> 'w \<Rightarrow> 'w" where
  "Mbuf_shrink f m len w =
     (let new_data_len = Mbuf_data_len f w m - len; new_pkt_len = Mbuf_pkt_len f w m - len
      in rust_pktmbuf_set_pkt_len f (mbuf_inner m) (of_nat new_pkt_len)
           (rust_pktmbuf_set_data_len f (mbuf_inner m) (of_nat new_data_len) w))"

definition Mbuf_copy_from_slice ::
  "('w, 'z) mbuf_ffi_scheme \<Rightarrow> mbuf \<Rightarrow> u8 list \<Rightarrow> 'w \<Rightarrow> bool \<times> 'w" where
  "Mbuf_copy_from_slice f m bs w =
     (case Mbuf_append f m (length bs) (Mbuf_reset f m w) of
        (Some (a, n), w') \<Rightarrow> (True, mem_write f a bs w')
      | (None, w') \<Rightarrow> (False, w'))"

definition Mbuf_drop :: "('w, 'z) mbuf_ffi_scheme \<Rightarrow> mbuf \<Rightarrow> 'w \<Rightarrow> 'w" where
  "Mbuf_drop f m w = rust_pktmbuf_free f (mbuf_inner m) w"

lemmas Mbuf_len_defs = Mbuf_data_len_def Mbuf_pkt_len_def Mbuf_headroom_def Mbuf_tailroom_def

subsection \<open>The methods on the fields of the buffer\<close>

locale dpdk_mbuf =
  fixes f :: "('w, 'z) mbuf_ffi_scheme" and V :: "'w view" and room :: "ptr \<Rightarrow> nat"
  assumes laws: "mbuf_laws f V room"
begin

lemma reads:
  assumes "V w p = Some v"
  shows "p \<noteq> null_ptr" "view_wf v" "rust_pktmbuf_mtod f w p = buf_addr v + data_off v"
    "rust_pktmbuf_data_len f w p = of_nat (seg_len v)" "rust_pktmbuf_pkt_len f w p = of_nat (pkt_bytes v)"
    "rust_pktmbuf_headroom f w p = of_nat (data_off v)"
    "rust_pktmbuf_tailroom f w p = of_nat (view_tail v)"
    "k + n \<le> length (buf_bytes v) \<Longrightarrow> mem_read f w (buf_addr v + k) n = subslice k (k + n) (buf_bytes v)"
  using laws assms unfolding mbuf_laws_def read_law_def by blast+

lemma lens:
  assumes "V w p = Some v"
  shows "Mbuf_data_len f w (Mbuf p) = seg_len v" "Mbuf_pkt_len f w (Mbuf p) = pkt_bytes v"
    "Mbuf_headroom f w (Mbuf p) = data_off v" "Mbuf_tailroom f w (Mbuf p) = view_tail v"
  using reads [OF assms] view_tail_bound [of v] by (auto simp: Mbuf_len_defs view_wf_def)

lemma data_view:
  assumes "V w p = Some v"
  shows "Mbuf_data f w (Mbuf p) = view_data v"
proof -
  note r = reads [OF assms]
  have "mem_read f w (buf_addr v + data_off v) (seg_len v) = view_data v"
    using r(8) [of "data_off v" "seg_len v"] r(2) by (simp add: view_wf_def view_data_def)
  then show ?thesis
    using r(2) by (auto simp: Mbuf_data_def Let_def lens [OF assms] r(3) view_wf_def view_data_def subslice_def)
qed

lemma write_at:
  assumes "V w p = Some v" and "k + length bs \<le> length (buf_bytes v)"
  shows "V (mem_write f (buf_addr v + k) bs w) p = Some (v\<lparr>buf_bytes := slice_write (buf_bytes v) k bs\<rparr>)"
    "only V p w (mem_write f (buf_addr v + k) bs w)"
  using laws assms unfolding mbuf_laws_def write_law_def by blast+

lemma reset_view:
  assumes "V w p = Some v"
  shows "V (Mbuf_reset f (Mbuf p) w) p = Some (view_empty v)" "only V p w (Mbuf_reset f (Mbuf p) w)"
  using laws assms unfolding mbuf_laws_def reset_law_def Mbuf_reset_def by auto

lemma append_view:
  assumes v: "V w p = Some v" and n: "len \<le> 65535"
  shows "len \<le> view_tail v \<Longrightarrow> \<exists>w'. Mbuf_append f (Mbuf p) len w
      = (Some (buf_addr v + data_off v + seg_len v, len), w') \<and> only V p w w'
      \<and> V w' p = Some (v\<lparr>seg_len := seg_len v + len, pkt_bytes := (pkt_bytes v + len) mod 4294967296\<rparr>)"
    and "\<not> len \<le> view_tail v \<Longrightarrow> Mbuf_append f (Mbuf p) len w = (None, w)"
proof -
  have u: "unat (of_nat len :: u16) = len" using n by simp
  have law: "if unat m \<le> view_tail v
      then fst (rust_pktmbuf_append f p m w) = buf_addr v + data_off v + seg_len v
        \<and> V (snd (rust_pktmbuf_append f p m w)) p
            = Some (v\<lparr>seg_len := seg_len v + unat m,
                      pkt_bytes := (pkt_bytes v + unat m) mod 4294967296\<rparr>)
        \<and> only V p w (snd (rust_pktmbuf_append f p m w))
      else rust_pktmbuf_append f p m w = (null_ptr, w)" for m
    using laws v unfolding mbuf_laws_def append_law_def by blast
  from law [of "of_nat len"] reads(2) [OF v] n
  show "len \<le> view_tail v \<Longrightarrow> \<exists>w'. Mbuf_append f (Mbuf p) len w
      = (Some (buf_addr v + data_off v + seg_len v, len), w') \<and> only V p w w'
      \<and> V w' p = Some (v\<lparr>seg_len := seg_len v + len, pkt_bytes := (pkt_bytes v + len) mod 4294967296\<rparr>)"
    unfolding u by (auto simp: Mbuf_append_def view_wf_def split: prod.splits)
  from law [of "of_nat len"] n
  show "\<not> len \<le> view_tail v \<Longrightarrow> Mbuf_append f (Mbuf p) len w = (None, w)"
    unfolding u by (simp add: Mbuf_append_def)
qed

lemma prepend_view:
  assumes v: "V w p = Some v" and n: "len \<le> 65535"
  shows "len \<le> data_off v \<Longrightarrow> \<exists>w'. Mbuf_prepend f (Mbuf p) len w
      = (Some (buf_addr v + (data_off v - len), len), w') \<and> only V p w w'
      \<and> V w' p = Some (v\<lparr>data_off := data_off v - len, seg_len := seg_len v + len,
                        pkt_bytes := (pkt_bytes v + len) mod 4294967296\<rparr>)"
    and "\<not> len \<le> data_off v \<Longrightarrow> Mbuf_prepend f (Mbuf p) len w = (None, w)"
proof -
  have u: "unat (of_nat len :: u16) = len" using n by simp
  have law: "if unat m \<le> data_off v
      then fst (rust_pktmbuf_prepend f p m w) = buf_addr v + (data_off v - unat m)
        \<and> V (snd (rust_pktmbuf_prepend f p m w)) p
            = Some (v\<lparr>data_off := data_off v - unat m, seg_len := seg_len v + unat m,
                      pkt_bytes := (pkt_bytes v + unat m) mod 4294967296\<rparr>)
        \<and> only V p w (snd (rust_pktmbuf_prepend f p m w))
      else rust_pktmbuf_prepend f p m w = (null_ptr, w)" for m
    using laws v unfolding mbuf_laws_def prepend_law_def by blast
  from law [of "of_nat len"] reads(2) [OF v] n
  show "len \<le> data_off v \<Longrightarrow> \<exists>w'. Mbuf_prepend f (Mbuf p) len w
      = (Some (buf_addr v + (data_off v - len), len), w') \<and> only V p w w'
      \<and> V w' p = Some (v\<lparr>data_off := data_off v - len, seg_len := seg_len v + len,
                        pkt_bytes := (pkt_bytes v + len) mod 4294967296\<rparr>)"
    unfolding u by (auto simp: Mbuf_prepend_def view_wf_def split: prod.splits)
  from law [of "of_nat len"] n
  show "\<not> len \<le> data_off v \<Longrightarrow> Mbuf_prepend f (Mbuf p) len w = (None, w)"
    unfolding u by (simp add: Mbuf_prepend_def)
qed

lemma adj_view:
  assumes v: "V w p = Some v" and n: "len \<le> 65535"
  shows "len \<le> seg_len v \<Longrightarrow> \<exists>w'. Mbuf_adj f (Mbuf p) len w = (True, w') \<and> only V p w w'
      \<and> V w' p = Some (v\<lparr>data_off := data_off v + len, seg_len := seg_len v - len,
                        pkt_bytes := (pkt_bytes v + (4294967296 - len)) mod 4294967296\<rparr>)"
    and "\<not> len \<le> seg_len v \<Longrightarrow> Mbuf_adj f (Mbuf p) len w = (False, w)"
proof -
  have u: "unat (of_nat len :: u16) = len" using n by simp
  have law: "if unat m \<le> seg_len v
      then fst (rust_pktmbuf_adj f p m w) = buf_addr v + data_off v + unat m
        \<and> V (snd (rust_pktmbuf_adj f p m w)) p
            = Some (v\<lparr>data_off := data_off v + unat m, seg_len := seg_len v - unat m,
                      pkt_bytes := (pkt_bytes v + (4294967296 - unat m)) mod 4294967296\<rparr>)
        \<and> only V p w (snd (rust_pktmbuf_adj f p m w))
      else rust_pktmbuf_adj f p m w = (null_ptr, w)" for m
    using laws v unfolding mbuf_laws_def adj_law_def by blast
  from law [of "of_nat len"] reads(2) [OF v] n
  show "len \<le> seg_len v \<Longrightarrow> \<exists>w'. Mbuf_adj f (Mbuf p) len w = (True, w') \<and> only V p w w'
      \<and> V w' p = Some (v\<lparr>data_off := data_off v + len, seg_len := seg_len v - len,
                        pkt_bytes := (pkt_bytes v + (4294967296 - len)) mod 4294967296\<rparr>)"
    unfolding u by (auto simp: Mbuf_adj_def view_wf_def split: prod.splits)
  from law [of "of_nat len"] n
  show "\<not> len \<le> seg_len v \<Longrightarrow> Mbuf_adj f (Mbuf p) len w = (False, w)"
    unfolding u by (simp add: Mbuf_adj_def)
qed

lemma trim_view:
  assumes v: "V w p = Some v" and n: "len \<le> 65535"
  shows "len \<le> seg_len v \<Longrightarrow> \<exists>w'. Mbuf_trim f (Mbuf p) len w = (True, w') \<and> only V p w w'
      \<and> V w' p = Some (v\<lparr>seg_len := seg_len v - len,
                        pkt_bytes := (pkt_bytes v + (4294967296 - len)) mod 4294967296\<rparr>)"
    and "\<not> len \<le> seg_len v \<Longrightarrow> Mbuf_trim f (Mbuf p) len w = (False, w)"
proof -
  have u: "unat (of_nat len :: u16) = len" using n by simp
  have law: "if unat m \<le> seg_len v
      then fst (rust_pktmbuf_trim f p m w) = 0
        \<and> V (snd (rust_pktmbuf_trim f p m w)) p
            = Some (v\<lparr>seg_len := seg_len v - unat m,
                      pkt_bytes := (pkt_bytes v + (4294967296 - unat m)) mod 4294967296\<rparr>)
        \<and> only V p w (snd (rust_pktmbuf_trim f p m w))
      else rust_pktmbuf_trim f p m w = (- 1, w)" for m
    using laws v unfolding mbuf_laws_def trim_law_def by blast
  from law [of "of_nat len"] n
  show "len \<le> seg_len v \<Longrightarrow> \<exists>w'. Mbuf_trim f (Mbuf p) len w = (True, w') \<and> only V p w w'
      \<and> V w' p = Some (v\<lparr>seg_len := seg_len v - len,
                        pkt_bytes := (pkt_bytes v + (4294967296 - len)) mod 4294967296\<rparr>)"
    unfolding u by (auto simp: Mbuf_trim_def split: prod.splits)
  from law [of "of_nat len"] n
  show "\<not> len \<le> seg_len v \<Longrightarrow> Mbuf_trim f (Mbuf p) len w = (False, w)"
    unfolding u by (simp add: Mbuf_trim_def)
qed

lemma set_lens:
  assumes v: "V w p = Some v" and n: "data_off v + n \<le> length (buf_bytes v)"
  shows "V (rust_pktmbuf_set_pkt_len f p (of_nat m) (rust_pktmbuf_set_data_len f p (of_nat n) w)) p
      = Some (v\<lparr>seg_len := n, pkt_bytes := m mod 4294967296\<rparr>)"
    and "only V p w (rust_pktmbuf_set_pkt_len f p (of_nat m) (rust_pktmbuf_set_data_len f p (of_nat n) w))"
proof -
  have law: "(data_off v + unat n' \<le> length (buf_bytes v) \<longrightarrow>
        V (rust_pktmbuf_set_data_len f p n' w) p = Some (v\<lparr>seg_len := unat n'\<rparr>))
     \<and> only V p w (rust_pktmbuf_set_data_len f p n' w)
     \<and> V (rust_pktmbuf_set_pkt_len f p m' w) p = Some (v\<lparr>pkt_bytes := unat m'\<rparr>)
     \<and> only V p w (rust_pktmbuf_set_pkt_len f p m' w)" if "V w p = Some v" for w v n' m'
    using laws that unfolding mbuf_laws_def set_len_law_def by blast
  have u: "unat (of_nat n :: u16) = n"
    using n reads(2) [OF v] by (intro unat_of_nat_u16) (simp add: view_wf_def)
  have u32: "unat (of_nat m :: u32) = m mod 4294967296"
    by (simp add: unat_of_nat take_bit_eq_mod)
  let ?w = "rust_pktmbuf_set_data_len f p (of_nat n) w"
  have 1: "V ?w p = Some (v\<lparr>seg_len := n\<rparr>)" "only V p w ?w"
    using law [OF v, of "of_nat n"] n by (simp_all add: u)
  with law [OF 1(1), of _ "of_nat m"]
  show "V (rust_pktmbuf_set_pkt_len f p (of_nat m) ?w) p
      = Some (v\<lparr>seg_len := n, pkt_bytes := m mod 4294967296\<rparr>)"
    and "only V p w (rust_pktmbuf_set_pkt_len f p (of_nat m) ?w)"
    by (auto simp: u32 intro: only_trans)
qed

lemma extend_view:
  assumes v: "V w p = Some v" and n: "len \<le> view_tail v"
  shows "V (Mbuf_extend f (Mbuf p) len w) p
      = Some (v\<lparr>seg_len := seg_len v + len, pkt_bytes := (pkt_bytes v + len) mod 4294967296\<rparr>)"
    "only V p w (Mbuf_extend f (Mbuf p) len w)"
proof -
  have fits: "data_off v + (seg_len v + len) \<le> length (buf_bytes v)"
    using n reads(2) [OF v] by (auto simp: view_tail_def view_wf_def)
  show "V (Mbuf_extend f (Mbuf p) len w) p
      = Some (v\<lparr>seg_len := seg_len v + len, pkt_bytes := (pkt_bytes v + len) mod 4294967296\<rparr>)"
    "only V p w (Mbuf_extend f (Mbuf p) len w)"
    unfolding Mbuf_extend_def Let_def lens [OF v] mbuf.sel by (rule set_lens [OF v fits])+
qed

lemma shrink_view:
  assumes v: "V w p = Some v"
  shows "V (Mbuf_shrink f (Mbuf p) len w) p
      = Some (v\<lparr>seg_len := seg_len v - len, pkt_bytes := (pkt_bytes v - len) mod 4294967296\<rparr>)"
    "only V p w (Mbuf_shrink f (Mbuf p) len w)"
proof -
  have fits: "data_off v + (seg_len v - len) \<le> length (buf_bytes v)"
    using reads(2) [OF v] by (auto simp: view_wf_def)
  show "V (Mbuf_shrink f (Mbuf p) len w) p
      = Some (v\<lparr>seg_len := seg_len v - len, pkt_bytes := (pkt_bytes v - len) mod 4294967296\<rparr>)"
    "only V p w (Mbuf_shrink f (Mbuf p) len w)"
    unfolding Mbuf_shrink_def Let_def lens [OF v] mbuf.sel by (rule set_lens [OF v fits])+
qed

lemma data_mut_view:
  assumes v: "V w p = Some v" and g: "g (view_data v) = (r, bs)" and l: "length bs = seg_len v"
  shows "\<exists>w'. Mbuf_data_mut f (Mbuf p) g w = (r, w') \<and> only V p w w'
      \<and> V w' p = Some (v\<lparr>buf_bytes := slice_write (buf_bytes v) (data_off v) bs\<rparr>)"
proof (cases "seg_len v = 0")
  case True
  then show ?thesis using v g l
    by (auto simp: Mbuf_data_mut_def Let_def lens [OF v] view_data_def subslice_def slice_write_def)
next
  case False
  note r = reads [OF v]
  have k: "data_off v + length bs \<le> length (buf_bytes v)" using r(2) l by (simp add: view_wf_def)
  have "mem_read f w (buf_addr v + data_off v) (seg_len v) = view_data v"
    using r(8) [of "data_off v" "seg_len v"] r(2) by (simp add: view_wf_def view_data_def)
  then show ?thesis
    using False r(2) g write_at [OF v k]
    by (auto simp: Mbuf_data_mut_def Let_def lens [OF v] r(3) view_wf_def)
qed

end

text \<open>What \<open>copy_from_slice\<close> leaves in a buffer.\<close>

definition view_fill :: "mbuf_view \<Rightarrow> u8 list \<Rightarrow> mbuf_view" where
  "view_fill v bs = (view_empty v)\<lparr>seg_len := length bs, pkt_bytes := length bs,
     buf_bytes := slice_write (buf_bytes v) (data_off (view_empty v)) bs\<rparr>"

lemma view_data_fill:
  "length bs \<le> view_tail (view_empty v) \<Longrightarrow> view_data (view_fill v bs) = bs"
  by (simp add: view_fill_def view_data_def view_tail_def)

context dpdk_mbuf
begin

lemma copy_view:
  assumes v: "V w p = Some v"
  shows "length bs \<le> view_tail (view_empty v) \<Longrightarrow> \<exists>w'. Mbuf_copy_from_slice f (Mbuf p) bs w = (True, w')
      \<and> only V p w w' \<and> V w' p = Some (view_fill v bs)"
    and "\<not> length bs \<le> view_tail (view_empty v) \<Longrightarrow> \<exists>w'. Mbuf_copy_from_slice f (Mbuf p) bs w = (False, w')
      \<and> only V p w w' \<and> V w' p = Some (view_empty v)"
proof -
  let ?w = "Mbuf_reset f (Mbuf p) w"
  note e = reset_view [OF v]
  have tail: "view_tail (view_empty v) < 65536" by (rule view_tail_bound [OF reads(2) [OF e(1)]])
  show "\<exists>w'. Mbuf_copy_from_slice f (Mbuf p) bs w = (True, w') \<and> only V p w w'
      \<and> V w' p = Some (view_fill v bs)" if le: "length bs \<le> view_tail (view_empty v)"
  proof -
    from append_view(1) [OF e(1) _ le] tail le obtain w1
      where a: "Mbuf_append f (Mbuf p) (length bs) ?w
          = (Some (buf_addr v + data_off (view_empty v), length bs), w1)" and o: "only V p ?w w1"
        and v1: "V w1 p = Some ((view_empty v)\<lparr>seg_len := length bs, pkt_bytes := length bs\<rparr>)"
      by auto
    have fit: "data_off (view_empty v) + length bs \<le> length (buf_bytes v)"
      using le by (simp add: view_tail_def)
    with write_at [OF v1, of "data_off (view_empty v)" bs] e(2) o a show ?thesis
      by (auto simp: Mbuf_copy_from_slice_def view_fill_def simp del: view_empty_simps(5)
          intro: only_trans)
  qed
  show "\<exists>w'. Mbuf_copy_from_slice f (Mbuf p) bs w = (False, w') \<and> only V p w w'
      \<and> V w' p = Some (view_empty v)" if gt: "\<not> length bs \<le> view_tail (view_empty v)"
  proof -
    have "Mbuf_append f (Mbuf p) (length bs) ?w = (None, ?w)"
      using append_view(2) [OF e(1) _ gt] by (cases "length bs \<le> 65535") (auto simp: Mbuf_append_def)
    then show ?thesis using e by (simp add: Mbuf_copy_from_slice_def)
  qed
qed

end

subsection \<open>The interface the pool and the device use\<close>

locale packet_store =
  fixes alloc :: "ptr \<Rightarrow> 'w \<Rightarrow> 'b option \<times> 'w"
    and fill :: "'b \<Rightarrow> u8 list \<Rightarrow> 'w \<Rightarrow> bool \<times> 'w"
    and bytes :: "'w \<Rightarrow> 'b \<Rightarrow> u8 list"
    and release :: "'b \<Rightarrow> 'w \<Rightarrow> 'w"
    and held :: "'w \<Rightarrow> 'b \<Rightarrow> bool"
    and limit :: "ptr \<Rightarrow> nat"
  assumes alloc_fresh: "alloc pool w = (Some b, w') \<Longrightarrow> \<not> held w b \<and> held w' b \<and> bytes w' b = []"
    and alloc_frame: "alloc pool w = (r, w') \<Longrightarrow> held w c \<Longrightarrow> held w' c \<and> bytes w' c = bytes w c"
    and alloc_only: "alloc pool w = (r, w') \<Longrightarrow> held w' c \<Longrightarrow> held w c \<or> r = Some c"
    and fill_ok: "alloc pool w = (Some b, w') \<Longrightarrow> fst (fill b bs w') \<longleftrightarrow> length bs \<le> limit pool"
    and fill_bytes: "held w b \<Longrightarrow> fill b bs w = (True, w') \<Longrightarrow> bytes w' b = bs"
    and fill_held: "held w b \<Longrightarrow> fill b bs w = (ok, w') \<Longrightarrow> held w' c = held w c"
    and fill_frame: "held w b \<Longrightarrow> fill b bs w = (ok, w') \<Longrightarrow> held w c \<Longrightarrow> c \<noteq> b \<Longrightarrow> bytes w' c = bytes w c"
    and release_held: "held w b \<Longrightarrow> held (release b w) c \<longleftrightarrow> held w c \<and> c \<noteq> b"
    and release_frame: "held w b \<Longrightarrow> held w c \<Longrightarrow> c \<noteq> b \<Longrightarrow> bytes (release b w) c = bytes w c"
begin

text \<open>A buffer that is taken and filled holds the frame, and disturbs no other.\<close>

lemma alloc_fill:
  assumes a: "alloc pool w = (Some b, w1)" and fl: "fill b bs w1 = (True, w2)"
  shows "\<not> held w b" "held w2 b" "bytes w2 b = bs"
    "held w c \<Longrightarrow> held w2 c \<and> bytes w2 c = bytes w c" "held w2 c \<Longrightarrow> held w c \<or> c = b"
proof -
  note fr = alloc_fresh [OF a]
  show "\<not> held w b" "held w2 b" "bytes w2 b = bs"
    using fr fill_held [OF _ fl, of b] fill_bytes [OF _ fl] by auto
  show "held w c \<Longrightarrow> held w2 c \<and> bytes w2 c = bytes w c"
    using fr alloc_frame [OF a, of c] fill_held [OF _ fl, of c] fill_frame [OF _ fl, of c] by auto
  show "held w2 c \<Longrightarrow> held w c \<or> c = b"
    using fr alloc_only [OF a, of c] fill_held [OF _ fl, of c] by auto
qed

text \<open>A buffer that is taken and given back at once leaves everything as it was.\<close>

lemma alloc_release:
  assumes a: "alloc pool w = (Some b, w1)" and fl: "fill b bs w1 = (r, w2)"
  shows "held (release b w2) c = held w c" "held w c \<Longrightarrow> bytes (release b w2) c = bytes w c"
proof -
  note fr = alloc_fresh [OF a]
  have h2: "held w2 b" using fr fill_held [OF _ fl] by simp
  have h: "held w2 c = held w1 c" for c using fr fill_held [OF _ fl] by simp
  show "held (release b w2) c = held w c"
    using fr alloc_frame [OF a, of c] alloc_only [OF a, of c] release_held [OF h2, of c] h by auto
  assume c: "held w c"
  then have "c \<noteq> b" using fr by auto
  then show "bytes (release b w2) c = bytes w c"
    using c fr alloc_frame [OF a c] fill_frame [OF _ fl, of c] release_frame [OF h2, of c] h by auto
qed

end

definition Mbuf_held :: "'w view \<Rightarrow> 'w \<Rightarrow> mbuf \<Rightarrow> bool" where
  "Mbuf_held V w m \<longleftrightarrow> V w (mbuf_inner m) \<noteq> None"

definition pool_limit :: "(ptr \<Rightarrow> nat) \<Rightarrow> ptr \<Rightarrow> nat" where
  "pool_limit room pool = room pool - min RTE_PKTMBUF_HEADROOM (room pool)"

lemma only_held:
  assumes "only V p w w'" and "V w p \<noteq> None" and "V w' p \<noteq> None"
  shows "Mbuf_held V w' c = Mbuf_held V w c"
  using assms by (cases "mbuf_inner c = p") (auto simp: Mbuf_held_def only_def)

context dpdk_mbuf
begin

lemma alloc_view:
  assumes "Mbuf_alloc f pool w = (r, w')"
  shows "r = None \<Longrightarrow> V w' q = V w q"
    "r = Some m \<Longrightarrow> V w (mbuf_inner m) = None \<and> only V (mbuf_inner m) w w'
       \<and> (\<exists>v. V w' (mbuf_inner m) = Some (view_empty v) \<and> length (buf_bytes v) = room pool)"
proof -
  obtain p where a: "rust_pktmbuf_alloc f pool w = (p, w')" and r: "r = Mbuf_from_raw p"
    using assms by (auto simp: Mbuf_alloc_def split: prod.splits)
  have "if p = null_ptr then (\<forall>q. V w' q = V w q)
      else V w p = None \<and> only V p w w'
        \<and> (\<exists>v. V w' p = Some (view_empty v) \<and> length (buf_bytes v) = room pool)"
    using laws a unfolding mbuf_laws_def alloc_law_def by blast
  then show "r = None \<Longrightarrow> V w' q = V w q"
    "r = Some m \<Longrightarrow> V w (mbuf_inner m) = None \<and> only V (mbuf_inner m) w w'
       \<and> (\<exists>v. V w' (mbuf_inner m) = Some (view_empty v) \<and> length (buf_bytes v) = room pool)"
    by (auto simp: r Mbuf_from_raw_def split: if_splits)
qed

lemma drop_view:
  assumes "V w p = Some v"
  shows "V (Mbuf_drop f (Mbuf p) w) p = None" "only V p w (Mbuf_drop f (Mbuf p) w)"
  using laws assms unfolding mbuf_laws_def free_law_def Mbuf_drop_def by auto

lemma data_same: "V w p = Some v \<Longrightarrow> V w' p = Some v \<Longrightarrow> Mbuf_data f w' (Mbuf p) = Mbuf_data f w (Mbuf p)"
  by (simp add: data_view)

lemma only_data:
  assumes "only V p w w'" and "Mbuf_held V w c" and "c \<noteq> Mbuf p"
  shows "Mbuf_held V w' c" "Mbuf_data f w' c = Mbuf_data f w c"
proof -
  obtain q where c: "c = Mbuf q" by (cases c)
  with assms have q: "V w' q = V w q" by (simp add: only_def)
  obtain v where v: "V w q = Some v" using assms(2) c by (auto simp: Mbuf_held_def)
  with q show "Mbuf_held V w' c" "Mbuf_data f w' c = Mbuf_data f w c"
    by (simp_all add: c Mbuf_held_def data_view)
qed

lemma copy_held:
  assumes h: "Mbuf_held V w b" and c: "Mbuf_copy_from_slice f b bs w = (r, w')"
  shows "Mbuf_held V w' m = Mbuf_held V w m" "only V (mbuf_inner b) w w'"
    "r \<Longrightarrow> Mbuf_data f w' b = bs"
proof -
  obtain p v where b: "b = Mbuf p" and v: "V w p = Some v"
    using h by (cases b) (auto simp: Mbuf_held_def)
  have *: "only V p w w' \<and> V w' p \<noteq> None \<and> (r \<longrightarrow> Mbuf_data f w' b = bs)"
  proof (cases "length bs \<le> view_tail (view_empty v)")
    case True
    from copy_view(1) [OF v True] c show ?thesis
      by (auto simp: b data_view view_data_fill [OF True])
  next
    case False
    from copy_view(2) [OF v False] c show ?thesis by (auto simp: b)
  qed
  then show "Mbuf_held V w' m = Mbuf_held V w m" "only V (mbuf_inner b) w w'"
    "r \<Longrightarrow> Mbuf_data f w' b = bs"
    using only_held [of V p w w' m] v by (auto simp: b)
qed

end

sublocale dpdk_mbuf \<subseteq> store: packet_store "Mbuf_alloc f" "Mbuf_copy_from_slice f" "Mbuf_data f"
  "Mbuf_drop f" "Mbuf_held V" "pool_limit room"
proof unfold_locales
  fix pool w b w'
  assume a: "Mbuf_alloc f pool w = (Some b, w')"
  note al = alloc_view(2) [OF a refl]
  from al show "\<not> Mbuf_held V w b \<and> Mbuf_held V w' b \<and> Mbuf_data f w' b = []"
    by (cases b) (auto simp: Mbuf_held_def data_view)
  fix bs :: "u8 list"
  from al obtain p v where b: "b = Mbuf p" and v: "V w' p = Some (view_empty v)"
    and l: "length (buf_bytes v) = room pool"
    by (cases b) auto
  have e: "view_empty (view_empty v) = view_empty v" by (simp add: view_empty_def)
  have "length bs \<le> view_tail (view_empty v) \<longleftrightarrow> length bs \<le> pool_limit room pool"
    by (simp add: view_tail_empty pool_limit_def l)
  then show "fst (Mbuf_copy_from_slice f b bs w') \<longleftrightarrow> length bs \<le> pool_limit room pool"
    using copy_view [OF v, of bs] by (cases "length bs \<le> view_tail (view_empty v)") (auto simp: b e)
next
  fix pool w r w' c
  assume a: "Mbuf_alloc f pool w = (r, w')"
  show "Mbuf_held V w' c \<and> Mbuf_data f w' c = Mbuf_data f w c" if h: "Mbuf_held V w c"
  proof (cases r)
    case None
    then have "V w' q = V w q" for q using alloc_view(1) [OF a] by simp
    then have "only V (Suc (mbuf_inner c)) w w'" by (simp add: only_def)
    then show ?thesis using only_data [OF _ h] by (cases c) auto
  next
    case (Some m)
    from alloc_view(2) [OF a Some] have o: "only V (mbuf_inner m) w w'" and "V w (mbuf_inner m) = None"
      by auto
    then have "c \<noteq> Mbuf (mbuf_inner m)" using h by (auto simp: Mbuf_held_def)
    then show ?thesis using only_data [OF o h] by blast
  qed
  show "Mbuf_held V w c \<or> r = Some c" if h: "Mbuf_held V w' c"
  proof (cases r)
    case None
    then show ?thesis using alloc_view(1) [OF a] h by (simp add: Mbuf_held_def)
  next
    case (Some m)
    from alloc_view(2) [OF a Some] have "only V (mbuf_inner m) w w'" by auto
    then show ?thesis using h Some
      by (cases "mbuf_inner c = mbuf_inner m") (auto simp: Mbuf_held_def only_def mbuf.expand)
  qed
next
  fix w b bs w'
  assume "Mbuf_held V w b" and "Mbuf_copy_from_slice f b bs w = (True, w')"
  then show "Mbuf_data f w' b = bs" using copy_held(3) by blast
next
  fix w b bs ok w' c
  assume h: "Mbuf_held V w b" and cp: "Mbuf_copy_from_slice f b bs w = (ok, w')"
  from copy_held(1) [OF h cp] show "Mbuf_held V w' c = Mbuf_held V w c" .
  show "Mbuf_data f w' c = Mbuf_data f w c" if "Mbuf_held V w c" "c \<noteq> b"
    using only_data(2) [OF copy_held(2) [OF h cp] that(1)] that(2) by (cases b) auto
next
  fix w b c
  assume h: "Mbuf_held V w b"
  then obtain p v where b: "b = Mbuf p" and v: "V w p = Some v" by (cases b) (auto simp: Mbuf_held_def)
  from drop_view [OF v] show "Mbuf_held V (Mbuf_drop f b w) c \<longleftrightarrow> Mbuf_held V w c \<and> c \<noteq> b"
    by (cases c; cases "mbuf_inner c = p") (auto simp: b Mbuf_held_def only_def)
  show "Mbuf_data f (Mbuf_drop f b w) c = Mbuf_data f w c" if "Mbuf_held V w c" "c \<noteq> b"
    using only_data(2) [OF drop_view(2) [OF v] that(1)] that(2) by (simp add: b)
qed

interpretation nic: dpdk_mbuf sim_ffi sim_view "\<lambda>_. sim_room"
  by unfold_locales (rule sim_mbuf_laws)

subsection \<open>Properties\<close>

text \<open>
  \<open>Mbuf::copy_from_slice\<close> succeeds exactly when the bytes fit behind the default headroom. On
  success the buffer holds exactly these bytes, as its data and as its packet; on failure it is
  empty. No other buffer is touched.
\<close>

theorem copy_from_slice_spec:
  assumes "mbuf_laws f V room" and "V w p = Some v"
  shows "case Mbuf_copy_from_slice f (Mbuf p) bs w of (ok, w') \<Rightarrow>
      (ok \<longleftrightarrow> length bs \<le> length (buf_bytes v) - min RTE_PKTMBUF_HEADROOM (length (buf_bytes v)))
      \<and> Mbuf_data f w' (Mbuf p) = (if ok then bs else [])
      \<and> Mbuf_pkt_len f w' (Mbuf p) = (if ok then length bs else 0)
      \<and> only V p w w'"
proof -
  note d = dpdk_mbuf.intro [OF assms(1)]
  note copy = dpdk_mbuf.copy_view [OF d assms(2), of bs]
  show ?thesis
  proof (cases "length bs \<le> view_tail (view_empty v)")
    case True
    then show ?thesis using copy(1) view_data_fill [OF True]
      by (auto simp: dpdk_mbuf.data_view [OF d] dpdk_mbuf.lens [OF d] view_fill_def view_tail_empty)
  next
    case False
    then show ?thesis using copy(2)
      by (auto simp: dpdk_mbuf.data_view [OF d] dpdk_mbuf.lens [OF d] view_tail_empty)
  qed
qed

theorem copy_from_slice_witness:
  "case Mbuf_copy_from_slice sim_ffi (Mbuf 1) [1, 2, 3] sim_one of (ok, w') \<Rightarrow>
     ok \<and> Mbuf_data sim_ffi w' (Mbuf 1) = [1, 2, 3]"
  using copy_from_slice_spec [OF sim_mbuf_laws sim_one_view, of "[1, 2, 3]"]
  by (auto simp: sim_cell_def RTE_PKTMBUF_HEADROOM_def split: prod.splits)

text \<open>
  Space that \<open>Mbuf::append\<close> added at the end is given back by \<open>Mbuf::trim\<close>, and space that
  \<open>Mbuf::prepend\<close> added at the front by \<open>Mbuf::adj\<close>: both pairs succeed whenever there is room and
  restore every field of the buffer. Without room, \<open>append\<close> and \<open>prepend\<close> fail and change nothing.
\<close>

theorem append_trim_prepend_adj:
  assumes "mbuf_laws f V room" and "V w p = Some v" and "len \<le> 65535"
  shows "(if len \<le> Mbuf_tailroom f w (Mbuf p)
      then \<exists>s w1 w2. Mbuf_append f (Mbuf p) len w = (Some (s, len), w1)
             \<and> Mbuf_trim f (Mbuf p) len w1 = (True, w2) \<and> V w2 p = Some v
      else Mbuf_append f (Mbuf p) len w = (None, w))
    \<and> (if len \<le> Mbuf_headroom f w (Mbuf p)
      then \<exists>s w1 w2. Mbuf_prepend f (Mbuf p) len w = (Some (s, len), w1)
             \<and> Mbuf_adj f (Mbuf p) len w1 = (True, w2) \<and> V w2 p = Some v
      else Mbuf_prepend f (Mbuf p) len w = (None, w))"
proof -
  note d = dpdk_mbuf.intro [OF assms(1)]
  note lens = dpdk_mbuf.lens [OF d assms(2)]
  have pb: "pkt_bytes v < 4294967296"
    using dpdk_mbuf.reads(2) [OF d assms(2)] by (simp add: view_wf_def)
  have again: "((pkt_bytes v + len) mod 4294967296 + (4294967296 - len)) mod 4294967296 = pkt_bytes v"
  proof -
    have "((pkt_bytes v + len) mod 4294967296 + (4294967296 - len)) mod 4294967296
        = (pkt_bytes v + len + (4294967296 - len)) mod 4294967296" by presburger
    also have "\<dots> = pkt_bytes v" using pb assms(3) by simp
    finally show ?thesis .
  qed
  have 1: "\<exists>s w1 w2. Mbuf_append f (Mbuf p) len w = (Some (s, len), w1)
      \<and> Mbuf_trim f (Mbuf p) len w1 = (True, w2) \<and> V w2 p = Some v" if le: "len \<le> view_tail v"
  proof -
    from dpdk_mbuf.append_view(1) [OF d assms(2,3) le] obtain s w1
      where a: "Mbuf_append f (Mbuf p) len w = (Some (s, len), w1)"
        and v1: "V w1 p = Some (v\<lparr>seg_len := seg_len v + len,
                   pkt_bytes := (pkt_bytes v + len) mod 4294967296\<rparr>)" by blast
    from dpdk_mbuf.trim_view(1) [OF d v1 assms(3)] again a show ?thesis by auto
  qed
  have 2: "\<exists>s w1 w2. Mbuf_prepend f (Mbuf p) len w = (Some (s, len), w1)
      \<and> Mbuf_adj f (Mbuf p) len w1 = (True, w2) \<and> V w2 p = Some v" if le: "len \<le> data_off v"
  proof -
    from dpdk_mbuf.prepend_view(1) [OF d assms(2,3) le] obtain s w1
      where a: "Mbuf_prepend f (Mbuf p) len w = (Some (s, len), w1)"
        and v1: "V w1 p = Some (v\<lparr>data_off := data_off v - len, seg_len := seg_len v + len,
                   pkt_bytes := (pkt_bytes v + len) mod 4294967296\<rparr>)" by blast
    from dpdk_mbuf.adj_view(1) [OF d v1 assms(3)] again a le show ?thesis by auto
  qed
  show ?thesis
    using 1 2 dpdk_mbuf.append_view(2) [OF d assms(2,3)] dpdk_mbuf.prepend_view(2) [OF d assms(2,3)]
    by (simp add: lens)
qed

theorem append_trim_prepend_adj_witness:
  "\<exists>s w1 w2. Mbuf_append sim_ffi (Mbuf 1) 14 sim_one = (Some (s, 14), w1)
     \<and> Mbuf_trim sim_ffi (Mbuf 1) 14 w1 = (True, w2) \<and> sim_view w2 1 = Some (sim_cell 1 [])"
proof -
  have "Mbuf_tailroom sim_ffi sim_one (Mbuf 1) = 2048"
    unfolding nic.lens(4) [OF sim_one_view] by (simp add: sim_cell_def view_tail_def)
  then show ?thesis
    using append_trim_prepend_adj [OF sim_mbuf_laws sim_one_view, of 14] by simp
qed

end
