(* ===== verification/Api_Error.thy ===== *)
theory Api_Error
  imports Net_Prelude
begin

section \<open>Error codes (api/error.rs)\<close>

text \<open>
  A DPDK call reports failure by a negative return value; the wrappers then read \<open>rte_errno\<close>. The
  variable is per thread and belongs to DPDK, and \<open>Errno::from_raw\<close> is the \<open>nix\<close> crate's: both are
  fields of \<open>err_ffi\<close>, which the records of the other DPDK functions extend.
\<close>

type_synonym errno = i32

definition EINVAL :: errno where
  "EINVAL = 22"

definition EALREADY :: errno where
  "EALREADY = 114"

record 'w err_ffi =
  rust_get_rte_errno :: "'w \<Rightarrow> i32"
  nix_from_raw :: "i32 \<Rightarrow> errno"

definition rte_errno :: "('w, 'z) err_ffi_scheme \<Rightarrow> 'w \<Rightarrow> errno" where
  "rte_errno f w = nix_from_raw f (rust_get_rte_errno f w)"

definition check_rte_success :: "('w, 'z) err_ffi_scheme \<Rightarrow> i32 \<Rightarrow> 'w \<Rightarrow> errno + unit" where
  "check_rte_success f ret w = (if sint ret < 0 then Inl (rte_errno f w) else Inr ())"

lemma check_rte_success_Inr [simp]: "check_rte_success f ret w = Inr u \<longleftrightarrow> 0 \<le> sint ret"
  by (auto simp: check_rte_success_def)

lemma check_rte_success_Inl [simp]:
  "check_rte_success f ret w = Inl e \<longleftrightarrow> sint ret < 0 \<and> e = rte_errno f w"
  by (auto simp: check_rte_success_def)

text \<open>The code that failed plays no part in the error: only \<open>rte_errno\<close> does.\<close>

lemma check_rte_success_ignores_code:
  "sint r < 0 \<Longrightarrow> sint s < 0 \<Longrightarrow> check_rte_success f r w = check_rte_success f s w"
  by (simp add: check_rte_success_def)

text \<open>\<open>CString::new\<close>: a name with a NUL byte is refused.\<close>

definition CString_new :: "u8 list \<Rightarrow> u8 list option" where
  "CString_new s = (if 0 \<in> set s then None else Some s)"

end
