(* ===== verification/Mem_Pool.thy ===== *)
theory Mem_Pool
  imports Mbuf_Buf Api_Error
begin

section \<open>Memory pools (api/rte/pktmbuf.rs)\<close>

text \<open>
  \<open>MemPool\<close> owns a DPDK pool, \<open>MemPoolRef\<close> (from \<open>MemPool::lookup\<close>) only refers to one. Creation,
  lookup and release go to the fields of \<open>pool_ffi\<close>; the allocation loop \<open>fill_batch\<close> is the client of
  \<open>packet_store\<close> proved here.
\<close>

record mem_pool_config =
  num_mbufs :: u32
  cache_size :: u32
  priv_size :: u16
  data_room_size :: u16
  pool_socket_id :: i32

record 'w pool_ffi = "'w err_ffi" +
  rust_pktmbuf_data_room_size :: "'w \<Rightarrow> ptr \<Rightarrow> u16"
  rte_pktmbuf_pool_create :: "u8 list \<Rightarrow> u32 \<Rightarrow> u32 \<Rightarrow> u16 \<Rightarrow> u16 \<Rightarrow> i32 \<Rightarrow> 'w \<Rightarrow> ptr \<times> 'w"
  rte_mempool_lookup :: "u8 list \<Rightarrow> 'w \<Rightarrow> ptr"
  rte_mempool_avail_count :: "'w \<Rightarrow> ptr \<Rightarrow> u32"
  rte_mempool_free :: "ptr \<Rightarrow> 'w \<Rightarrow> 'w"

datatype mem_pool = MemPool (mem_pool_inner: ptr)

datatype mem_pool_ref = MemPoolRef (mem_pool_ref_inner: ptr)

text \<open>The two sizes are constants of the generated bindings (\<open>u32\<close>, cast to \<open>u16\<close> and added).\<close>

definition MemPoolConfig_default :: "u32 \<Rightarrow> u32 \<Rightarrow> mem_pool_config" where
  "MemPoolConfig_default dataroom headroom =
     \<lparr>num_mbufs = 8191, cache_size = 256, priv_size = 0,
      data_room_size = ucast dataroom + ucast headroom, pool_socket_id = - 1\<rparr>"

definition MemPoolConfig_num_mbufs :: "mem_pool_config \<Rightarrow> u32 \<Rightarrow> mem_pool_config" where
  "MemPoolConfig_num_mbufs c n = c\<lparr>num_mbufs := n\<rparr>"

definition MemPoolConfig_cache_size :: "mem_pool_config \<Rightarrow> u32 \<Rightarrow> mem_pool_config" where
  "MemPoolConfig_cache_size c n = c\<lparr>cache_size := n\<rparr>"

definition MemPoolConfig_priv_size :: "mem_pool_config \<Rightarrow> u16 \<Rightarrow> mem_pool_config" where
  "MemPoolConfig_priv_size c n = c\<lparr>priv_size := n\<rparr>"

definition MemPoolConfig_data_room_size :: "mem_pool_config \<Rightarrow> u16 \<Rightarrow> mem_pool_config" where
  "MemPoolConfig_data_room_size c n = c\<lparr>data_room_size := n\<rparr>"

definition MemPoolConfig_socket_id :: "mem_pool_config \<Rightarrow> i32 \<Rightarrow> mem_pool_config" where
  "MemPoolConfig_socket_id c i = c\<lparr>pool_socket_id := i\<rparr>"

definition MemPool_create ::
  "('w, 'z) pool_ffi_scheme \<Rightarrow> u8 list \<Rightarrow> mem_pool_config \<Rightarrow> 'w \<Rightarrow> (errno + mem_pool) \<times> 'w" where
  "MemPool_create f name c w =
     (case CString_new name of
        None \<Rightarrow> (Inl EINVAL, w)
      | Some c_name \<Rightarrow>
          (case rte_pktmbuf_pool_create f c_name (num_mbufs c) (cache_size c) (priv_size c)
                  (data_room_size c) (pool_socket_id c) w of
             (p, w') \<Rightarrow> if p = null_ptr then (Inl (rte_errno f w'), w') else (Inr (MemPool p), w')))"

definition MemPool_create_default ::
  "('w, 'z) pool_ffi_scheme \<Rightarrow> u32 \<Rightarrow> u32 \<Rightarrow> u8 list \<Rightarrow> u32 \<Rightarrow> 'w \<Rightarrow> (errno + mem_pool) \<times> 'w" where
  "MemPool_create_default f dataroom headroom name n w =
     MemPool_create f name ((MemPoolConfig_default dataroom headroom)\<lparr>num_mbufs := n\<rparr>) w"

definition MemPool_lookup ::
  "('w, 'z) pool_ffi_scheme \<Rightarrow> u8 list \<Rightarrow> 'w \<Rightarrow> errno + mem_pool_ref" where
  "MemPool_lookup f name w =
     (case CString_new name of
        None \<Rightarrow> Inl EINVAL
      | Some c_name \<Rightarrow>
          (let p = rte_mempool_lookup f c_name w
           in if p = null_ptr then Inl (rte_errno f w) else Inr (MemPoolRef p)))"

definition MemPool_avail_count :: "('w, 'z) pool_ffi_scheme \<Rightarrow> 'w \<Rightarrow> mem_pool \<Rightarrow> u32" where
  "MemPool_avail_count f w mp = rte_mempool_avail_count f w (mem_pool_inner mp)"

definition MemPool_data_room_size :: "('w, 'z) pool_ffi_scheme \<Rightarrow> 'w \<Rightarrow> mem_pool \<Rightarrow> u16" where
  "MemPool_data_room_size f w mp = rust_pktmbuf_data_room_size f w (mem_pool_inner mp)"

definition MemPool_drop :: "('w, 'z) pool_ffi_scheme \<Rightarrow> mem_pool \<Rightarrow> 'w \<Rightarrow> 'w" where
  "MemPool_drop f mp w = rte_mempool_free f (mem_pool_inner mp) w"

definition MemPool_try_alloc :: "('w, 'z) mbuf_ffi_scheme \<Rightarrow> mem_pool \<Rightarrow> 'w \<Rightarrow> mbuf option \<times> 'w" where
  "MemPool_try_alloc f mp w = Mbuf_alloc f (mem_pool_inner mp) w"

definition MemPoolRef_try_alloc ::
  "('w, 'z) mbuf_ffi_scheme \<Rightarrow> mem_pool_ref \<Rightarrow> 'w \<Rightarrow> mbuf option \<times> 'w" where
  "MemPoolRef_try_alloc f mp w =
     (case rust_pktmbuf_alloc f (mem_pool_ref_inner mp) w of (p, w') \<Rightarrow> (Mbuf_from_raw p, w'))"

text \<open>The loops of \<open>fill_batch\<close>: they end because every turn but the last lengthens the batch.\<close>

function fill_loop ::
  "('w, 'z) mbuf_ffi_scheme \<Rightarrow> mem_pool \<Rightarrow> nat \<Rightarrow> mbuf list \<Rightarrow> nat \<Rightarrow> 'w \<Rightarrow> nat \<times> mbuf list \<times> 'w"
where
  "fill_loop f mp cap batch count w =
     (if length batch < cap
      then (case MemPool_try_alloc f mp w of
              (Some mbuf, w') \<Rightarrow> fill_loop f mp cap (batch @ [mbuf]) (count + 1) w'
            | (None, w') \<Rightarrow> (count, batch, w'))
      else (count, batch, w))"
  by pat_completeness auto
termination
  by (relation "measure (\<lambda>(f, mp, cap, batch, count, w). cap - length batch)") auto

function fill_loop_ref ::
  "('w, 'z) mbuf_ffi_scheme \<Rightarrow> mem_pool_ref \<Rightarrow> nat \<Rightarrow> mbuf list \<Rightarrow> nat \<Rightarrow> 'w \<Rightarrow> nat \<times> mbuf list \<times> 'w"
where
  "fill_loop_ref f mp cap batch count w =
     (if length batch < cap
      then (case MemPoolRef_try_alloc f mp w of
              (Some mbuf, w') \<Rightarrow> fill_loop_ref f mp cap (batch @ [mbuf]) (count + 1) w'
            | (None, w') \<Rightarrow> (count, batch, w'))
      else (count, batch, w))"
  by pat_completeness auto
termination
  by (relation "measure (\<lambda>(f, mp, cap, batch, count, w). cap - length batch)") auto

declare fill_loop.simps [simp del] fill_loop_ref.simps [simp del]

definition MemPool_fill_batch ::
  "('w, 'z) mbuf_ffi_scheme \<Rightarrow> mem_pool \<Rightarrow> nat \<Rightarrow> mbuf list \<Rightarrow> 'w \<Rightarrow> nat \<times> mbuf list \<times> 'w" where
  "MemPool_fill_batch f mp cap batch w = fill_loop f mp cap batch 0 w"

definition MemPoolRef_fill_batch ::
  "('w, 'z) mbuf_ffi_scheme \<Rightarrow> mem_pool_ref \<Rightarrow> nat \<Rightarrow> mbuf list \<Rightarrow> 'w \<Rightarrow> nat \<times> mbuf list \<times> 'w" where
  "MemPoolRef_fill_batch f mp cap batch w = fill_loop_ref f mp cap batch 0 w"

subsection \<open>Allocation loops\<close>

lemma fill_loop_steps:
  "length batch < cap \<Longrightarrow> Mbuf_alloc f p w = (Some m, w')
     \<Longrightarrow> fill_loop f (MemPool p) cap batch c w = fill_loop f (MemPool p) cap (batch @ [m]) (c + 1) w'"
  "length batch < cap \<Longrightarrow> Mbuf_alloc f p w = (None, w') \<Longrightarrow> fill_loop f (MemPool p) cap batch c w = (c, batch, w')"
  "cap \<le> length batch \<Longrightarrow> fill_loop f mp cap batch c w = (c, batch, w)"
  by (simp_all add: fill_loop.simps [of f _ cap batch c w] MemPool_try_alloc_def)

lemma fill_loop_ref_eq:
  "fill_loop_ref f (MemPoolRef p) cap batch count w = fill_loop f (MemPool p) cap batch count w"
proof (induction f "MemPool p" cap batch count w rule: fill_loop.induct)
  case (1 f cap batch count w)
  then show ?case
    by (auto simp: fill_loop.simps [of f "MemPool p" cap batch count w]
        fill_loop_ref.simps [of f "MemPoolRef p" cap batch count w]
        MemPool_try_alloc_def MemPoolRef_try_alloc_def Mbuf_alloc_def split: prod.splits option.splits)
qed

lemma fill_loop_shape:
  assumes "fill_loop f mp cap batch count w = (n, batch', w')"
  shows "\<exists>new. batch' = batch @ new \<and> n = count + length new
    \<and> (length batch \<le> cap \<longrightarrow> length batch' \<le> cap)
    \<and> (cap \<le> length batch' \<or> (\<exists>w1. MemPool_try_alloc f mp w1 = (None, w')))"
  using assms
proof (induction f mp cap batch count w rule: fill_loop.induct)
  case (1 f mp cap batch count w)
  note step = fill_loop.simps [of f mp cap batch count w]
  show ?case
  proof (cases "length batch < cap")
    case False
    with "1.prems" show ?thesis by (auto simp: step)
  next
    case True
    obtain r w1 where a: "MemPool_try_alloc f mp w = (r, w1)" by fastforce
    show ?thesis
    proof (cases r)
      case None
      with "1.prems" True a show ?thesis by (auto simp: step)
    next
      case (Some m)
      with "1.prems" True a have "fill_loop f mp cap (batch @ [m]) (count + 1) w1 = (n, batch', w')"
        by (simp add: step)
      with "1.IH" [OF True a [symmetric]] Some True show ?thesis by fastforce
    qed
  qed
qed

context dpdk_mbuf
begin

text \<open>What a fill adds was nobody's, is distinct, and is held and empty afterwards.\<close>

lemma fill_loop_owns:
  assumes "fill_loop f mp cap batch count w = (n, batch @ new, w')"
  shows "distinct new \<and> (\<forall>m \<in> set new. \<not> Mbuf_held V w m \<and> Mbuf_held V w' m \<and> Mbuf_data f w' m = [])
    \<and> (\<forall>m. Mbuf_held V w m \<longrightarrow> Mbuf_held V w' m \<and> Mbuf_data f w' m = Mbuf_data f w m)"
  using assms
proof (induction new arbitrary: batch count w)
  case Nil
  note step = fill_loop.simps [of f mp cap batch count w]
  obtain r w1 where a: "Mbuf_alloc f (mem_pool_inner mp) w = (r, w1)" by fastforce
  from Nil have "w' = w \<or> (r = None \<and> w' = w1)"
  proof (cases "length batch < cap")
    case True
    show ?thesis
    proof (cases r)
      case (Some m)
      with Nil True a have "fill_loop f mp cap (batch @ [m]) (count + 1) w1 = (n, batch, w')"
        by (simp add: step MemPool_try_alloc_def)
      from fill_loop_shape [OF this] show ?thesis by auto
    qed (use Nil True a in \<open>auto simp: step MemPool_try_alloc_def\<close>)
  qed (simp add: step)
  then show ?case using store.alloc_frame [OF a] by auto
next
  case (Cons x new)
  note step = fill_loop.simps [of f mp cap batch count w]
  obtain r w1 where a: "Mbuf_alloc f (mem_pool_inner mp) w = (r, w1)" by fastforce
  from Cons.prems obtain m where r: "r = Some m"
    and fl: "fill_loop f mp cap (batch @ [m]) (count + 1) w1 = (n, batch @ x # new, w')"
    by (cases r; cases "length batch < cap") (auto simp: step MemPool_try_alloc_def a)
  from fill_loop_shape [OF fl] have m: "m = x" by auto
  have fl': "fill_loop f mp cap (batch @ [x]) (count + 1) w1 = (n, (batch @ [x]) @ new, w')"
    using fl m by simp
  note fr = store.alloc_fresh [OF a [unfolded r]]
  note fm = store.alloc_frame [OF a]
  from Cons.IH [OF fl'] fr fm m show ?case by auto
qed

end

text \<open>\<open>create\<close> and \<open>lookup\<close>: a NUL byte in the name is refused before DPDK is asked.\<close>

lemma MemPool_create_cases:
  "MemPool_create f name c w =
     (if 0 \<in> set name then (Inl EINVAL, w)
      else (case rte_pktmbuf_pool_create f name (num_mbufs c) (cache_size c) (priv_size c)
                   (data_room_size c) (pool_socket_id c) w of
              (p, w') \<Rightarrow> (if p = null_ptr then Inl (rte_errno f w') else Inr (MemPool p), w')))"
  by (auto simp: MemPool_create_def CString_new_def split: prod.splits)

lemma MemPool_lookup_not_null: "MemPool_lookup f name w = Inr r \<Longrightarrow> mem_pool_ref_inner r \<noteq> null_ptr"
  by (auto simp: MemPool_lookup_def CString_new_def Let_def split: if_splits)

subsection \<open>Properties\<close>

text \<open>
  C23. \<open>MemPool::fill_batch\<close> returns. It appends to the batch buffers that nobody held, distinct and
  empty, never beyond the capacity, and its result is their number; it stops only when the batch is
  full or an allocation has just failed; buffers held before keep their contents. \<open>MemPoolRef\<close>, which
  has a copy of the loop, does the same.
\<close>

theorem fill_batch_spec:
  assumes "mbuf_laws f V room" and "length batch \<le> cap"
    and "MemPool_fill_batch f (MemPool p) cap batch w = (n, batch', w')"
  shows "MemPoolRef_fill_batch f (MemPoolRef p) cap batch w = (n, batch', w')
    \<and> (\<exists>new. batch' = batch @ new \<and> n = length new \<and> distinct new
         \<and> (\<forall>m \<in> set new. \<not> Mbuf_held V w m \<and> Mbuf_held V w' m \<and> Mbuf_data f w' m = []))
    \<and> length batch' \<le> cap
    \<and> (length batch' = cap \<or> (\<exists>w1. Mbuf_alloc f p w1 = (None, w')))
    \<and> (\<forall>m. Mbuf_held V w m \<longrightarrow> Mbuf_held V w' m \<and> Mbuf_data f w' m = Mbuf_data f w m)"
proof -
  note fl = assms(3) [unfolded MemPool_fill_batch_def]
  from fill_loop_shape [OF fl] obtain new where new: "batch' = batch @ new" "n = 0 + length new"
    "length batch \<le> cap \<longrightarrow> length batch' \<le> cap"
    "cap \<le> length batch' \<or> (\<exists>w1. MemPool_try_alloc f (MemPool p) w1 = (None, w'))"
    by blast
  then have stop: "length batch' = cap \<or> (\<exists>w1. Mbuf_alloc f p w1 = (None, w'))"
    using assms(2) by (auto simp: MemPool_try_alloc_def)
  have owns: "distinct new \<and> (\<forall>m \<in> set new. \<not> Mbuf_held V w m \<and> Mbuf_held V w' m \<and> Mbuf_data f w' m = [])
    \<and> (\<forall>m. Mbuf_held V w m \<longrightarrow> Mbuf_held V w' m \<and> Mbuf_data f w' m = Mbuf_data f w m)"
    by (rule dpdk_mbuf.fill_loop_owns [OF dpdk_mbuf.intro [OF assms(1)] fl [unfolded new(1)]])
  have ref: "MemPoolRef_fill_batch f (MemPoolRef p) cap batch w = (n, batch', w')"
    using fl by (simp add: MemPoolRef_fill_batch_def fill_loop_ref_eq)
  show ?thesis
    using new(1-3) stop owns ref assms(2) by (intro conjI exI [of _ new]) simp_all
qed

lemma sim_Mbuf_alloc:
  "0 < pool_free w \<Longrightarrow> Mbuf_alloc sim_ffi pool w =
     (Some (Mbuf (Suc (next_ptr w))), snd (sim_alloc pool w))"
  "pool_free w = 0 \<Longrightarrow> Mbuf_alloc sim_ffi pool w = (None, w)"
  "0 < pool_free w \<Longrightarrow> pool_free (snd (sim_alloc pool w)) = pool_free w - 1
     \<and> next_ptr (snd (sim_alloc pool w)) = Suc (next_ptr w)"
  by (simp_all add: Mbuf_alloc_def sim_ffi_def sim_alloc_def Mbuf_from_raw_def)

lemma sim_fill_two:
  "\<exists>w'. MemPool_fill_batch sim_ffi (MemPool 7) 4 [] (sim_start 2 [] 0) = (2, [Mbuf 1, Mbuf 2], w')"
  unfolding MemPool_fill_batch_def
  by (simp add: fill_loop_steps(1) [OF _ sim_Mbuf_alloc(1)] fill_loop_steps(2) [OF _ sim_Mbuf_alloc(2)]
      sim_Mbuf_alloc(3) sim_start_def)

theorem fill_batch_witness:
  "fst (snd (MemPoolRef_fill_batch sim_ffi (MemPoolRef 7) 4 [] (sim_start 2 [] 0))) = [Mbuf 1, Mbuf 2]"
  using fill_batch_spec [OF sim_mbuf_laws, of "[]" 4 7 "sim_start 2 [] 0"] sim_fill_two by fastforce

end
