(* ===== verification/Rxtx_Queue.thy ===== *)
theory Rxtx_Queue
  imports Mbuf_Buf
begin

section \<open>Receive and transmit queues (api/rte/queue.rs)\<close>

text \<open>
  \<open>RxQueue\<close> and \<open>TxQueue\<close> name a queue of a port. \<open>rx\<close> appends a burst to an \<open>ArrayVec\<close>, \<open>tx\<close> hands
  its front to DPDK and forgets what was taken. Locale \<open>dpdk_queue\<close> adds the laws of the two burst
  functions to \<open>dpdk_mbuf\<close> and shows who owns each buffer afterwards.
\<close>

definition MAX_BURST_SIZE :: nat where
  "MAX_BURST_SIZE = 64"

record rx_queue =
  rxq_port_id :: u16
  rxq_queue_id :: u16

record tx_queue =
  txq_port_id :: u16
  txq_queue_id :: u16

definition RxQueue_new :: "u16 \<Rightarrow> u16 \<Rightarrow> rx_queue" where
  "RxQueue_new port queue = \<lparr>rxq_port_id = port, rxq_queue_id = queue\<rparr>"

definition TxQueue_new :: "u16 \<Rightarrow> u16 \<Rightarrow> tx_queue" where
  "TxQueue_new port queue = \<lparr>txq_port_id = port, txq_queue_id = queue\<rparr>"

text \<open>
  The loop of \<open>rx\<close> over the pointers received. A buffer that \<open>try_push\<close> refuses is dropped with the
  discarded result, that is, freed.
\<close>

primrec rx_push ::
  "('w, 'z) mbuf_ffi_scheme \<Rightarrow> nat \<Rightarrow> ptr list \<Rightarrow> mbuf list \<Rightarrow> 'w \<Rightarrow> mbuf list \<times> 'w" where
  "rx_push f cap [] mbufs w = (mbufs, w)"
| "rx_push f cap (p # ps) mbufs w =
     (case Mbuf_from_raw p of
        None \<Rightarrow> rx_push f cap ps mbufs w
      | Some mbuf \<Rightarrow>
          (case try_push cap mbufs mbuf of
             Some mbufs' \<Rightarrow> rx_push f cap ps mbufs' w
           | None \<Rightarrow> rx_push f cap ps mbufs (Mbuf_drop f mbuf w)))"

definition RxQueue_rx ::
  "('w, 'z) queue_ffi_scheme \<Rightarrow> rx_queue \<Rightarrow> nat \<Rightarrow> mbuf list \<Rightarrow> 'w \<Rightarrow> nat \<times> mbuf list \<times> 'w" where
  "RxQueue_rx f q cap mbufs w =
     (let capacity = cap - length mbufs
      in if capacity = 0 then (0, mbufs, w)
         else (let max_pkts = (of_nat (min capacity 65535) :: u16);
                   raw_mbufs = replicate MAX_BURST_SIZE null_ptr;
                   nb_pkts = min max_pkts (of_nat MAX_BURST_SIZE)
               in case rust_eth_rx_burst f (rxq_port_id q) (rxq_queue_id q) raw_mbufs nb_pkts w of
                    (received, raw_mbufs', w1) \<Rightarrow>
                      (case rx_push f cap (take (unat received) raw_mbufs') mbufs w1 of
                         (mbufs', w2) \<Rightarrow> (unat received, mbufs', w2))))"

definition RxQueue_rx_burst ::
  "('w, 'z) queue_ffi_scheme \<Rightarrow> rx_queue \<Rightarrow> nat \<Rightarrow> 'w \<Rightarrow> mbuf list \<times> 'w" where
  "RxQueue_rx_burst f q cap w = (case RxQueue_rx f q cap [] w of (n, mbufs, w') \<Rightarrow> (mbufs, w'))"

text \<open>\<open>for _ in 0..sent { forget(mbufs.remove(0)) }\<close>: \<open>remove\<close> panics on an empty vector.\<close>

primrec forget_front :: "nat \<Rightarrow> 'a list \<Rightarrow> 'a list outcome" where
  "forget_front 0 xs = Done xs"
| "forget_front (Suc n) xs =
     (case xs of [] \<Rightarrow> Panic ''remove: index out of bounds'' | x # xs' \<Rightarrow> forget_front n xs')"

definition TxQueue_tx ::
  "('w, 'z) queue_ffi_scheme \<Rightarrow> tx_queue \<Rightarrow> mbuf list \<Rightarrow> 'w \<Rightarrow> (nat \<times> mbuf list \<times> 'w) outcome" where
  "TxQueue_tx f q mbufs w =
     (if mbufs = [] then Done (0, mbufs, w)
      else (let nb_pkts = (of_nat (min (min (length mbufs) MAX_BURST_SIZE) 65535) :: u16);
                raw_mbufs = slice_write (replicate MAX_BURST_SIZE null_ptr) 0
                              (map Mbuf_as_ptr (take (unat nb_pkts) mbufs))
            in case rust_eth_tx_burst f (txq_port_id q) (txq_queue_id q) raw_mbufs nb_pkts w of
                 (sent, w') \<Rightarrow>
                   outcome_bind (forget_front (unat sent) mbufs) (\<lambda>mbufs'. Done (unat sent, mbufs', w'))))"

definition TxQueue_tx_one ::
  "('w, 'z) queue_ffi_scheme \<Rightarrow> tx_queue \<Rightarrow> mbuf \<Rightarrow> 'w \<Rightarrow> mbuf option \<times> 'w" where
  "TxQueue_tx_one f q mbuf w =
     (case rust_eth_tx_burst f (txq_port_id q) (txq_queue_id q) [Mbuf_as_ptr mbuf] 1 w of
        (sent, w') \<Rightarrow> if sent = 1 then (None, w') else (Some mbuf, w'))"

subsection \<open>The loops\<close>

lemma rx_push_fits:
  assumes "null_ptr \<notin> set ps" and "length mbufs + length ps \<le> cap"
  shows "rx_push f cap ps mbufs w = (mbufs @ map Mbuf ps, w)"
  using assms by (induction ps arbitrary: mbufs) (auto simp: Mbuf_from_raw_def)

lemma forget_front_drop: "n \<le> length xs \<Longrightarrow> forget_front n xs = Done (drop n xs)"
  by (induction n arbitrary: xs) (auto split: list.splits)

lemma forget_front_panics: "length xs < n \<Longrightarrow> is_panic (forget_front n xs)"
  by (induction n arbitrary: xs) (auto split: list.splits)

lemma nb_pkts_rx:
  assumes "0 < k"
  shows "unat (min (of_nat (min k 65535) :: u16) (of_nat MAX_BURST_SIZE)) = min k 64"
proof -
  have "unat (min a b) = min (unat a) (unat b)" for a b :: u16
    by (simp add: min_def word_le_nat_alt)
  then show ?thesis using assms by (simp add: MAX_BURST_SIZE_def)
qed

lemma nb_pkts_tx: "unat (of_nat (min (min n MAX_BURST_SIZE) 65535) :: u16) = min n 64"
  by (simp add: MAX_BURST_SIZE_def)

subsection \<open>Ownership\<close>

locale dpdk_queue = dpdk_mbuf f V room
  for f :: "('w, 'z) queue_ffi_scheme" and V :: "'w view" and room :: "ptr \<Rightarrow> nat" +
  assumes rx_law: "rx_burst_law f V" and tx_law: "tx_burst_law f V"
begin

lemma same_view:
  assumes "V w' (mbuf_inner m) = V w (mbuf_inner m)"
  shows "Mbuf_held V w' m = Mbuf_held V w m"
    "Mbuf_held V w m \<Longrightarrow> Mbuf_data f w' m = Mbuf_data f w m"
  using assms by (cases m; auto simp: Mbuf_held_def data_view)+

lemma rx_owns:
  assumes rx: "RxQueue_rx f q cap mbufs w = (n, mbufs', w')" and len: "length mbufs \<le> cap"
  obtains new where "mbufs' = mbufs @ new" "n = length new" "length new \<le> min 64 (cap - length mbufs)"
    "distinct new" "\<And>m. m \<in> set new \<Longrightarrow> \<not> Mbuf_held V w m \<and> Mbuf_held V w' m"
    "\<And>m. m \<notin> set new \<Longrightarrow> V w' (mbuf_inner m) = V w (mbuf_inner m)"
proof (cases "cap - length mbufs = 0")
  case True
  with rx show thesis by (intro that [of "[]"]) (auto simp: RxQueue_rx_def)
next
  case False
  define nb where "nb = min (of_nat (min (cap - length mbufs) 65535) :: u16) (of_nat MAX_BURST_SIZE)"
  obtain r raw w1 where b: "rust_eth_rx_burst f (rxq_port_id q) (rxq_queue_id q)
      (replicate MAX_BURST_SIZE null_ptr) nb w = (r, raw, w1)" by (metis prod_cases3)
  have nb: "unat nb = min (cap - length mbufs) 64" using False by (simp add: nb_def nb_pkts_rx)
  then have fit: "unat nb \<le> length (replicate MAX_BURST_SIZE null_ptr)" by (simp add: MAX_BURST_SIZE_def)
  let ?ps = "take (unat r) raw"
  note law = rx_burst_lawD [OF rx_law b fit]
  from law(1-3) have r: "unat r \<le> unat nb" "length raw = MAX_BURST_SIZE" "distinct ?ps" by simp_all
  note in_ps = law(4) and out_ps = law(5)
  have l: "length ?ps = unat r" using r nb by (simp add: MAX_BURST_SIZE_def)
  have push: "rx_push f cap ?ps mbufs w1 = (mbufs @ map Mbuf ?ps, w1)"
    using in_ps l r(1) nb len by (intro rx_push_fits) auto
  from rx False push have eq: "n = unat r" "mbufs' = mbufs @ map Mbuf ?ps" "w' = w1"
    by (auto simp: RxQueue_rx_def Let_def b [unfolded nb_def])
  show thesis
  proof (rule that [of "map Mbuf ?ps"])
    show "distinct (map Mbuf ?ps)" using r(3) by (simp add: distinct_map inj_on_def)
    fix m
    show "m \<in> set (map Mbuf ?ps) \<Longrightarrow> \<not> Mbuf_held V w m \<and> Mbuf_held V w' m"
      using in_ps by (auto simp: Mbuf_held_def eq)
    show "m \<notin> set (map Mbuf ?ps) \<Longrightarrow> V w' (mbuf_inner m) = V w (mbuf_inner m)"
      using out_ps [of "mbuf_inner m"] by (cases m) (auto simp: eq)
  qed (use eq l r(1) nb in auto)
qed

lemma tx_owns:
  assumes "length mbufs \<le> 65535"
  obtains n w' where "TxQueue_tx f q mbufs w = Done (n, drop n mbufs, w')" "n \<le> min 64 (length mbufs)"
    "\<And>m. m \<in> set (take n mbufs) \<Longrightarrow> \<not> Mbuf_held V w' m"
    "\<And>m. m \<notin> set (take n mbufs) \<Longrightarrow> V w' (mbuf_inner m) = V w (mbuf_inner m)"
proof (cases "mbufs = []")
  case True
  then show thesis by (intro that [of 0 w]) (auto simp: TxQueue_tx_def)
next
  case False
  define nb where "nb = (of_nat (min (min (length mbufs) MAX_BURST_SIZE) 65535) :: u16)"
  have nb: "unat nb = min (length mbufs) 64" unfolding nb_def by (rule nb_pkts_tx)
  define raw where "raw = slice_write (replicate MAX_BURST_SIZE null_ptr) 0 (map Mbuf_as_ptr (take (unat nb) mbufs))"
  obtain s w1 where b: "rust_eth_tx_burst f (txq_port_id q) (txq_queue_id q) raw nb w = (s, w1)"
    by fastforce
  have len: "unat nb \<le> length raw" using nb by (simp add: raw_def MAX_BURST_SIZE_def)
  note s = tx_burst_lawD(1) [OF tx_law b len] and in_ps = tx_burst_lawD(2) [OF tx_law b len]
    and out_ps = tx_burst_lawD(3) [OF tx_law b len]
  have raw: "take (unat s) raw = map mbuf_inner (take (unat s) mbufs)"
    using s nb by (simp add: raw_def slice_write_def Mbuf_as_ptr_def [abs_def] take_map min_def split: if_splits)
  show thesis
  proof (rule that [of "unat s" w1])
    show "TxQueue_tx f q mbufs w = Done (unat s, drop (unat s) mbufs, w1)"
      using False b s nb by (simp add: TxQueue_tx_def Let_def raw_def nb_def forget_front_drop)
    fix m
    show "m \<in> set (take (unat s) mbufs) \<Longrightarrow> \<not> Mbuf_held V w1 m"
      using in_ps by (auto simp: Mbuf_held_def raw)
    show "m \<notin> set (take (unat s) mbufs) \<Longrightarrow> V w1 (mbuf_inner m) = V w (mbuf_inner m)"
      using out_ps [of "mbuf_inner m"] by (metis (no_types) image_iff list.set_map mbuf.expand raw)
  qed (use s nb in auto)
qed

end

lemma dpdk_queueI:
  "mbuf_laws f V room \<Longrightarrow> rx_burst_law f V \<Longrightarrow> tx_burst_law f V \<Longrightarrow> dpdk_queue f V room"
  by unfold_locales

interpretation nicq: dpdk_queue sim_ffi sim_view "\<lambda>_. sim_room"
  by unfold_locales (rule sim_rx_burst_law sim_tx_burst_law)+

subsection \<open>Properties\<close>



text \<open>
  C22. \<open>TxQueue::tx\<close> never panics. It hands the front of the vector to the NIC, at most 64 packets, and
  removes exactly those the NIC took: they are no longer the application's and are not freed a
  second time; the others stay, in order, with their contents.
\<close>

theorem tx_spec:
  assumes "mbuf_laws f V room" "rx_burst_law f V" "tx_burst_law f V" and "length mbufs \<le> 65535"
    and "distinct mbufs" and "\<forall>m \<in> set mbufs. Mbuf_held V w m"
  shows "\<exists>n w'. TxQueue_tx f q mbufs w = Done (n, drop n mbufs, w') \<and> n \<le> 64 \<and> n \<le> length mbufs
    \<and> (\<forall>m. Mbuf_held V w' m \<longleftrightarrow> Mbuf_held V w m \<and> m \<notin> set (take n mbufs))
    \<and> (\<forall>m \<in> set (drop n mbufs). Mbuf_held V w' m \<and> Mbuf_data f w' m = Mbuf_data f w m)"
proof -
  note d = dpdk_queueI [OF assms(1-3)]
  from dpdk_queue.tx_owns [OF d assms(4), of q w] obtain n w' where tx:
    "TxQueue_tx f q mbufs w = Done (n, drop n mbufs, w')" "n \<le> min 64 (length mbufs)"
    "\<And>m. m \<in> set (take n mbufs) \<Longrightarrow> \<not> Mbuf_held V w' m"
    "\<And>m. m \<notin> set (take n mbufs) \<Longrightarrow> V w' (mbuf_inner m) = V w (mbuf_inner m)" by blast
  have held: "Mbuf_held V w' m \<longleftrightarrow> Mbuf_held V w m \<and> m \<notin> set (take n mbufs)" for m
    using dpdk_queue.same_view(1) [OF d tx(4)] tx(3) by blast
  have "m \<notin> set (take n mbufs)" if "m \<in> set (drop n mbufs)" for m
    using that assms(5) by (metis append_take_drop_id disjoint_iff distinct_append)
  then have "Mbuf_held V w' m \<and> Mbuf_data f w' m = Mbuf_data f w m" if "m \<in> set (drop n mbufs)" for m
    using that held dpdk_queue.same_view(2) [OF d tx(4)] assms(6) by (meson in_set_dropD)
  then show ?thesis using tx(1,2) held by auto
qed

theorem tx_witness:
  "\<exists>n w'. TxQueue_tx sim_ffi (TxQueue_new 0 0) [Mbuf 1] sim_one = Done (n, drop n [Mbuf 1], w')"
  using tx_spec [OF sim_mbuf_laws sim_rx_burst_law sim_tx_burst_law, of "[Mbuf 1]" sim_one "TxQueue_new 0 0"]
  by (auto simp: Mbuf_held_def sim_one_view [unfolded One_nat_def])

end
