(* ===== verification/Arp_Cache.thy ===== *)
theory Arp_Cache
  imports Net_Prelude "HOL-Library.AList"
begin

section \<open>The shared ARP cache (device/arp_cache.rs)\<close>

text \<open>
  Queue 0 writes the cache, the other queues read it. The \<open>HashMap\<close> is an association list with
  distinct keys (its iteration order is a parameter where the code iterates), the atomic version
  counter a 64-bit word. \<open>parse_arp_reply\<close> and \<open>build_arp_reply_for_injection\<close> read and write raw
  Ethernet frames. The last part is the interleaving of the writer with the readers at the grain of
  the atomic accesses, taken one after the other.
\<close>

datatype mac = Mac u8 u8 u8 u8 u8 u8

datatype ipv4 = Ipv4 u8 u8 u8 u8

primrec mac_bytes :: "mac \<Rightarrow> u8 list" where
  "mac_bytes (Mac a b c d e f) = [a, b, c, d, e, f]"

primrec octets :: "ipv4 \<Rightarrow> u8 list" where
  "octets (Ipv4 a b c d) = [a, b, c, d]"

text \<open>A six-byte array filled by \<open>copy_from_slice\<close>.\<close>

definition mac_of_slice :: "u8 list \<Rightarrow> mac" where
  "mac_of_slice bs = Mac (bs ! 0) (bs ! 1) (bs ! 2) (bs ! 3) (bs ! 4) (bs ! 5)"

lemma length_mac_bytes [simp]: "length (mac_bytes m) = 6"
  by (cases m) simp

lemma length_octets [simp]: "length (octets ip) = 4"
  by (cases ip) simp

lemma mac_of_slice_bytes [simp]: "mac_of_slice (mac_bytes m) = m"
  by (cases m) (simp add: mac_of_slice_def)

subsection \<open>The cache\<close>

record arp_cache =
  inner :: "(ipv4 \<times> mac) list"
  version :: usize

definition SharedArpCache_new :: arp_cache where
  "SharedArpCache_new = \<lparr>inner = [], version = 0\<rparr>"

definition SharedArpCache_get :: "arp_cache \<Rightarrow> ipv4 \<Rightarrow> mac option" where
  "SharedArpCache_get c ip = map_of (inner c) ip"

definition SharedArpCache_insert :: "arp_cache \<Rightarrow> ipv4 \<Rightarrow> mac \<Rightarrow> arp_cache" where
  "SharedArpCache_insert c ip m =
     (if map_of (inner c) ip = Some m then c\<lparr>version := version c + 1\<rparr>
      else c\<lparr>inner := AList.update ip m (inner c), version := version c + 1\<rparr>)"

definition SharedArpCache_contains :: "arp_cache \<Rightarrow> ipv4 \<Rightarrow> bool" where
  "SharedArpCache_contains c ip \<longleftrightarrow> map_of (inner c) ip \<noteq> None"

definition SharedArpCache_version :: "arp_cache \<Rightarrow> usize" where
  "SharedArpCache_version c = version c"

definition SharedArpCache_is_empty :: "arp_cache \<Rightarrow> bool" where
  "SharedArpCache_is_empty c \<longleftrightarrow> inner c = []"

definition SharedArpCache_snapshot :: "arp_cache \<Rightarrow> (ipv4 \<times> mac) list" where
  "SharedArpCache_snapshot c = inner c"

definition cache_wf :: "arp_cache \<Rightarrow> bool" where
  "cache_wf c \<longleftrightarrow> distinct (map fst (inner c))"

lemma cache_wf_new [simp]: "cache_wf SharedArpCache_new"
  by (simp add: cache_wf_def SharedArpCache_new_def)

lemma cache_wf_insert [simp]: "cache_wf c \<Longrightarrow> cache_wf (SharedArpCache_insert c ip m)"
  by (simp add: cache_wf_def SharedArpCache_insert_def distinct_update)

lemma get_insert [simp]:
  "SharedArpCache_get (SharedArpCache_insert c ip m) ip' =
     (if ip' = ip then Some m else SharedArpCache_get c ip')"
  by (auto simp: SharedArpCache_get_def SharedArpCache_insert_def update_conv')

lemma version_insert [simp]: "version (SharedArpCache_insert c ip m) = version c + 1"
  by (simp add: SharedArpCache_insert_def)

text \<open>The contract the device relies on: a finite map with a version that moves on every insert.\<close>

locale versioned_map =
  fixes look :: "'c \<Rightarrow> 'k \<Rightarrow> 'v option" and put :: "'c \<Rightarrow> 'k \<Rightarrow> 'v \<Rightarrow> 'c"
    and stamp :: "'c \<Rightarrow> usize" and entries :: "'c \<Rightarrow> ('k \<times> 'v) list" and wf :: "'c \<Rightarrow> bool"
  assumes look_put: "wf c \<Longrightarrow> look (put c k v) k' = (if k' = k then Some v else look c k')"
    and stamp_put: "stamp (put c k v) = stamp c + 1"
    and wf_put: "wf c \<Longrightarrow> wf (put c k v)"
    and entries_distinct: "wf c \<Longrightarrow> distinct (map fst (entries c))"
    and entries_look: "wf c \<Longrightarrow> map_of (entries c) = look c"
begin

definition put_all :: "'c \<Rightarrow> ('k \<times> 'v) list \<Rightarrow> 'c" where
  "put_all c kvs = fold (\<lambda>(k, v) c. put c k v) kvs c"

lemma put_all_simps [simp]:
  "put_all c [] = c" "put_all c ((k, v) # kvs) = put_all (put c k v) kvs"
  by (simp_all add: put_all_def)

lemma put_all_wf: "wf c \<Longrightarrow> wf (put_all c kvs)"
  by (induction kvs arbitrary: c) (auto simp: wf_put)

text \<open>After a run of inserts each key has the value inserted last, and the version counts them.\<close>

lemma put_all_look: "wf c \<Longrightarrow> look (put_all c kvs) k
    = (case map_of (rev kvs) k of None \<Rightarrow> look c k | Some v \<Rightarrow> Some v)"
proof (induction kvs arbitrary: c)
  case (Cons kv kvs)
  obtain k' v' where kv: "kv = (k', v')" by (cases kv)
  from Cons.IH [OF wf_put [OF Cons.prems]] Cons.prems show ?case
    by (auto simp: kv look_put map_add_def split: option.splits)
qed simp

lemma put_all_stamp: "stamp (put_all c kvs) = stamp c + of_nat (length kvs)"
  by (induction kvs arbitrary: c) (auto simp: stamp_put algebra_simps)

lemma stamp_moves:
  assumes "0 < length kvs" and "length kvs < 2 ^ 64"
  shows "stamp (put_all c kvs) \<noteq> stamp c"
proof
  assume "stamp (put_all c kvs) = stamp c"
  then have "(of_nat (length kvs) :: usize) = 0" by (simp add: put_all_stamp)
  then have "length kvs = 0" using of_nat_u64_inj [of "length kvs" 0] assms(2) by simp
  then show False using assms(1) by simp
qed

end

interpretation arp: versioned_map SharedArpCache_get SharedArpCache_insert SharedArpCache_version
  SharedArpCache_snapshot cache_wf
  by unfold_locales
    (simp_all add: SharedArpCache_version_def,
      simp_all add: SharedArpCache_snapshot_def SharedArpCache_get_def cache_wf_def fun_eq_iff)

subsection \<open>Frames\<close>

definition parse_arp_reply :: "u8 list \<Rightarrow> (ipv4 \<times> mac) option" where
  "parse_arp_reply packet =
     (if length packet < 42 then None
      else if packet ! 12 \<noteq> 0x08 \<or> packet ! 13 \<noteq> 0x06 then None
      else if packet ! 20 \<noteq> 0x00 \<or> packet ! 21 \<noteq> 0x02 then None
      else (let sender_mac = mac_of_slice (subslice 22 28 packet);
                sender_ip = Ipv4 (packet ! 28) (packet ! 29) (packet ! 30) (packet ! 31)
            in Some (sender_ip, sender_mac)))"

definition build_arp_reply_for_injection :: "mac \<Rightarrow> ipv4 \<Rightarrow> mac \<Rightarrow> ipv4 \<Rightarrow> u8 list" where
  "build_arp_reply_for_injection our_mac our_ip peer_mac peer_ip =
     (let packet = replicate 42 0;
          packet = slice_write packet 0 (mac_bytes our_mac);
          packet = slice_write packet 6 (mac_bytes peer_mac);
          packet = slice_write packet 12 [0x08, 0x06];
          packet = slice_write packet 14 [0x00, 0x01];
          packet = slice_write packet 16 [0x08, 0x00];
          packet = packet[18 := 6];
          packet = packet[19 := 4];
          packet = slice_write packet 20 [0x00, 0x02];
          packet = slice_write packet 22 (mac_bytes peer_mac);
          packet = slice_write packet 28 (octets peer_ip);
          packet = slice_write packet 32 (mac_bytes our_mac);
          packet = slice_write packet 38 (octets our_ip)
      in packet)"

text \<open>Writing a frame from left to right into a zeroed buffer.\<close>

lemma frame_start: "slice_write (replicate n x) 0 bs = bs @ replicate (n - length bs) x"
  by (simp add: slice_write_def drop_replicate)

lemma frame_write:
  "length a = i \<Longrightarrow> slice_write (a @ replicate n x) i bs = (a @ bs) @ replicate (n - length bs) x"
  by (simp add: slice_write_def drop_replicate)

lemma frame_byte: "length a = i \<Longrightarrow> 0 < n \<Longrightarrow> (a @ replicate n x)[i := v] = (a @ [v]) @ replicate (n - 1) x"
  by (cases n) (auto simp: list_update_append)

text \<open>The frame, byte for byte.\<close>

lemma build_arp_reply_bytes:
  "build_arp_reply_for_injection our_mac our_ip peer_mac peer_ip =
     mac_bytes our_mac @ mac_bytes peer_mac @ [0x08, 0x06, 0x00, 0x01, 0x08, 0x00, 6, 4, 0x00, 0x02]
     @ mac_bytes peer_mac @ octets peer_ip @ mac_bytes our_mac @ octets our_ip"
proof -
  have "build_arp_reply_for_injection our_mac our_ip peer_mac peer_ip =
     (((((((((((mac_bytes our_mac @ mac_bytes peer_mac) @ [0x08, 0x06]) @ [0x00, 0x01]) @ [0x08, 0x00])
       @ [6]) @ [4]) @ [0x00, 0x02]) @ mac_bytes peer_mac) @ octets peer_ip) @ mac_bytes our_mac)
       @ octets our_ip) @ replicate 0 0"
    by (simp add: build_arp_reply_for_injection_def Let_def frame_start frame_write frame_byte
        del: append_assoc replicate_0 append_Nil2 append_is_Nil_conv)
  then show ?thesis by simp
qed

lemma length_build_arp_reply [simp]: "length (build_arp_reply_for_injection m ip pm pip) = 42"
  by (simp add: build_arp_reply_bytes)

lemma parse_build_arp_reply:
  "parse_arp_reply (build_arp_reply_for_injection our_mac our_ip peer_mac peer_ip) = Some (peer_ip, peer_mac)"
  by (cases our_mac; cases peer_mac; cases our_ip; cases peer_ip)
    (simp add: build_arp_reply_bytes parse_arp_reply_def subslice_def mac_of_slice_def numeral_eq_Suc)

subsection \<open>One writer, many readers\<close>

text \<open>
  \<open>insert\<close> runs on queue 0 in up to three atomic accesses (load, store of the new map, increment of
  the version), \<open>inject_from_shared_cache\<close> on another queue in two (load of the version, load of the
  map); it ends by recording the version, or gives up. \<open>injected\<close> remembers the map a reader injected
  completely last, \<open>history\<close> the map after each insert.
\<close>

datatype writer_pc = W_Idle | W_Loaded ipv4 mac "(ipv4 \<times> mac) list" | W_Stored

datatype reader_pc = R_Idle | R_Version usize | R_Snapshot usize "(ipv4 \<times> mac) list"

record spmc =
  shared :: arp_cache
  writer :: writer_pc
  reader :: "nat \<Rightarrow> reader_pc"
  last_seen :: "nat \<Rightarrow> usize"
  injected :: "nat \<Rightarrow> (ipv4 \<times> mac) list"
  history :: "(ipv4 \<times> mac) list list"

definition spmc_start :: spmc where
  "spmc_start = \<lparr>shared = SharedArpCache_new, writer = W_Idle, reader = (\<lambda>_. R_Idle),
     last_seen = (\<lambda>_. 0), injected = (\<lambda>_. []), history = [[]]\<rparr>"

inductive spmc_step :: "spmc \<Rightarrow> spmc \<Rightarrow> bool" where
  insert_load: "writer s = W_Idle \<Longrightarrow> spmc_step s (s\<lparr>writer := W_Loaded ip m (inner (shared s))\<rparr>)"
| insert_same: "writer s = W_Loaded ip m cur \<Longrightarrow> map_of cur ip = Some m \<Longrightarrow>
    spmc_step s (s\<lparr>shared := (shared s)\<lparr>version := version (shared s) + 1\<rparr>, writer := W_Idle,
                  history := history s @ [inner (shared s)]\<rparr>)"
| insert_store: "writer s = W_Loaded ip m cur \<Longrightarrow> map_of cur ip \<noteq> Some m \<Longrightarrow>
    spmc_step s (s\<lparr>shared := (shared s)\<lparr>inner := AList.update ip m cur\<rparr>, writer := W_Stored,
                  history := history s @ [AList.update ip m cur]\<rparr>)"
| insert_bump: "writer s = W_Stored \<Longrightarrow>
    spmc_step s (s\<lparr>shared := (shared s)\<lparr>version := version (shared s) + 1\<rparr>, writer := W_Idle\<rparr>)"
| inject_version: "reader s i = R_Idle \<Longrightarrow> version (shared s) \<noteq> last_seen s i \<Longrightarrow>
    spmc_step s (s\<lparr>reader := (reader s)(i := R_Version (version (shared s)))\<rparr>)"
| inject_snapshot: "reader s i = R_Version v \<Longrightarrow>
    spmc_step s (s\<lparr>reader := (reader s)(i := R_Snapshot v (inner (shared s)))\<rparr>)"
| inject_done: "reader s i = R_Snapshot v snap \<Longrightarrow>
    spmc_step s (s\<lparr>reader := (reader s)(i := R_Idle), last_seen := (last_seen s)(i := v),
                  injected := (injected s)(i := snap)\<rparr>)"
| inject_fails: "reader s i = R_Snapshot v snap \<Longrightarrow>
    spmc_step s (s\<lparr>reader := (reader s)(i := R_Idle)\<rparr>)"

inductive_cases spmc_stepE: "spmc_step s s'"

text \<open>An insert that no reader interrupts is \<open>SharedArpCache_insert\<close>.\<close>

lemma insert_uninterrupted:
  assumes "writer s = W_Idle"
  shows "\<exists>s'. spmc_step\<^sup>*\<^sup>* s s' \<and> writer s' = W_Idle \<and> shared s' = SharedArpCache_insert (shared s) ip m"
proof -
  let ?s1 = "s\<lparr>writer := W_Loaded ip m (inner (shared s))\<rparr>"
  have 1: "spmc_step s ?s1" by (rule insert_load [OF assms])
  show ?thesis
  proof (cases "map_of (inner (shared s)) ip = Some m")
    case True
    let ?s2 = "?s1\<lparr>shared := (shared s)\<lparr>version := version (shared s) + 1\<rparr>, writer := W_Idle,
      history := history s @ [inner (shared s)]\<rparr>"
    have 2: "spmc_step ?s1 ?s2"
      using insert_same [of ?s1 ip m "inner (shared s)"] True by simp
    have run: "spmc_step\<^sup>*\<^sup>* s ?s2"
      by (rule converse_rtranclp_into_rtranclp [of spmc_step, OF 1], rule r_into_rtranclp [of spmc_step, OF 2])
    show ?thesis
      by (rule exI, rule conjI [OF run]) (simp add: SharedArpCache_insert_def True)
  next
    case False
    let ?s2 = "?s1\<lparr>shared := (shared s)\<lparr>inner := AList.update ip m (inner (shared s))\<rparr>, writer := W_Stored,
      history := history s @ [AList.update ip m (inner (shared s))]\<rparr>"
    have 2: "spmc_step ?s1 ?s2"
      using insert_store [of ?s1 ip m "inner (shared s)"] False by simp
    have 3: "spmc_step ?s2 (?s2\<lparr>shared := (shared ?s2)\<lparr>version := version (shared ?s2) + 1\<rparr>, writer := W_Idle\<rparr>)"
      by (rule insert_bump) simp
    have run: "spmc_step\<^sup>*\<^sup>* s (?s2\<lparr>shared := (shared ?s2)\<lparr>version := version (shared ?s2) + 1\<rparr>, writer := W_Idle\<rparr>)"
      by (rule converse_rtranclp_into_rtranclp [of spmc_step, OF 1], rule converse_rtranclp_into_rtranclp [of spmc_step, OF 2],
          rule r_into_rtranclp [of spmc_step, OF 3])
    show ?thesis
      by (rule exI, rule conjI [OF run]) (simp add: SharedArpCache_insert_def False)
  qed
qed

definition bumps :: "spmc \<Rightarrow> nat" where
  "bumps s = length (history s) - (case writer s of W_Stored \<Rightarrow> 2 | _ \<Rightarrow> 1)"

text \<open>A map at least as new as the version \<open>v\<close> was, among the \<open>c\<close> versions there have been.\<close>

definition as_new_as :: "(ipv4 \<times> mac) list list \<Rightarrow> nat \<Rightarrow> usize \<Rightarrow> (ipv4 \<times> mac) list \<Rightarrow> bool" where
  "as_new_as h c v snap \<longleftrightarrow> (\<exists>k j. v = of_nat k \<and> k \<le> c \<and> k \<le> j \<and> j < length h \<and> h ! j = snap)"

definition was_version :: "nat \<Rightarrow> usize \<Rightarrow> bool" where
  "was_version c v \<longleftrightarrow> (\<exists>k \<le> c. v = of_nat k)"

lemma was_version_mono: "was_version c v \<Longrightarrow> c \<le> c' \<Longrightarrow> was_version c' v"
  unfolding was_version_def using le_trans by blast

lemma was_version_now [simp]: "was_version c (of_nat c)"
  by (auto simp: was_version_def)

definition spmc_inv :: "spmc \<Rightarrow> bool" where
  "spmc_inv s \<longleftrightarrow> history s \<noteq> [] \<and> last (history s) = inner (shared s)
     \<and> (writer s = W_Stored \<longrightarrow> 2 \<le> length (history s))
     \<and> version (shared s) = of_nat (bumps s)
     \<and> (\<forall>ip m cur. writer s = W_Loaded ip m cur \<longrightarrow> cur = inner (shared s))
     \<and> (\<forall>i v. reader s i = R_Version v \<longrightarrow> was_version (bumps s) v)
     \<and> (\<forall>i v snap. reader s i = R_Snapshot v snap \<longrightarrow> as_new_as (history s) (bumps s) v snap)
     \<and> (\<forall>i. as_new_as (history s) (bumps s) (last_seen s i) (injected s i))"

lemma as_new_as_mono:
  assumes "as_new_as h c v snap" and "c \<le> c'"
  shows "as_new_as h c' v snap" "as_new_as (h @ [x]) c' v snap"
  using assms unfolding as_new_as_def by (meson le_trans, auto simp: nth_append)

lemma as_new_as_last:
  assumes "h \<noteq> []" and "k \<le> c" and "c < length h"
  shows "as_new_as h c (of_nat k) (last h)"
  using assms unfolding as_new_as_def
  by (intro exI [of _ k] exI [of _ "length h - 1"]) (auto simp: last_conv_nth)

lemma spmc_inv_start: "spmc_inv spmc_start"
  by (auto simp: spmc_inv_def spmc_start_def SharedArpCache_new_def bumps_def as_new_as_def)

lemma bumps_less: "history s \<noteq> [] \<Longrightarrow> bumps s < length (history s)"
  by (auto simp: bumps_def split: writer_pc.splits)

lemma spmc_inv_step:
  assumes "spmc_step s s'" and inv: "spmc_inv s"
  shows "spmc_inv s'"
  using assms(1)
proof cases
  case (insert_load ip m)
  then have "bumps s' = bumps s" by (simp add: bumps_def)
  with insert_load inv show ?thesis by (auto simp: spmc_inv_def)
next
  case (insert_same ip m cur)
  with inv have b: "bumps s' = Suc (bumps s)" by (auto simp: bumps_def spmc_inv_def neq_Nil_conv)
  have le: "bumps s \<le> Suc (bumps s)" by simp
  from insert_same inv b show ?thesis
    by (auto simp: spmc_inv_def intro: as_new_as_mono(2) [OF _ le] was_version_mono [OF _ le])
next
  case (insert_store ip m cur)
  with inv have b: "bumps s' = bumps s" by (auto simp: bumps_def spmc_inv_def neq_Nil_conv)
  have le: "bumps s \<le> bumps s" by simp
  from insert_store inv b show ?thesis
    by (auto simp: spmc_inv_def Suc_le_eq intro: as_new_as_mono(2) [OF _ le])
next
  case insert_bump
  with inv have b: "bumps s' = Suc (bumps s)" by (auto simp: bumps_def spmc_inv_def)
  have le: "bumps s \<le> Suc (bumps s)" by simp
  from insert_bump inv b show ?thesis
    by (auto simp: spmc_inv_def intro: as_new_as_mono(1) [OF _ le] was_version_mono [OF _ le])
next
  case (inject_version i)
  then have "bumps s' = bumps s" by (simp add: bumps_def)
  with inject_version inv show ?thesis by (auto simp: spmc_inv_def)
next
  case (inject_snapshot i v)
  then have b: "bumps s' = bumps s" by (simp add: bumps_def)
  from inject_snapshot inv obtain k where k: "k \<le> bumps s" "v = of_nat k"
    unfolding spmc_inv_def was_version_def by blast
  have "as_new_as (history s) (bumps s) v (inner (shared s))"
    using as_new_as_last [of "history s" k "bumps s"] k inv bumps_less [of s] by (auto simp: spmc_inv_def)
  with inject_snapshot inv b show ?thesis by (auto simp: spmc_inv_def)
next
  case (inject_done i v snap)
  then have "bumps s' = bumps s" by (simp add: bumps_def)
  with inject_done inv show ?thesis by (auto simp: spmc_inv_def)
next
  case (inject_fails i v snap)
  then have "bumps s' = bumps s" by (simp add: bumps_def)
  with inject_fails inv show ?thesis by (auto simp: spmc_inv_def)
qed

lemma spmc_inv_reachable: "spmc_step\<^sup>*\<^sup>* spmc_start s \<Longrightarrow> spmc_inv s"
  by (induction rule: rtranclp_induct) (auto intro: spmc_inv_start spmc_inv_step)

subsection \<open>Properties\<close>


definition spmc_demo :: spmc where
  "spmc_demo = \<lparr>shared = SharedArpCache_insert SharedArpCache_new (Ipv4 10 0 0 1) (Mac 2 0 0 0 0 1),
     writer = W_Idle, reader = (\<lambda>_. R_Idle)(1 := R_Idle), last_seen = (\<lambda>_. 0)(1 := 1),
     injected = (\<lambda>_. [])(1 := [(Ipv4 10 0 0 1, Mac 2 0 0 0 0 1)]),
     history = [[], [(Ipv4 10 0 0 1, Mac 2 0 0 0 0 1)]]\<rparr>"

lemma spmc_demo_reachable: "spmc_step\<^sup>*\<^sup>* spmc_start spmc_demo"
proof -
  let ?ip = "Ipv4 10 0 0 1" and ?m = "Mac 2 0 0 0 0 1"
  define s1 where "s1 = spmc_start\<lparr>writer := W_Loaded ?ip ?m []\<rparr>"
  define s2 where "s2 = s1\<lparr>shared := \<lparr>inner = [(?ip, ?m)], version = 0\<rparr>, writer := W_Stored,
    history := [[], [(?ip, ?m)]]\<rparr>"
  define s3 where "s3 = s2\<lparr>shared := \<lparr>inner = [(?ip, ?m)], version = 1\<rparr>, writer := W_Idle\<rparr>"
  define s4 where "s4 = s3\<lparr>reader := (\<lambda>_. R_Idle)(1 := R_Version 1)\<rparr>"
  define s5 where "s5 = s4\<lparr>reader := (\<lambda>_. R_Idle)(1 := R_Snapshot 1 [(?ip, ?m)])\<rparr>"
  note defs = s1_def s2_def s3_def s4_def s5_def spmc_start_def SharedArpCache_new_def
  have "spmc_step spmc_start s1" using insert_load [of spmc_start ?ip ?m] by (simp add: defs)
  moreover have "spmc_step s1 s2" using insert_store [of s1 ?ip ?m "[]"] by (simp add: defs)
  moreover have "spmc_step s2 s3" using insert_bump [of s2] by (simp add: defs)
  moreover have "spmc_step s3 s4" using inject_version [of s3 1] by (simp add: defs)
  moreover have "spmc_step s4 s5" using inject_snapshot [of s4 1 1] by (simp add: defs)
  moreover have "spmc_step s5 spmc_demo"
    using inject_done [of s5 1 1 "[(?ip, ?m)]"] by (simp add: defs spmc_demo_def SharedArpCache_insert_def)
  ultimately show ?thesis by (meson rtranclp.rtrancl_into_rtrancl rtranclp.rtrancl_refl)
qed


text \<open>
  C24. Injected ARP replies are well formed and are read back. A frame that
  \<open>build_arp_reply_for_injection\<close> makes has 42 bytes, is addressed to our MAC and carries our IP as its
  target, and \<open>parse_arp_reply\<close> returns the peer it was made for. Conversely \<open>parse_arp_reply\<close> accepts a
  frame only when it is long enough, has the ARP ethertype and operation 2, and returns the sender
  fields at their offsets.
\<close>

theorem arp_reply_roundtrip:
  "(let frame = build_arp_reply_for_injection our_mac our_ip peer_mac peer_ip
    in length frame = 42 \<and> subslice 0 6 frame = mac_bytes our_mac \<and> subslice 38 42 frame = octets our_ip
       \<and> parse_arp_reply frame = Some (peer_ip, peer_mac))
   \<and> (parse_arp_reply packet = Some (ip, m) \<longrightarrow>
        42 \<le> length packet \<and> subslice 12 14 packet = [0x08, 0x06] \<and> subslice 20 22 packet = [0, 2]
        \<and> mac_bytes m = subslice 22 28 packet \<and> octets ip = subslice 28 32 packet)"
proof -
  have sub2: "subslice i (i + 2) packet = [packet ! i, packet ! (i + 1)]" if "i + 2 \<le> length packet" for i
    using that by (auto simp: subslice_def list_eq_iff_nth_eq less_Suc_eq numeral_2_eq_2)
  have sub4: "subslice i (i + 4) packet = map (\<lambda>k. packet ! (i + k)) [0..<4]" if "i + 4 \<le> length packet" for i
    using that by (auto simp: subslice_def list_eq_iff_nth_eq)
  have sub6: "subslice i (i + 6) packet = map (\<lambda>k. packet ! (i + k)) [0..<6]" if "i + 6 \<le> length packet" for i
    using that by (auto simp: subslice_def list_eq_iff_nth_eq)
  have parsed: "42 \<le> length packet \<and> subslice 12 14 packet = [0x08, 0x06] \<and> subslice 20 22 packet = [0, 2]
        \<and> mac_bytes m = subslice 22 28 packet \<and> octets ip = subslice 28 32 packet"
    if "parse_arp_reply packet = Some (ip, m)"
    using that sub2 [of 12] sub2 [of 20] sub6 [of 22] sub4 [of 28]
    by (auto simp: parse_arp_reply_def Let_def mac_of_slice_def upt_rec split: if_splits)
  have "subslice 0 6 (mac_bytes our_mac @ xs) = mac_bytes our_mac" for xs
    by (simp add: subslice_def)
  moreover have "subslice 38 42 (build_arp_reply_for_injection our_mac our_ip peer_mac peer_ip) = octets our_ip"
    by (simp add: build_arp_reply_bytes subslice_def)
  ultimately show ?thesis
    using parsed by (auto simp: Let_def parse_build_arp_reply) (simp add: build_arp_reply_bytes)
qed

theorem arp_reply_roundtrip_witness:
  "parse_arp_reply (build_arp_reply_for_injection (Mac 2 0 0 0 0 5) (Ipv4 10 0 0 5) (Mac 2 0 0 0 0 1)
     (Ipv4 10 0 0 1)) = Some (Ipv4 10 0 0 1, Mac 2 0 0 0 0 1)
   \<and> octets (Ipv4 10 0 0 1) = subslice 28 32 (build_arp_reply_for_injection (Mac 2 0 0 0 0 5)
     (Ipv4 10 0 0 5) (Mac 2 0 0 0 0 1) (Ipv4 10 0 0 1))"
  using arp_reply_roundtrip [of "Mac 2 0 0 0 0 5" "Ipv4 10 0 0 5" "Mac 2 0 0 0 0 1" "Ipv4 10 0 0 1"
      "build_arp_reply_for_injection (Mac 2 0 0 0 0 5) (Ipv4 10 0 0 5) (Mac 2 0 0 0 0 1) (Ipv4 10 0 0 1)"
      "Ipv4 10 0 0 1" "Mac 2 0 0 0 0 1"]
  unfolding Let_def by blast

end
