(* ===== verification/Dpdk_Device.thy ===== *)
theory Dpdk_Device
  imports Mem_Pool Rxtx_Queue Arp_Cache
begin

section \<open>The polled device (device/dpdk_device.rs)\<close>

text \<open>
  \<open>DpdkDevice\<close> is what smoltcp polls. It keeps a batch of received and a batch of outgoing buffers, and
  takes part in the shared ARP cache. The cache is behind an \<open>Arc\<close> that the devices of all queues
  clone: a device holds its address, and the caches themselves are a store \<open>arcs\<close> threaded through the
  operations. A token of smoltcp is the received buffer (\<open>DpdkRxToken\<close>) or the right to call
  \<open>TxToken_consume\<close> on the device (\<open>DpdkTxTokenWithPool\<close> borrows its pool and \<open>tx_batch\<close>). The closures
  smoltcp passes are functions on bytes; the iteration order of the \<open>HashMap\<close> is the parameter \<open>iter\<close>.
\<close>

definition DEFAULT_MBUF_HEADROOM :: nat where
  "DEFAULT_MBUF_HEADROOM = 128"

definition DEFAULT_MBUF_DATA_ROOM_SIZE :: nat where
  "DEFAULT_MBUF_DATA_ROOM_SIZE = 2048 + DEFAULT_MBUF_HEADROOM"

definition MAX_PACKET_OVERHEAD :: nat where
  "MAX_PACKET_OVERHEAD = 14 + 20 + 60"

abbreviation (input) RX_BATCH :: nat where
  "RX_BATCH \<equiv> 64"

abbreviation (input) TX_BATCH :: nat where
  "TX_BATCH \<equiv> 256"

type_synonym arcs = "nat \<Rightarrow> arp_cache"

record dpdk_device =
  rxq :: rx_queue
  txq :: tx_queue
  mempool :: mem_pool
  rx_batch :: "mbuf list"
  tx_batch :: "mbuf list"
  mtu :: nat
  mbuf_capacity :: nat
  queue_id :: u16
  shared_arp_cache :: "nat option"
  our_mac :: "mac option"
  our_ip :: "ipv4 option"
  last_cache_version :: usize

definition DpdkDevice_new ::
  "rx_queue \<Rightarrow> tx_queue \<Rightarrow> mem_pool \<Rightarrow> nat \<Rightarrow> nat \<Rightarrow> dpdk_device outcome" where
  "DpdkDevice_new rx tx mp m cap =
     (if m + MAX_PACKET_OVERHEAD \<le> cap
      then Done \<lparr>rxq = rx, txq = tx, mempool = mp, rx_batch = [], tx_batch = [], mtu = m,
                 mbuf_capacity = cap, queue_id = 0, shared_arp_cache = None, our_mac = None,
                 our_ip = None, last_cache_version = 0\<rparr>
      else Panic ''MTU + max overhead exceeds mbuf capacity'')"

definition with_shared_arp_cache ::
  "dpdk_device \<Rightarrow> u16 \<Rightarrow> nat \<Rightarrow> mac \<Rightarrow> ipv4 \<Rightarrow> dpdk_device" where
  "with_shared_arp_cache d q cache m ip =
     d\<lparr>queue_id := q, shared_arp_cache := Some cache, our_mac := Some m, our_ip := Some ip\<rparr>"

definition flush_tx ::
  "('w, 'z) queue_ffi_scheme \<Rightarrow> dpdk_device \<Rightarrow> 'w \<Rightarrow> (dpdk_device \<times> 'w) outcome" where
  "flush_tx f d w =
     (if tx_batch d \<noteq> []
      then outcome_bind (TxQueue_tx f (txq d) (tx_batch d) w)
             (\<lambda>(n, batch, w'). Done (d\<lparr>tx_batch := batch\<rparr>, w'))
      else Done (d, w))"

primrec scan_arp :: "('w, 'z) mbuf_ffi_scheme \<Rightarrow> 'w \<Rightarrow> mbuf list \<Rightarrow> arp_cache \<Rightarrow> arp_cache" where
  "scan_arp f w [] cache = cache"
| "scan_arp f w (mbuf # mbufs) cache =
     (case parse_arp_reply (Mbuf_data f w mbuf) of
        Some (ip, m) \<Rightarrow> scan_arp f w mbufs (SharedArpCache_insert cache ip m)
      | None \<Rightarrow> scan_arp f w mbufs cache)"

definition poll_rx ::
  "('w, 'z) queue_ffi_scheme \<Rightarrow> dpdk_device \<Rightarrow> arcs \<Rightarrow> 'w \<Rightarrow> (dpdk_device \<times> arcs \<times> 'w) outcome" where
  "poll_rx f d H w =
     outcome_bind (flush_tx f d w) (\<lambda>(d, w).
       if rx_batch d = []
       then (case RxQueue_rx f (rxq d) RX_BATCH (rx_batch d) w of
               (n, batch, w) \<Rightarrow>
                 (let d = d\<lparr>rx_batch := batch\<rparr>
                  in case shared_arp_cache d of
                       None \<Rightarrow> Done (d, H, w)
                     | Some cache \<Rightarrow>
                         if queue_id d = 0
                         then Done (d, H(cache := scan_arp f w (rx_batch d) (H cache)), w)
                         else Done (d, H, w)))
       else Done (d, H, w))"

text \<open>The loop over the snapshot; \<open>False\<close> is the early return. A buffer that cannot be filled is dropped.\<close>

primrec inject_loop ::
  "('w, 'z) mbuf_ffi_scheme \<Rightarrow> mem_pool \<Rightarrow> mac \<Rightarrow> ipv4 \<Rightarrow> (ipv4 \<times> mac) list \<Rightarrow> mbuf list \<Rightarrow> 'w
     \<Rightarrow> bool \<times> mbuf list \<times> 'w" where
  "inject_loop f mp m0 ip0 [] batch w = (True, batch, w)"
| "inject_loop f mp m0 ip0 (e # es) batch w =
     (let arp_packet = build_arp_reply_for_injection m0 ip0 (snd e) (fst e)
      in if length batch < RX_BATCH
         then (case MemPool_try_alloc f mp w of
                 (None, w) \<Rightarrow> (False, batch, w)
               | (Some mbuf, w) \<Rightarrow>
                   (case Mbuf_copy_from_slice f mbuf arp_packet w of
                      (True, w) \<Rightarrow> inject_loop f mp m0 ip0 es (batch @ [mbuf]) w
                    | (False, w) \<Rightarrow> (False, batch, Mbuf_drop f mbuf w)))
         else (False, batch, w))"

type_synonym hash_iter = "(ipv4 \<times> mac) list \<Rightarrow> (ipv4 \<times> mac) list"

definition inject_from_shared_cache ::
  "('w, 'z) mbuf_ffi_scheme \<Rightarrow> hash_iter \<Rightarrow> dpdk_device \<Rightarrow> arcs \<Rightarrow> 'w \<Rightarrow> dpdk_device \<times> 'w" where
  "inject_from_shared_cache f iter d H w =
     (if queue_id d = 0 then (d, w)
      else (case (shared_arp_cache d, our_mac d, our_ip d) of
              (Some cache, Some m0, Some ip0) \<Rightarrow>
                (let current_version = SharedArpCache_version (H cache)
                 in if current_version = last_cache_version d then (d, w)
                    else (let cache_snapshot = SharedArpCache_snapshot (H cache)
                          in case inject_loop f (mempool d) m0 ip0 (iter cache_snapshot) (rx_batch d) w of
                               (True, batch, w) \<Rightarrow>
                                 (d\<lparr>rx_batch := batch, last_cache_version := current_version\<rparr>, w)
                             | (False, batch, w) \<Rightarrow> (d\<lparr>rx_batch := batch\<rparr>, w)))
            | _ \<Rightarrow> (d, w)))"

definition inject_rx_packet ::
  "('w, 'z) mbuf_ffi_scheme \<Rightarrow> dpdk_device \<Rightarrow> u8 list \<Rightarrow> 'w \<Rightarrow> bool \<times> dpdk_device \<times> 'w" where
  "inject_rx_packet f d data w =
     (if length (rx_batch d) \<ge> RX_BATCH then (False, d, w)
      else (case MemPool_try_alloc f (mempool d) w of
              (None, w) \<Rightarrow> (False, d, w)
            | (Some mbuf, w) \<Rightarrow>
                (case Mbuf_copy_from_slice f mbuf data w of
                   (True, w) \<Rightarrow> (True, d\<lparr>rx_batch := rx_batch d @ [mbuf]\<rparr>, w)
                 | (False, w) \<Rightarrow> (False, d, Mbuf_drop f mbuf w))))"

definition receive ::
  "('w, 'z) queue_ffi_scheme \<Rightarrow> hash_iter \<Rightarrow> dpdk_device \<Rightarrow> arcs \<Rightarrow> 'w
     \<Rightarrow> (mbuf option \<times> dpdk_device \<times> arcs \<times> 'w) outcome" where
  "receive f iter d H w =
     outcome_bind (poll_rx f d H w) (\<lambda>(d, H, w).
       case inject_from_shared_cache f iter d H w of
         (d, w) \<Rightarrow>
           (case vec_pop (rx_batch d) of
              Some (mbuf, batch) \<Rightarrow> Done (Some mbuf, d\<lparr>rx_batch := batch\<rparr>, H, w)
            | None \<Rightarrow> Done (None, d, H, w)))"

definition transmit ::
  "('w, 'z) queue_ffi_scheme \<Rightarrow> dpdk_device \<Rightarrow> 'w \<Rightarrow> (bool \<times> dpdk_device \<times> 'w) outcome" where
  "transmit f d w =
     (if length (tx_batch d) < TX_BATCH then Done (True, d, w)
      else outcome_bind (flush_tx f d w) (\<lambda>(d, w).
             if length (tx_batch d) < TX_BATCH then Done (True, d, w) else Done (False, d, w)))"

definition RxToken_consume ::
  "('w, 'z) mbuf_ffi_scheme \<Rightarrow> mbuf \<Rightarrow> (u8 list \<Rightarrow> 'r) \<Rightarrow> 'w \<Rightarrow> 'r \<times> 'w" where
  "RxToken_consume f mbuf g w = (g (Mbuf_data f w mbuf), Mbuf_drop f mbuf w)"

definition TxToken_consume ::
  "('w, 'z) mbuf_ffi_scheme \<Rightarrow> dpdk_device \<Rightarrow> nat \<Rightarrow> (u8 list \<Rightarrow> 'r \<times> u8 list) \<Rightarrow> 'w
     \<Rightarrow> ('r \<times> dpdk_device \<times> 'w) outcome" where
  "TxToken_consume f d len g w =
     (case MemPool_try_alloc f (mempool d) w of
        (Some mbuf, w) \<Rightarrow>
          (let w = Mbuf_extend f mbuf len w
           in case Mbuf_data_mut f mbuf g w of
                (result, w) \<Rightarrow>
                  (case try_push TX_BATCH (tx_batch d) mbuf of
                     Some batch \<Rightarrow> Done (result, d\<lparr>tx_batch := batch\<rparr>, w)
                   | None \<Rightarrow> Panic ''tx_batch should have space (checked in transmit())''))
      | (None, w) \<Rightarrow> Done (fst (g (replicate len 0)), d, w))"

datatype medium = Ethernet | Ip

record device_capabilities =
  max_transmission_unit :: nat
  caps_medium :: medium

definition capabilities :: "dpdk_device \<Rightarrow> device_capabilities" where
  "capabilities d = \<lparr>max_transmission_unit = mtu d, caps_medium = Ethernet\<rparr>"

text \<open>The injection runs on queues other than 0, once they have an address and the version has moved.\<close>

lemma inject_cases:
  obtains (skip) "inject_from_shared_cache f iter d H w = (d, w)"
  | (go) cache m0 ip0 where "queue_id d \<noteq> 0" "shared_arp_cache d = Some cache" "our_mac d = Some m0"
      "our_ip d = Some ip0"
      "inject_from_shared_cache f iter d H w =
         (case inject_loop f (mempool d) m0 ip0 (iter (SharedArpCache_snapshot (H cache))) (rx_batch d) w of
            (ok, batch, w) \<Rightarrow>
              (if ok then d\<lparr>rx_batch := batch, last_cache_version := SharedArpCache_version (H cache)\<rparr>
               else d\<lparr>rx_batch := batch\<rparr>, w))"
      "SharedArpCache_version (H cache) \<noteq> last_cache_version d"
proof (cases "queue_id d = 0 \<or> shared_arp_cache d = None \<or> our_mac d = None \<or> our_ip d = None")
  case True
  then show thesis by (intro skip) (auto simp: inject_from_shared_cache_def split: option.splits)
next
  case False
  then obtain cache m0 ip0 where e: "queue_id d \<noteq> 0" "shared_arp_cache d = Some cache"
    "our_mac d = Some m0" "our_ip d = Some ip0" by auto
  show thesis
  proof (cases "SharedArpCache_version (H cache) = last_cache_version d")
    case True
    with e show thesis by (intro skip) (simp add: inject_from_shared_cache_def)
  next
    case False
    with e show thesis
      by (intro go [OF e]) (auto simp: inject_from_shared_cache_def Let_def split: prod.splits bool.splits)
  qed
qed

subsection \<open>Who owns the buffers\<close>

text \<open>
  \<open>dev_owns V X w d\<close>: the batches are within their bounds and hold distinct buffers that are not in
  \<open>X\<close>, and a buffer is out of the pool exactly when it is in a batch or in \<open>X\<close>, the buffers other
  parts of the program hold. So nothing is leaked and nothing can be freed twice.
\<close>

definition dev_owns :: "'w view \<Rightarrow> mbuf set \<Rightarrow> 'w \<Rightarrow> dpdk_device \<Rightarrow> bool" where
  "dev_owns V X w d \<longleftrightarrow> length (rx_batch d) \<le> RX_BATCH \<and> length (tx_batch d) \<le> TX_BATCH
     \<and> distinct (rx_batch d @ tx_batch d)
     \<and> X \<inter> set (rx_batch d @ tx_batch d) = {}
     \<and> (\<forall>m. Mbuf_held V w m \<longleftrightarrow> m \<in> X \<or> m \<in> set (rx_batch d @ tx_batch d))"

lemma dev_ownsD:
  assumes "dev_owns V X w d"
  shows "length (rx_batch d) \<le> RX_BATCH" "length (tx_batch d) \<le> TX_BATCH"
    "distinct (rx_batch d)" "distinct (tx_batch d)" "set (rx_batch d) \<inter> set (tx_batch d) = {}"
    "X \<inter> set (rx_batch d) = {}" "X \<inter> set (tx_batch d) = {}"
    "Mbuf_held V w m \<longleftrightarrow> m \<in> X \<or> m \<in> set (rx_batch d) \<or> m \<in> set (tx_batch d)"
  using assms by (auto simp: dev_owns_def)

text \<open>What else stays the same through an operation: the configuration, and the contents of buffers.\<close>

definition same_config :: "dpdk_device \<Rightarrow> dpdk_device \<Rightarrow> bool" where
  "same_config d d' \<longleftrightarrow> rxq d' = rxq d \<and> txq d' = txq d \<and> mempool d' = mempool d \<and> mtu d' = mtu d
     \<and> mbuf_capacity d' = mbuf_capacity d \<and> queue_id d' = queue_id d
     \<and> shared_arp_cache d' = shared_arp_cache d \<and> our_mac d' = our_mac d \<and> our_ip d' = our_ip d"

lemma same_config_refl [simp]: "same_config d d"
  by (simp add: same_config_def)

lemma same_config_trans: "same_config d d' \<Longrightarrow> same_config d' d'' \<Longrightarrow> same_config d d''"
  by (simp add: same_config_def)

context dpdk_queue
begin

definition stable :: "mbuf set \<Rightarrow> 'w \<Rightarrow> 'w \<Rightarrow> bool" where
  "stable S w w' \<longleftrightarrow> (\<forall>m \<in> S. Mbuf_held V w m \<longrightarrow> Mbuf_held V w' m \<and> Mbuf_data f w' m = Mbuf_data f w m)"

lemma stable_refl [simp]: "stable S w w"
  by (simp add: stable_def)

lemma stable_trans: "stable S w w' \<Longrightarrow> stable S w' w'' \<Longrightarrow> stable S w w''"
  by (simp add: stable_def)

lemma stable_mono: "stable T w w' \<Longrightarrow> S \<subseteq> T \<Longrightarrow> stable S w w'"
  by (auto simp: stable_def)

lemma stable_alloc: "Mbuf_alloc f p w = (r, w') \<Longrightarrow> stable S w w'"
  using store.alloc_frame [of p w r w'] by (auto simp: stable_def)

lemma stable_copy:
  assumes "Mbuf_alloc f p w = (Some b, w1)" and "Mbuf_copy_from_slice f b bs w1 = (True, w2)"
  shows "stable S w w2"
  using store.alloc_fill(4) [OF assms] by (auto simp: stable_def)

lemma stable_release:
  assumes "Mbuf_alloc f p w = (Some b, w1)" and "Mbuf_copy_from_slice f b bs w1 = (r, w2)"
  shows "stable S w (Mbuf_drop f b w2)"
  using store.alloc_release [OF assms] by (auto simp: stable_def)

lemma flush_tx_owns:
  assumes own: "dev_owns V X w d"
  obtains n w' where "flush_tx f d w = Done (d\<lparr>tx_batch := drop n (tx_batch d)\<rparr>, w')"
    "n \<le> length (tx_batch d)" "dev_owns V X w' (d\<lparr>tx_batch := drop n (tx_batch d)\<rparr>)"
    "stable (- set (take n (tx_batch d))) w w'"
proof (cases "tx_batch d = []")
  case True
  with own show thesis by (intro that [of 0 w]) (auto simp: flush_tx_def dev_owns_def)
next
  case False
  note o = dev_ownsD [OF own]
  have "length (tx_batch d) \<le> 65535" using o(2) by simp
  from tx_owns [OF this, of "txq d" w] obtain n w' where tx:
    "TxQueue_tx f (txq d) (tx_batch d) w = Done (n, drop n (tx_batch d), w')"
    "n \<le> min 64 (length (tx_batch d))"
    "\<And>m. m \<in> set (take n (tx_batch d)) \<Longrightarrow> \<not> Mbuf_held V w' m"
    "\<And>m. m \<notin> set (take n (tx_batch d)) \<Longrightarrow> V w' (mbuf_inner m) = V w (mbuf_inner m)" by blast
  let ?t = "tx_batch d"
  have split: "set ?t = set (take n ?t) \<union> set (drop n ?t)" "set (take n ?t) \<inter> set (drop n ?t) = {}"
    using o(4) by (metis append_take_drop_id set_append, metis append_take_drop_id distinct_append)
  have held: "Mbuf_held V w' m \<longleftrightarrow> Mbuf_held V w m \<and> m \<notin> set (take n ?t)" for m
    using same_view(1) [OF tx(4)] tx(3) by blast
  have "dev_owns V X w' (d\<lparr>tx_batch := drop n ?t\<rparr>)"
    unfolding dev_owns_def using o split held by (auto simp: o(8))
  moreover have "stable (- set (take n ?t)) w w'"
    using held same_view(2) [OF tx(4)] by (auto simp: stable_def)
  ultimately show thesis
    using tx(1,2) False by (intro that [of n w']) (auto simp: flush_tx_def)
qed

lemma poll_rx_owns:
  assumes own: "dev_owns V X w d"
  obtains n new d' H' w' where "poll_rx f d H w = Done (d', H', w')"
    "d' = d\<lparr>rx_batch := new, tx_batch := drop n (tx_batch d)\<rparr>" "rx_batch d \<noteq> [] \<Longrightarrow> new = rx_batch d"
    "dev_owns V X w' d'" "stable (- set (take n (tx_batch d))) w w'"
    "rx_batch d = [] \<Longrightarrow> shared_arp_cache d = Some c \<Longrightarrow> queue_id d = 0
       \<Longrightarrow> H' = H(c := scan_arp f w' new (H c))"
    "rx_batch d \<noteq> [] \<or> shared_arp_cache d = None \<or> queue_id d \<noteq> 0 \<Longrightarrow> H' = H"
proof -
  from flush_tx_owns [OF own] obtain n w1 where fl:
    "flush_tx f d w = Done (d\<lparr>tx_batch := drop n (tx_batch d)\<rparr>, w1)"
    "dev_owns V X w1 (d\<lparr>tx_batch := drop n (tx_batch d)\<rparr>)"
    "stable (- set (take n (tx_batch d))) w w1" by blast
  show thesis
  proof (cases "rx_batch d = []")
    case False
    with fl show thesis by (intro that [where d' = "d\<lparr>tx_batch := drop n (tx_batch d)\<rparr>" and H' = H and w' = w1
          and new = "rx_batch d" and n = n])
      (auto simp: poll_rx_def)
  next
    case True
    obtain k new w2 where rx: "RxQueue_rx f (rxq d) RX_BATCH [] w1 = (k, new, w2)" by (metis prod_cases3)
    from rx_owns [OF rx] obtain new': "length new \<le> 64" "distinct new"
      "\<And>m. m \<in> set new \<Longrightarrow> \<not> Mbuf_held V w1 m \<and> Mbuf_held V w2 m"
      "\<And>m. m \<notin> set new \<Longrightarrow> V w2 (mbuf_inner m) = V w1 (mbuf_inner m)" by auto
    have held: "Mbuf_held V w2 m \<longleftrightarrow> Mbuf_held V w1 m \<or> m \<in> set new" for m
      using new'(3) same_view(1) [OF new'(4)] by blast
    have st: "stable S w1 w2" for S
      using new'(3) same_view(2) [OF new'(4)] held by (auto simp: stable_def)
    note o1 = dev_ownsD [OF fl(2)]
    have own2: "dev_owns V X w2 (d\<lparr>rx_batch := new, tx_batch := drop n (tx_batch d)\<rparr>)"
      unfolding dev_owns_def using o1 new'(1-3) held True by (auto simp: o1(8))
    define H' where "H' = (case shared_arp_cache d of None \<Rightarrow> H
      | Some c \<Rightarrow> if queue_id d = 0 then H(c := scan_arp f w2 new (H c)) else H)"
    show thesis
    proof (rule that [where d' = "d\<lparr>rx_batch := new, tx_batch := drop n (tx_batch d)\<rparr>"
          and H' = H' and w' = w2 and new = new and n = n])
      show "poll_rx f d H w = Done (d\<lparr>rx_batch := new, tx_batch := drop n (tx_batch d)\<rparr>, H', w2)"
        using fl(1) True rx by (auto simp: poll_rx_def Let_def H'_def split: option.splits)
    qed (use True own2 stable_trans [OF fl(3) st] in \<open>auto simp: H'_def split: option.splits\<close>)
  qed
qed

text \<open>
  The injection loop appends, in the order of the snapshot, one frame per entry until it gives up; it
  reports success exactly when every entry was appended.
\<close>

definition adds :: "mac \<Rightarrow> ipv4 \<Rightarrow> (ipv4 \<times> mac) list \<Rightarrow> mbuf list \<Rightarrow> 'w \<Rightarrow> 'w \<Rightarrow> bool" where
  "adds m0 ip0 es new w w' \<longleftrightarrow> distinct new \<and> (\<forall>m \<in> set new. \<not> Mbuf_held V w m)
     \<and> (\<forall>m. Mbuf_held V w' m \<longleftrightarrow> Mbuf_held V w m \<or> m \<in> set new) \<and> stable UNIV w w'
     \<and> length new \<le> length es
     \<and> map (Mbuf_data f w') new
         = map (\<lambda>e. build_arp_reply_for_injection m0 ip0 (snd e) (fst e)) (take (length new) es)"

lemma adds_Cons:
  assumes a: "Mbuf_alloc f p w = (Some b, w1)"
    and c: "Mbuf_copy_from_slice f b (build_arp_reply_for_injection m0 ip0 (snd e) (fst e)) w1 = (True, w2)"
    and rest: "adds m0 ip0 es new w2 w'"
  shows "adds m0 ip0 (e # es) (b # new) w w'"
proof -
  note st = store.alloc_fill [OF a c]
  note r = rest [unfolded adds_def]
  have "b \<notin> set new" using st(2) r by blast
  moreover have "Mbuf_data f w' b = build_arp_reply_for_injection m0 ip0 (snd e) (fst e)"
    using r st(2,3) by (simp add: stable_def)
  moreover have "stable UNIV w w'" using stable_trans [OF stable_copy [OF a c]] r by blast
  ultimately show ?thesis using r st unfolding adds_def by auto
qed

lemma inject_loop_spec:
  assumes "inject_loop f mp m0 ip0 es batch w = (ok, batch', w')" and "length batch \<le> RX_BATCH"
  shows "\<exists>new. batch' = batch @ new \<and> length batch' \<le> RX_BATCH \<and> adds m0 ip0 es new w w'
    \<and> (ok \<longleftrightarrow> length new = length es)"
  using assms
proof (induction es arbitrary: batch w)
  case Nil
  then show ?case by (auto simp: adds_def)
next
  case (Cons e es)
  let ?pkt = "build_arp_reply_for_injection m0 ip0 (snd e) (fst e)"
  have none: ?case if "batch' = batch" "\<not> ok" "stable UNIV w w'" "\<And>m. Mbuf_held V w' m \<longleftrightarrow> Mbuf_held V w m"
    using that Cons.prems by (auto simp: adds_def)
  obtain r w1 where a: "Mbuf_alloc f (mem_pool_inner mp) w = (r, w1)" by fastforce
  show ?case
  proof (cases "length batch < RX_BATCH")
    case False
    with Cons.prems have "batch' = batch" "\<not> ok" "w' = w" by (auto simp: Let_def)
    then show ?thesis using none by simp
  next
    case True
    show ?thesis
    proof (cases r)
      case None
      with Cons.prems True a have eq: "batch' = batch" "\<not> ok" "w' = w1"
        by (auto simp: Let_def MemPool_try_alloc_def)
      have "Mbuf_held V w1 m \<longleftrightarrow> Mbuf_held V w m" for m
        using alloc_view(1) [OF a None] by (simp add: Mbuf_held_def)
      with none eq stable_alloc [OF a] show ?thesis by blast
    next
      case (Some b)
      note a = a [unfolded Some]
      obtain cp w2 where c: "Mbuf_copy_from_slice f b ?pkt w1 = (cp, w2)" by fastforce
      show ?thesis
      proof (cases cp)
        case False
        with Cons.prems True a c have eq: "batch' = batch" "\<not> ok" "w' = Mbuf_drop f b w2"
          by (auto simp: Let_def MemPool_try_alloc_def)
        from none eq stable_release [OF a c] store.alloc_release(1) [OF a c] show ?thesis by blast
      next
        case cp: True
        with Cons.prems True a c have "inject_loop f mp m0 ip0 es (batch @ [b]) w2 = (ok, batch', w')"
          by (auto simp: Let_def MemPool_try_alloc_def)
        from Cons.IH [OF this] True obtain new where "batch' = (batch @ [b]) @ new"
          "length batch' \<le> RX_BATCH" "adds m0 ip0 es new w2 w'" "ok \<longleftrightarrow> length new = length es" by auto
        with adds_Cons [OF a, of m0 ip0 e w2 es] c cp show ?thesis by (intro exI [of _ "b # new"]) auto
      qed
    qed
  qed
qed

lemma inject_owns:
  assumes own: "dev_owns V X w d" and inj: "inject_from_shared_cache f iter d H w = (d', w')"
  obtains new where "rx_batch d' = rx_batch d @ new" "tx_batch d' = tx_batch d" "same_config d d'"
    "dev_owns V X w' d'" "stable UNIV w w'"
proof (cases rule: inject_cases [of f iter d H w])
  case skip
  with inj have "d' = d" "w' = w" by auto
  then show thesis using own by (intro that [of "[]"]) auto
next
  case (go cache m0 ip0)
  obtain ok batch w1 where lp: "inject_loop f (mempool d) m0 ip0
      (iter (SharedArpCache_snapshot (H cache))) (rx_batch d) w = (ok, batch, w1)"
    by (metis prod_cases3)
  with go(5) inj have d': "rx_batch d' = batch" "tx_batch d' = tx_batch d"
    "same_config d d'" "w' = w1" by (auto simp: same_config_def split: if_splits)
  note o = dev_ownsD [OF own]
  from inject_loop_spec [OF lp o(1)] obtain new where new: "batch = rx_batch d @ new"
    "length batch \<le> RX_BATCH" "adds m0 ip0 (iter (SharedArpCache_snapshot (H cache))) new w w'"
    unfolding d'(4) by blast
  then have "dev_owns V X w' d'"
    unfolding dev_owns_def adds_def using o d' by (auto simp: o(8))
  with new d' show thesis by (intro that [of new]) (auto simp: adds_def)
qed

lemma receive_owns:
  assumes own: "dev_owns V X w d"
  obtains r d' H' w' n where "receive f iter d H w = Done (r, d', H', w')"
    "same_config d d'" "tx_batch d' = drop n (tx_batch d)" "n \<le> length (tx_batch d)"
    "stable (- set (take n (tx_batch d))) w w'"
    "case r of None \<Rightarrow> rx_batch d' = [] \<and> dev_owns V X w' d'
      | Some m \<Rightarrow> m \<notin> X \<and> dev_owns V (insert m X) w' d'"
proof -
  from poll_rx_owns [OF own, of H] obtain n new d1 H1 w1 where p: "poll_rx f d H w = Done (d1, H1, w1)"
    "d1 = d\<lparr>rx_batch := new, tx_batch := drop n (tx_batch d)\<rparr>" "dev_owns V X w1 d1"
    "stable (- set (take n (tx_batch d))) w w1" by metis
  obtain d2 w2 where i: "inject_from_shared_cache f iter d1 H1 w1 = (d2, w2)" by fastforce
  from inject_owns [OF p(3) i] obtain new2 where d2: "rx_batch d2 = rx_batch d1 @ new2"
    "tx_batch d2 = tx_batch d1" "same_config d1 d2" "dev_owns V X w2 d2" "stable UNIV w1 w2" by blast
  have cfg: "same_config d d2" using p(2) d2(3) by (simp add: same_config_def)
  have st: "stable (- set (take n (tx_batch d))) w w2"
    using p(4) d2(5) stable_mono stable_trans by blast
  define n' where "n' = min n (length (tx_batch d))"
  have n': "drop n (tx_batch d) = drop n' (tx_batch d)" "take n (tx_batch d) = take n' (tx_batch d)"
    "n' \<le> length (tx_batch d)" by (auto simp: n'_def min_def)
  show thesis
  proof (cases "vec_pop (rx_batch d2)")
    case None
    with p i d2 cfg st n' show thesis by (intro that [of None d2 H1 w2 n']) (auto simp: receive_def)
  next
    case (Some mb)
    obtain m b where mb: "mb = (m, b)" by (cases mb)
    with Some have b: "rx_batch d2 = b @ [m]" by (simp add: vec_pop_eq_Some)
    note o = dev_ownsD [OF d2(4)]
    have "dev_owns V (insert m X) w2 (d2\<lparr>rx_batch := b\<rparr>)" "m \<notin> X"
      using o b unfolding dev_owns_def by (auto simp: o(8))
    with Some p i d2 cfg st n' mb show thesis
      by (intro that [of "Some m" "d2\<lparr>rx_batch := b\<rparr>" H1 w2 n']) (auto simp: receive_def same_config_def)
  qed
qed

lemma RxToken_owns:
  assumes own: "dev_owns V (insert m X) w d" and "m \<notin> X"
  shows "dev_owns V X (snd (RxToken_consume f m g w)) d"
proof -
  note o = dev_ownsD [OF own]
  have h: "Mbuf_held V w m" using o(8) by simp
  show ?thesis
    using o store.release_held [OF h] assms(2) unfolding dev_owns_def RxToken_consume_def
    by (auto simp: o(8))
qed

lemma transmit_owns:
  assumes own: "dev_owns V X w d"
  obtains ok d' w' n where "transmit f d w = Done (ok, d', w')" "same_config d d'"
    "rx_batch d' = rx_batch d" "tx_batch d' = drop n (tx_batch d)" "ok \<longleftrightarrow> length (tx_batch d') < TX_BATCH"
    "dev_owns V X w' d'"
proof (cases "length (tx_batch d) < TX_BATCH")
  case True
  with own show thesis by (intro that [of True d w 0]) (auto simp: transmit_def)
next
  case False
  from flush_tx_owns [OF own] obtain n w' where "flush_tx f d w = Done (d\<lparr>tx_batch := drop n (tx_batch d)\<rparr>, w')"
    "dev_owns V X w' (d\<lparr>tx_batch := drop n (tx_batch d)\<rparr>)" by blast
  with False show thesis
    by (intro that [of "length (drop n (tx_batch d)) < TX_BATCH" "d\<lparr>tx_batch := drop n (tx_batch d)\<rparr>" w' n])
      (auto simp: transmit_def same_config_def)
qed

lemma extend_fill:
  assumes a: "Mbuf_alloc f pool w = (Some m, w1)" and len: "len \<le> pool_limit room pool"
    and g: "\<forall>bs. length bs = len \<longrightarrow> length (snd (g bs)) = len"
  obtains r init w2 where "Mbuf_data_mut f m g (Mbuf_extend f m len w1) = (r, w2)" "length init = len"
    "r = fst (g init)" "Mbuf_data f w2 m = snd (g init)" "only V (mbuf_inner m) w1 w2" "Mbuf_held V w2 m"
proof -
  from alloc_view(2) [OF a refl] obtain p v where m: "m = Mbuf p"
    and v: "V w1 p = Some (view_empty v)" and lv: "length (buf_bytes v) = room pool"
    by (cases m) auto
  have fit: "len \<le> view_tail (view_empty v)" using len lv by (simp add: view_tail_empty pool_limit_def)
  note ex = extend_view [OF v fit]
  define v2 where "v2 = (view_empty v)\<lparr>seg_len := seg_len (view_empty v) + len,
    pkt_bytes := (pkt_bytes (view_empty v) + len) mod 4294967296\<rparr>"
  have seg: "seg_len v2 = len" by (simp add: v2_def)
  have init: "length (view_data v2) = len"
    using length_view_data [OF reads(2) [OF ex(1)]] by (simp add: v2_def)
  obtain r bs where gb: "g (view_data v2) = (r, bs)" by fastforce
  have bs: "length bs = seg_len v2" using g init gb seg by (metis snd_conv)
  from data_mut_view [where g = g, OF ex(1) [folded v2_def] gb bs] obtain w2 where
    dm: "Mbuf_data_mut f (Mbuf p) g (Mbuf_extend f (Mbuf p) len w1) = (r, w2)"
      "only V p (Mbuf_extend f (Mbuf p) len w1) w2"
      "V w2 p = Some (v2\<lparr>buf_bytes := slice_write (buf_bytes v2) (data_off v2) bs\<rparr>)" by blast
  have "view_data (v2\<lparr>buf_bytes := slice_write (buf_bytes v2) (data_off v2) bs\<rparr>) = bs"
    using reads(2) [OF ex(1) [folded v2_def]] by (simp add: view_data_def view_wf_def bs [symmetric])
  then have "Mbuf_data f w2 m = bs" using data_view [OF dm(3)] by (simp add: m)
  with dm init gb ex(2) show thesis
    by (intro that [of r w2 "view_data v2"]) (auto simp: m Mbuf_held_def intro: only_trans)
qed

lemma TxToken_owns:
  assumes own: "dev_owns V X w d" and space: "length (tx_batch d) < TX_BATCH"
    and len: "len \<le> pool_limit room (mem_pool_inner (mempool d))"
    and g: "\<forall>bs. length bs = len \<longrightarrow> length (snd (g bs)) = len"
  obtains (queued) m init w' where
    "TxToken_consume f d len g w = Done (fst (g init), d\<lparr>tx_batch := tx_batch d @ [m]\<rparr>, w')"
    "length init = len" "Mbuf_data f w' m = snd (g init)" "\<not> Mbuf_held V w m"
    "dev_owns V X w' (d\<lparr>tx_batch := tx_batch d @ [m]\<rparr>)" "stable UNIV w w'"
  | (lost) w' where "TxToken_consume f d len g w = Done (fst (g (replicate len 0)), d, w')"
    "Mbuf_alloc f (mem_pool_inner (mempool d)) w = (None, w')" "dev_owns V X w' d" "stable UNIV w w'"
proof -
  obtain r w1 where a: "Mbuf_alloc f (mem_pool_inner (mempool d)) w = (r, w1)" by fastforce
  note o = dev_ownsD [OF own]
  show thesis
  proof (cases r)
    case None
    have "Mbuf_held V w1 m = Mbuf_held V w m" for m
      using alloc_view(1) [OF a None] by (simp add: Mbuf_held_def)
    then have "dev_owns V X w1 d" using own by (simp add: dev_owns_def)
    with a None stable_alloc [OF a] show thesis
      by (intro lost [of w1]) (auto simp: TxToken_consume_def MemPool_try_alloc_def)
  next
    case (Some m)
    note a = a [unfolded Some]
    from extend_fill [OF a len g] obtain r init w2 where e:
      "Mbuf_data_mut f m g (Mbuf_extend f m len w1) = (r, w2)" "length init = len" "r = fst (g init)"
      "Mbuf_data f w2 m = snd (g init)" "only V (mbuf_inner m) w1 w2" "Mbuf_held V w2 m" by blast
    note fr = store.alloc_fresh [OF a]
    have held1: "Mbuf_held V w1 c \<longleftrightarrow> Mbuf_held V w c \<or> c = m" for c
      using store.alloc_only [OF a, of c] store.alloc_frame [OF a, of c] fr by auto
    have held2: "Mbuf_held V w2 c \<longleftrightarrow> Mbuf_held V w1 c" for c
      using only_held [OF e(5), of c] e(6) fr by (simp add: Mbuf_held_def)
    have "stable UNIV w w2"
      using store.alloc_frame [OF a] only_data [OF e(5)] fr by (fastforce simp: stable_def)
    moreover have "dev_owns V X w2 (d\<lparr>tx_batch := tx_batch d @ [m]\<rparr>)"
      using o space fr unfolding dev_owns_def by (auto simp: held2 held1 o(8))
    ultimately show thesis
      using a e fr space by (intro queued [of init m w2]) (auto simp: TxToken_consume_def MemPool_try_alloc_def)
  qed
qed

end

end
