(* ===== verification/Device_Session.thy ===== *)
theory Device_Session
  imports Dpdk_Device
begin

section \<open>What the device guarantees over a session\<close>

text \<open>
  A session interleaves the calls smoltcp makes on a \<open>DpdkDevice\<close> with the writes other queues make to
  the shared ARP cache. The state also records the buffers held outside the device: the receive tokens
  not yet consumed and whatever else the program keeps. The properties of the device are proved here.
\<close>

record 'w session =
  s_dev :: dpdk_device
  s_arcs :: arcs
  s_world :: 'w
  s_out :: "mbuf set"

definition bytes_kept :: "nat \<Rightarrow> (u8 list \<Rightarrow> 'r \<times> u8 list) \<Rightarrow> bool" where
  "bytes_kept len g \<longleftrightarrow> (\<forall>bs. length bs = len \<longrightarrow> length (snd (g bs)) = len)"

inductive session_step ::
  "('w, 'z) queue_ffi_scheme \<Rightarrow> hash_iter \<Rightarrow> 'w session \<Rightarrow> 'w session \<Rightarrow> bool"
  for f iter where
  received: "receive f iter (s_dev s) (s_arcs s) (s_world s) = Done (r, d, H, w) \<Longrightarrow>
    session_step f iter s (s\<lparr>s_dev := d, s_arcs := H, s_world := w, s_out := set_option r \<union> s_out s\<rparr>)"
| consumed: "m \<in> s_out s \<Longrightarrow>
    session_step f iter s (s\<lparr>s_world := snd (RxToken_consume f m (\<lambda>bs. bs) (s_world s)), s_out := s_out s - {m}\<rparr>)"
| sent: "transmit f (s_dev s) (s_world s) = Done (True, d1, w1) \<Longrightarrow>
    len \<le> max_transmission_unit (capabilities d1) \<Longrightarrow> bytes_kept len g \<Longrightarrow>
    TxToken_consume f d1 len g w1 = Done (r :: unit, d2, w2) \<Longrightarrow>
    session_step f iter s (s\<lparr>s_dev := d2, s_world := w2\<rparr>)"
| blocked: "transmit f (s_dev s) (s_world s) = Done (False, d, w) \<Longrightarrow>
    session_step f iter s (s\<lparr>s_dev := d, s_world := w\<rparr>)"
| cache_written: "session_step f iter s (s\<lparr>s_arcs := (s_arcs s)(c := SharedArpCache_insert (s_arcs s c) ip m)\<rparr>)"

definition session_ok :: "'w view \<Rightarrow> nat \<Rightarrow> 'w session \<Rightarrow> bool" where
  "session_ok V limit s \<longleftrightarrow> dev_owns V (s_out s) (s_world s) (s_dev s) \<and> mtu (s_dev s) \<le> limit"

text \<open>
  A queue that cannot finish an injection: the batch is one short of full, the recorded version is old
  and the map has two entries or more. \<open>polled\<close> is one turn of smoltcp on it, a receive whose token is
  consumed, in which the pool had a buffer.
\<close>

definition starving :: "hash_iter \<Rightarrow> arcs \<Rightarrow> dpdk_device \<Rightarrow> bool" where
  "starving iter H d \<longleftrightarrow> queue_id d \<noteq> 0 \<and> our_mac d \<noteq> None \<and> our_ip d \<noteq> None
     \<and> (case shared_arp_cache d of None \<Rightarrow> False
        | Some c \<Rightarrow> SharedArpCache_version (H c) \<noteq> last_cache_version d
            \<and> 2 \<le> length (iter (SharedArpCache_snapshot (H c))))
     \<and> length (rx_batch d) = 63"

definition first_entry :: "hash_iter \<Rightarrow> arcs \<Rightarrow> dpdk_device \<Rightarrow> ipv4 \<times> mac" where
  "first_entry iter H d = hd (iter (SharedArpCache_snapshot (H (the (shared_arp_cache d)))))"

inductive polled ::
  "('w, 'z) queue_ffi_scheme \<Rightarrow> hash_iter \<Rightarrow> arcs \<Rightarrow> dpdk_device \<times> 'w \<Rightarrow> dpdk_device \<times> 'w \<Rightarrow> bool"
  for f iter H where
  "flush_tx f d w = Done (d1, w1) \<Longrightarrow> fst (Mbuf_alloc f (mem_pool_inner (mempool d)) w1) \<noteq> None \<Longrightarrow>
   receive f iter d H w = Done (Some m, d2, H2, w2) \<Longrightarrow>
   polled f iter H (d, w) (d2, snd (RxToken_consume f m (\<lambda>bs. bs) w2))"

inductive_cases polledE: "polled f iter H s s'"

text \<open>A number of receives in a row, their tokens kept.\<close>

primrec receive_tokens ::
  "nat \<Rightarrow> ('w, 'z) queue_ffi_scheme \<Rightarrow> hash_iter \<Rightarrow> dpdk_device \<Rightarrow> arcs \<Rightarrow> 'w
     \<Rightarrow> (mbuf option list \<times> dpdk_device \<times> arcs \<times> 'w) outcome" where
  "receive_tokens 0 f iter d H w = Done ([], d, H, w)"
| "receive_tokens (Suc n) f iter d H w =
     outcome_bind (receive f iter d H w) (\<lambda>(r, d, H, w).
       outcome_bind (receive_tokens n f iter d H w) (\<lambda>(rs, d, H, w). Done (r # rs, d, H, w)))"

context dpdk_queue
begin

lemma transmit_True:
  assumes "dev_owns V X w d" and "transmit f d w = Done (True, d', w')"
  shows "same_config d d'" "length (tx_batch d') < TX_BATCH" "dev_owns V X w' d'"
proof -
  from transmit_owns [OF assms(1)] obtain ok d1 w1 where "transmit f d w = Done (ok, d1, w1)"
    "same_config d d1" "ok \<longleftrightarrow> length (tx_batch d1) < TX_BATCH" "dev_owns V X w1 d1" by blast
  with assms(2) show "same_config d d'" "length (tx_batch d') < TX_BATCH" "dev_owns V X w' d'" by auto
qed

lemma TxToken_done:
  assumes "dev_owns V X w d" and "length (tx_batch d) < TX_BATCH"
    and "len \<le> pool_limit room (mem_pool_inner (mempool d))" and "bytes_kept len g"
  shows "\<exists>r d' w'. TxToken_consume f d len g w = Done (r, d', w') \<and> dev_owns V X w' d' \<and> same_config d d'"
  by (rule TxToken_owns [OF assms(1-3) assms(4) [unfolded bytes_kept_def]])
    (auto simp: same_config_def)

lemma session_step_ok:
  assumes "session_step f iter s s'"
    and "session_ok V (pool_limit room (mem_pool_inner (mempool (s_dev s)))) s"
  shows "session_ok V (pool_limit room (mem_pool_inner (mempool (s_dev s)))) s'
    \<and> mempool (s_dev s') = mempool (s_dev s)"
  using assms(1)
proof cases
  case (received r d H w)
  from assms(2) have own: "dev_owns V (s_out s) (s_world s) (s_dev s)" by (simp add: session_ok_def)
  obtain r' d' H' w' n where
    rc: "receive f iter (s_dev s) (s_arcs s) (s_world s) = Done (r', d', H', w')"
      "same_config (s_dev s) d'" "tx_batch d' = drop n (tx_batch (s_dev s))" "n \<le> length (tx_batch (s_dev s))"
      "stable (- set (take n (tx_batch (s_dev s)))) (s_world s) w'" "case r' of None \<Rightarrow> rx_batch d' = [] \<and> dev_owns V (s_out s) w' d'
      | Some m \<Rightarrow> m \<notin> s_out s \<and> dev_owns V (insert m (s_out s)) w' d'"
    by (rule receive_owns [OF own, of iter "s_arcs s"])
  with received have "dev_owns V (set_option r \<union> s_out s) w d" "same_config (s_dev s) d"
    by (cases r; simp)+
  with received assms(2) show ?thesis by (simp add: session_ok_def same_config_def)
next
  case (consumed m)
  from assms(2) have "dev_owns V (insert m (s_out s - {m})) (s_world s) (s_dev s)"
    using consumed by (simp add: session_ok_def insert_absorb)
  with RxToken_owns [OF this, of "\<lambda>bs. bs"] consumed assms(2) show ?thesis by (auto simp: session_ok_def)
next
  case (sent d1 w1 len g r d2 w2)
  from assms(2) have own: "dev_owns V (s_out s) (s_world s) (s_dev s)" by (simp add: session_ok_def)
  note t = transmit_True [OF own sent(2)]
  have len: "len \<le> pool_limit room (mem_pool_inner (mempool d1))"
    using sent(3) t(1) assms(2) by (simp add: capabilities_def same_config_def session_ok_def)
  from TxToken_done [OF t(3,2) len sent(4)] sent(5)
  have "dev_owns V (s_out s) w2 d2 \<and> same_config d1 d2" by auto
  then show ?thesis using sent(1) t(1) assms(2) by (auto simp: session_ok_def same_config_def)
next
  case (blocked d w)
  from assms(2) have own: "dev_owns V (s_out s) (s_world s) (s_dev s)" by (simp add: session_ok_def)
  from transmit_owns [OF own] obtain ok d' w' where
    "transmit f (s_dev s) (s_world s) = Done (ok, d', w')" "same_config (s_dev s) d'"
    "dev_owns V (s_out s) w' d'" by blast
  with blocked assms(2) show ?thesis by (simp add: session_ok_def same_config_def)
next
  case (cache_written c ip m)
  then show ?thesis using assms(2) by (simp add: session_ok_def)
qed

lemma session_reachable_ok:
  assumes "(session_step f iter)\<^sup>*\<^sup>* s s'"
    and "session_ok V (pool_limit room (mem_pool_inner (mempool (s_dev s)))) s"
  shows "session_ok V (pool_limit room (mem_pool_inner (mempool (s_dev s)))) s'
    \<and> mempool (s_dev s') = mempool (s_dev s)"
  using assms(1)
proof (induction rule: rtranclp_induct)
  case base
  then show ?case using assms(2) by simp
next
  case (step y z)
  have mp: "mempool (s_dev y) = mempool (s_dev s)" using step.IH by blast
  from session_step_ok [OF step.hyps(2)] step.IH show ?case unfolding mp by blast
qed

lemma session_ok_progress:
  assumes "session_ok V (pool_limit room (mem_pool_inner (mempool (s_dev s)))) s"
  shows "\<not> is_panic (receive f iter (s_dev s) (s_arcs s) (s_world s))"
    and "\<not> is_panic (transmit f (s_dev s) (s_world s))"
    and "transmit f (s_dev s) (s_world s) = Done (True, d1, w1) \<Longrightarrow>
      len \<le> max_transmission_unit (capabilities d1) \<Longrightarrow> bytes_kept len g \<Longrightarrow> \<not> is_panic (TxToken_consume f d1 len g w1)"
proof -
  from assms have own: "dev_owns V (s_out s) (s_world s) (s_dev s)" by (simp add: session_ok_def)
  show "\<not> is_panic (receive f iter (s_dev s) (s_arcs s) (s_world s))"
    by (rule receive_owns [OF own, of iter "s_arcs s"]) simp
  show "\<not> is_panic (transmit f (s_dev s) (s_world s))"
    by (rule transmit_owns [OF own]) simp
  assume tr: "transmit f (s_dev s) (s_world s) = Done (True, d1, w1)"
    and len: "len \<le> max_transmission_unit (capabilities d1)" and g: "bytes_kept len g"
  note t = transmit_True [OF own tr]
  have len': "len \<le> pool_limit room (mem_pool_inner (mempool d1))"
    using len t(1) assms by (simp add: capabilities_def same_config_def session_ok_def)
  from TxToken_done [OF t(3,2) len' g] show "\<not> is_panic (TxToken_consume f d1 len g w1)" by auto
qed

end

context dpdk_queue
begin

lemma starving_receive:
  assumes own: "dev_owns V X w d" and st: "starving iter H d"
    and fl: "flush_tx f d w = Done (d1, w1)" and al: "fst (Mbuf_alloc f (mem_pool_inner (mempool d)) w1) \<noteq> None"
    and lim: "42 \<le> pool_limit room (mem_pool_inner (mempool d))"
  obtains m w2 where "receive f iter d H w = Done (Some m, d\<lparr>tx_batch := tx_batch d1\<rparr>, H, w2)"
    "dev_owns V (insert m X) w2 (d\<lparr>tx_batch := tx_batch d1\<rparr>)" "m \<notin> X"
    "parse_arp_reply (Mbuf_data f w2 m) = Some (first_entry iter H d)"
proof -
  from st obtain c m0 ip0 e1 e2 es where c: "queue_id d \<noteq> 0" "shared_arp_cache d = Some c"
    "our_mac d = Some m0" "our_ip d = Some ip0" "SharedArpCache_version (H c) \<noteq> last_cache_version d"
    "iter (SharedArpCache_snapshot (H c)) = e1 # e2 # es" "length (rx_batch d) = 63"
    by (auto simp: starving_def Suc_le_length_iff numeral_2_eq_2 split: option.splits)
  from flush_tx_owns [OF own] obtain n w' where
    "flush_tx f d w = Done (d\<lparr>tx_batch := drop n (tx_batch d)\<rparr>, w')" by blast
  with fl obtain t where d1: "d1 = d\<lparr>tx_batch := t\<rparr>" by auto
  have p: "poll_rx f d H w = Done (d1, H, w1)" using fl c(7) by (auto simp: poll_rx_def d1)
  obtain b w3 where a: "Mbuf_alloc f (mem_pool_inner (mempool d)) w1 = (Some b, w3)"
    using al by (cases "Mbuf_alloc f (mem_pool_inner (mempool d)) w1") auto
  let ?pkt = "build_arp_reply_for_injection m0 ip0 (snd e1) (fst e1)"
  from store.fill_ok [OF a, of ?pkt] lim obtain w2 where
    cp: "Mbuf_copy_from_slice f b ?pkt w3 = (True, w2)" by (auto simp: prod_eq_iff)
  have lp: "inject_loop f (mempool d) m0 ip0 (e1 # e2 # es) (rx_batch d) w1 = (False, rx_batch d @ [b], w2)"
    using a cp c(7) by (simp add: MemPool_try_alloc_def Let_def)
  have inj: "inject_from_shared_cache f iter d1 H w1 = (d1\<lparr>rx_batch := rx_batch d @ [b]\<rparr>, w2)"
    using c lp by (simp add: inject_from_shared_cache_def d1)
  have rc: "receive f iter d H w = Done (Some b, d\<lparr>tx_batch := tx_batch d1\<rparr>, H, w2)"
    by (simp add: receive_def p inj) (simp add: d1)
  moreover have "b \<notin> X \<and> dev_owns V (insert b X) w2 (d\<lparr>tx_batch := tx_batch d1\<rparr>)"
    by (rule receive_owns [OF own, of iter H]) (use rc in auto)
  moreover have "parse_arp_reply (Mbuf_data f w2 b) = Some (first_entry iter H d)"
    using store.alloc_fill(3) [OF a cp] c by (simp add: parse_build_arp_reply first_entry_def)
  ultimately show thesis by (intro that) auto
qed

lemma starving_for_ever:
  assumes "(polled f iter H)\<^sup>*\<^sup>* (d, w) s" and "dev_owns V X w d" and "starving iter H d"
    and "42 \<le> pool_limit room (mem_pool_inner (mempool d))"
  shows "dev_owns V X (snd s) (fst s) \<and> starving iter H (fst s) \<and> (\<exists>t. fst s = d\<lparr>tx_batch := t\<rparr>)"
  using assms(1)
proof (induction rule: rtranclp_induct)
  case base
  have "\<exists>t. d = d\<lparr>tx_batch := t\<rparr>" by (rule exI [of _ "tx_batch d"]) simp
  with assms show ?case by simp
next
  case (step y z)
  then obtain t where t: "fst y = d\<lparr>tx_batch := t\<rparr>" by blast
  from step.hyps(2) show ?case
  proof cases
    case (1 dy w0 d1 w1 m d2 H2 w2)
    have own: "dev_owns V X w0 dy" "starving iter H dy" using step.IH 1 by auto
    have dy: "dy = d\<lparr>tx_batch := t\<rparr>" using t 1 by simp
    have lim: "42 \<le> pool_limit room (mem_pool_inner (mempool dy))" using assms(4) by (simp add: dy)
    obtain m' w2' where "receive f iter dy H w0 = Done (Some m', dy\<lparr>tx_batch := tx_batch d1\<rparr>, H, w2')"
      "dev_owns V (insert m' X) w2' (dy\<lparr>tx_batch := tx_batch d1\<rparr>)" "m' \<notin> X"
      "parse_arp_reply (Mbuf_data f w2' m') = Some (first_entry iter H dy)"
      by (rule starving_receive [OF own 1(3,4) lim])
    with 1(5) have r: "d2 = dy\<lparr>tx_batch := tx_batch d1\<rparr>" "dev_owns V (insert m X) w2 d2" "m \<notin> X" by auto
    have "starving iter H d2" using own(2) by (simp add: r(1) starving_def split: option.splits)
    moreover have "dev_owns V X (snd (RxToken_consume f m (\<lambda>bs. bs) w2)) d2" by (rule RxToken_owns [OF r(2,3)])
    ultimately show ?thesis using 1(2) by (auto simp: r(1) dy)
  qed
qed

end

subsection \<open>Properties of the device\<close>

definition device_start :: "dpdk_device \<Rightarrow> arcs \<Rightarrow> 'w \<Rightarrow> mbuf set \<Rightarrow> 'w session" where
  "device_start d H w X = \<lparr>s_dev = d, s_arcs = H, s_world = w, s_out = X\<rparr>"

text \<open>
  C1. A device never leaks a buffer, never frees one twice and never panics, in every session that
  takes its transmit tokens from \<open>transmit()\<close>. From \<open>DpdkDevice::new\<close> (with or without a shared ARP
  cache), when the capacity given to it is that of its pool, and through any sequence of receives,
  consumed tokens, transmissions of up to the advertised MTU and writes to the cache: the batches keep
  within 64 and 256 distinct buffers, and the buffers out of the pool are exactly those in the batches
  and those held outside; the next \<open>receive\<close>, \<open>transmit\<close> and \<open>consume\<close> return.
\<close>

theorem device_session_safe:
  assumes "mbuf_laws f V room" "rx_burst_law f V" "tx_burst_law f V"
    and "DpdkDevice_new rx tx mp m cap = Done d0" and "cap \<le> pool_limit room (mem_pool_inner mp)"
    and "d = d0 \<or> d = with_shared_arp_cache d0 q c mc ip" and "\<forall>b. Mbuf_held V w b \<longleftrightarrow> b \<in> X"
    and "(session_step f iter)\<^sup>*\<^sup>* (device_start d H w X) s"
  shows "dev_owns V (s_out s) (s_world s) (s_dev s)
    \<and> \<not> is_panic (receive f iter (s_dev s) (s_arcs s) (s_world s))
    \<and> \<not> is_panic (transmit f (s_dev s) (s_world s))
    \<and> (\<forall>d1 w1 len (g :: u8 list \<Rightarrow> unit \<times> u8 list). transmit f (s_dev s) (s_world s) = Done (True, d1, w1)
         \<and> len \<le> max_transmission_unit (capabilities d1) \<and> bytes_kept len g
         \<longrightarrow> \<not> is_panic (TxToken_consume f d1 len g w1))"
proof -
  note q = dpdk_queueI [OF assms(1-3)]
  have d0: "rx_batch d = []" "tx_batch d = []" "mtu d = m" "mempool d = mp" "m + MAX_PACKET_OVERHEAD \<le> cap"
    using assms(4,6) by (auto simp: DpdkDevice_new_def with_shared_arp_cache_def split: if_splits)
  have start: "session_ok V (pool_limit room (mem_pool_inner (mempool (s_dev (device_start d H w X)))))
      (device_start d H w X)"
    using d0 assms(5,7) by (simp add: session_ok_def device_start_def dev_owns_def)
  from dpdk_queue.session_reachable_ok [OF q assms(8) start]
  have ok: "session_ok V (pool_limit room (mem_pool_inner (mempool (s_dev s)))) s" by simp
  show ?thesis
    using dpdk_queue.session_ok_progress [OF q ok] ok unfolding session_ok_def by blast
qed

definition sim_device :: dpdk_device where
  "sim_device = \<lparr>rxq = RxQueue_new 0 0, txq = TxQueue_new 0 0, mempool = MemPool 7, rx_batch = [],
     tx_batch = [], mtu = 1500, mbuf_capacity = 2048, queue_id = 0, shared_arp_cache = None,
     our_mac = None, our_ip = None, last_cache_version = 0\<rparr>"

lemma sim_device_new: "DpdkDevice_new (RxQueue_new 0 0) (TxQueue_new 0 0) (MemPool 7) 1500 2048 = Done sim_device"
  by (simp add: DpdkDevice_new_def MAX_PACKET_OVERHEAD_def sim_device_def)

lemma sim_limit: "pool_limit (\<lambda>_. sim_room) p = 2048"
  by (simp add: pool_limit_def sim_room_def RTE_PKTMBUF_HEADROOM_def)

lemma sim_start_held: "\<not> Mbuf_held sim_view (sim_start n frames k) b"
  by (simp add: Mbuf_held_def sim_view_def sim_start_def)

theorem device_session_safe_witness:
  "\<not> is_panic (receive sim_ffi id sim_device (\<lambda>_. SharedArpCache_new) (sim_start 8 [[1, 2], [3]] 4))"
  using device_session_safe [OF sim_mbuf_laws sim_rx_burst_law sim_tx_burst_law sim_device_new,
      of sim_device 0 0 "Mac 0 0 0 0 0 0" "Ipv4 0 0 0 0" "sim_start 8 [[1, 2], [3]] 4" "{}" id
      "\<lambda>_. SharedArpCache_new" "device_start sim_device (\<lambda>_. SharedArpCache_new) (sim_start 8 [[1, 2], [3]] 4) {}"]
  by (simp add: sim_limit sim_start_held device_start_def)

text \<open>
  C9. A frame that smoltcp writes through a token of \<open>transmit()\<close> is queued exactly: for any length up to
  the MTU the closure runs on a slice of that length, and the buffer appended to \<open>tx_batch\<close> holds the
  bytes the closure left there; the frames queued before keep their bytes. Only when the pool has no
  buffer is the frame written to a scratch vector and lost, and then the queue is as it was.
\<close>

theorem transmit_queues_frame:
  assumes "mbuf_laws f V room" "rx_burst_law f V" "tx_burst_law f V" and "dev_owns V X w d"
    and "mtu d \<le> pool_limit room (mem_pool_inner (mempool d))" and "transmit f d w = Done (True, d1, w1)"
    and "len \<le> mtu d" and "bytes_kept len g"
  shows "\<exists>r d2 w2. TxToken_consume f d1 len g w1 = Done (r, d2, w2)
    \<and> (if fst (Mbuf_alloc f (mem_pool_inner (mempool d)) w1) = None
       then d2 = d1 \<and> r = fst (g (replicate len 0))
       else \<exists>m init. d2 = d1\<lparr>tx_batch := tx_batch d1 @ [m]\<rparr> \<and> length init = len
              \<and> r = fst (g init) \<and> Mbuf_data f w2 m = snd (g init))
    \<and> (\<forall>b \<in> set (tx_batch d1). Mbuf_data f w2 b = Mbuf_data f w1 b)"
proof -
  note q = dpdk_queueI [OF assms(1-3)]
  note t = dpdk_queue.transmit_True [OF q assms(4,6)]
  have cfg: "mempool d1 = mempool d" using t(1) by (simp add: same_config_def)
  have len: "len \<le> pool_limit room (mem_pool_inner (mempool d1))" using assms(5,7) cfg by simp
  have held: "Mbuf_held V w1 b" if "b \<in> set (tx_batch d1)" for b
    using dev_ownsD(8) [OF t(3)] that by simp
  show ?thesis
  proof (rule dpdk_queue.TxToken_owns [OF q t(3,2) len assms(8) [unfolded bytes_kept_def]])
    fix m init w'
    assume tc: "TxToken_consume f d1 len g w1 = Done (fst (g init), d1\<lparr>tx_batch := tx_batch d1 @ [m]\<rparr>, w')"
      and r: "length init = len" "Mbuf_data f w' m = snd (g init)" "dpdk_queue.stable f V UNIV w1 w'"
    have "fst (Mbuf_alloc f (mem_pool_inner (mempool d)) w1) \<noteq> None"
    proof
      assume "fst (Mbuf_alloc f (mem_pool_inner (mempool d)) w1) = None"
      then have "d1\<lparr>tx_batch := tx_batch d1 @ [m]\<rparr> = d1"
        using tc cfg by (auto simp: TxToken_consume_def MemPool_try_alloc_def split: prod.splits option.splits)
      from arg_cong [OF this, of tx_batch] show False by simp
    qed
    with tc r held show ?thesis by (auto simp: dpdk_queue.stable_def [OF q])
  next
    fix w'
    assume "TxToken_consume f d1 len g w1 = Done (fst (g (replicate len 0)), d1, w')"
      "Mbuf_alloc f (mem_pool_inner (mempool d1)) w1 = (None, w')" "dpdk_queue.stable f V UNIV w1 w'"
    with cfg held show ?thesis by (auto simp: dpdk_queue.stable_def [OF q])
  qed
qed

lemma sim_one_owns: "dev_owns sim_view {Mbuf 1} sim_one sim_device"
proof -
  have "Mbuf_held sim_view sim_one m \<longleftrightarrow> m = Mbuf 1" for m
    using sim_one_only [of "mbuf_inner m"] by (cases m) (simp add: Mbuf_held_def)
  then show ?thesis by (simp add: dev_owns_def sim_device_def)
qed

theorem transmit_queues_frame_witness:
  "\<exists>r d2 w2. TxToken_consume sim_ffi sim_device 3 (\<lambda>bs. ((), map (\<lambda>_. 9) bs)) sim_one = Done (r, d2, w2)"
  using transmit_queues_frame [OF sim_mbuf_laws sim_rx_burst_law sim_tx_burst_law sim_one_owns,
      of sim_device sim_one 3 "\<lambda>bs. ((), map (\<lambda>_. 9) bs)"]
  by (fastforce simp: sim_device_def sim_limit transmit_def bytes_kept_def)

text \<open>
  Packets of one burst reach smoltcp in reverse order. When \<open>poll_rx\<close> leaves a batch and nothing is
  injected (queue 0, or no shared cache), as many calls of \<open>receive\<close> as the batch has packets return
  them last first: \<open>pop()\<close> takes from the back and nothing reverses the batch before.
\<close>

theorem receive_reverses_burst:
  assumes "mbuf_laws f V room" "rx_burst_law f V" "tx_burst_law f V" and "dev_owns V X w d"
    and "queue_id d = 0 \<or> shared_arp_cache d = None" and "poll_rx f d H w = Done (d1, H1, w1)"
  shows "\<exists>d2 H2 w2. receive_tokens (length (rx_batch d1)) f iter d H w = Done (map Some (rev (rx_batch d1)), d2, H2, w2)"
proof -
  note q = dpdk_queueI [OF assms(1-3)]
  have skip: "inject_from_shared_cache f iter d H w = (d, w)"
    if "queue_id d = 0 \<or> shared_arp_cache d = None" for d H and w :: 'a
    using that by (auto simp: inject_from_shared_cache_def)
  show ?thesis
    using assms(4-6)
  proof (induction "length (rx_batch d1)" arbitrary: d H w d1 H1 w1 X)
    case (Suc k)
    from dpdk_queue.poll_rx_owns [OF q Suc.prems(1), of H] Suc.prems(3) obtain n new where
      p: "d1 = d\<lparr>rx_batch := new, tx_batch := drop n (tx_batch d)\<rparr>" "dev_owns V X w1 d1"
      by (metis outcome.inject(1) prod.inject)
    obtain b m where b: "rx_batch d1 = b @ [m]" using Suc.hyps(2) by (metis length_Suc_conv_rev)
    have cfg: "queue_id d1 = 0 \<or> shared_arp_cache d1 = None" using Suc.prems(2) p(1) by auto
    have rc: "receive f iter d H w = Done (Some m, d1\<lparr>rx_batch := b\<rparr>, H1, w1)"
      using Suc.prems(3) skip [OF cfg] b by (simp add: receive_def)
    have own: "dev_owns V (insert m X) w1 (d1\<lparr>rx_batch := b\<rparr>)"
      using dev_ownsD [OF p(2)] b unfolding dev_owns_def by auto
    show ?case
    proof (cases b)
      case Nil
      with Suc.hyps(2) b rc show ?thesis by (auto simp flip: Suc.hyps(2))
    next
      case (Cons x xs)
      from dpdk_queue.poll_rx_owns [OF q own, of H1] obtain n2 d3 H3 w3 where
        p3: "poll_rx f (d1\<lparr>rx_batch := b\<rparr>) H1 w1 = Done (d3, H3, w3)" "rx_batch d3 = b"
        using Cons by (metis (no_types) dpdk_device.select_convs(4) dpdk_device.surjective
            dpdk_device.update_convs(4) dpdk_device.update_convs(5) list.distinct(1))
      then have len: "k = length (rx_batch d3)" using Suc.hyps(2) b by simp
      from Suc.hyps(1) [OF len own _ p3(1)] cfg p3(2) show ?thesis
        using rc b Suc.hyps(2) by (auto simp: len)
    qed
  qed auto
qed

lemma sim_start_owns: "dev_owns sim_view {} (sim_start n frames k) sim_device"
  by (simp add: dev_owns_def sim_device_def sim_start_held)

lemma sim_poll_two:
  "\<exists>d1 w1. poll_rx sim_ffi sim_device H (sim_start 8 [[1, 2], [3]] 0) = Done (d1, H, w1)
     \<and> rx_batch d1 = [Mbuf 1, Mbuf 2]"
  by (simp add: poll_rx_def flush_tx_def sim_device_def RxQueue_rx_def RxQueue_new_def sim_ffi_def
      sim_rx_burst_def sim_start_def MAX_BURST_SIZE_def Let_def Mbuf_from_raw_def min_def word_le_nat_alt)

theorem receive_reverses_burst_witness:
  "\<exists>d2 H2 w2. receive_tokens 2 sim_ffi id sim_device (\<lambda>_. SharedArpCache_new) (sim_start 8 [[1, 2], [3]] 0)
     = Done ([Some (Mbuf 2), Some (Mbuf 1)], d2, H2, w2)"
proof -
  obtain d1 w1 where p: "poll_rx sim_ffi sim_device (\<lambda>_. SharedArpCache_new) (sim_start 8 [[1, 2], [3]] 0)
      = Done (d1, \<lambda>_. SharedArpCache_new, w1)" and b: "rx_batch d1 = [Mbuf 1, Mbuf 2]"
    using sim_poll_two by blast
  have "queue_id sim_device = 0 \<or> shared_arp_cache sim_device = None" by (simp add: sim_device_def)
  from receive_reverses_burst [OF sim_mbuf_laws sim_rx_burst_law sim_tx_burst_law sim_start_owns this p, of id]
  show ?thesis by (simp add: b numeral_2_eq_2)
qed

text \<open>
  C17. Queue 0 learns what it receives. After \<open>poll_rx\<close> on queue 0 with an empty batch, the shared cache
  maps the sender of every ARP reply of the burst to the address in its last reply and every other
  address as before, and its version has moved by the number of replies.
\<close>

theorem poll_rx_learns:
  assumes "mbuf_laws f V room" "rx_burst_law f V" "tx_burst_law f V" and "dev_owns V X w d"
    and "rx_batch d = []" and "queue_id d = 0" and "shared_arp_cache d = Some c" and "cache_wf (H c)"
    and "poll_rx f d H w = Done (d', H', w')"
  shows "let replies = List.map_filter (\<lambda>m. parse_arp_reply (Mbuf_data f w' m)) (rx_batch d')
    in SharedArpCache_get (H' c) ip = (case map_of (rev replies) ip of None \<Rightarrow> SharedArpCache_get (H c) ip | Some m \<Rightarrow> Some m)
       \<and> SharedArpCache_version (H' c) = SharedArpCache_version (H c) + of_nat (length replies)
       \<and> cache_wf (H' c) \<and> (\<forall>c'. c' \<noteq> c \<longrightarrow> H' c' = H c')"
proof -
  note q = dpdk_queueI [OF assms(1-3)]
  obtain n new where p: "d' = d\<lparr>rx_batch := new, tx_batch := drop n (tx_batch d)\<rparr>"
    "H' = H(c := scan_arp f w' new (H c))"
    using dpdk_queue.poll_rx_owns [OF q assms(4), of H c] assms(5-7,9)
    by (metis outcome.inject(1) prod.inject)
  have scan: "scan_arp f w' ms k = arp.put_all k (List.map_filter (\<lambda>m. parse_arp_reply (Mbuf_data f w' m)) ms)"
    for ms k by (induction ms arbitrary: k) (auto simp: map_filter_simps split: option.splits)
  show ?thesis
    unfolding Let_def using arp.put_all_look [OF assms(8)] arp.put_all_stamp [of "H c"] arp.put_all_wf [OF assms(8)]
    by (simp add: p scan)
qed

definition sim_cache_device :: "u16 \<Rightarrow> dpdk_device" where
  "sim_cache_device q = with_shared_arp_cache sim_device q 5 (Mac 2 0 0 0 0 5) (Ipv4 10 0 0 5)"

lemma sim_cache_device_owns: "dev_owns sim_view {} (sim_start n frames k) (sim_cache_device q)"
  by (simp add: dev_owns_def sim_cache_device_def with_shared_arp_cache_def sim_device_def sim_start_held)

lemma sim_poll_one:
  assumes "length bs \<le> 2048"
  shows "\<exists>w1. poll_rx sim_ffi (sim_cache_device 0) H (sim_start 8 [bs] 0)
      = Done ((sim_cache_device 0)\<lparr>rx_batch := [Mbuf 1]\<rparr>, H(5 := scan_arp sim_ffi w1 [Mbuf 1] (H 5)), w1)
    \<and> Mbuf_data sim_ffi w1 (Mbuf 1) = bs"
proof -
  define w1 where "w1 = (sim_start 8 [bs] 0)\<lparr>cells := (\<lambda>p. if 0 < p \<and> p \<le> 1 then Some (sim_cell p ([bs] ! (p - 1))) else None),
    next_ptr := 1, pool_free := 7, rx_ring := []\<rparr>"
  have rx: "RxQueue_rx sim_ffi (RxQueue_new 0 0) 64 [] (sim_start 8 [bs] 0) = (1, [Mbuf 1], w1)"
    by (simp add: RxQueue_rx_def RxQueue_new_def sim_ffi_def sim_rx_burst_def sim_start_def w1_def
        MAX_BURST_SIZE_def Let_def Mbuf_from_raw_def min_def word_le_nat_alt fun_eq_iff)
  have "sim_view w1 1 = Some (sim_cell 1 bs)"
    using sim_cell_wf [of 1 bs] by (simp add: sim_view_def w1_def) (simp add: sim_cell_def)
  then have "Mbuf_data sim_ffi w1 (Mbuf 1) = bs"
    using nic.data_view [of w1 1] sim_cell_data [OF assms] by simp
  moreover have "poll_rx sim_ffi (sim_cache_device 0) H (sim_start 8 [bs] 0)
      = Done ((sim_cache_device 0)\<lparr>rx_batch := [Mbuf 1]\<rparr>, H(5 := scan_arp sim_ffi w1 [Mbuf 1] (H 5)), w1)"
    using rx by (simp add: poll_rx_def flush_tx_def sim_cache_device_def with_shared_arp_cache_def sim_device_def)
  ultimately show ?thesis by blast
qed

theorem poll_rx_learns_witness:
  "\<exists>d' H' w'. poll_rx sim_ffi (sim_cache_device 0) (\<lambda>_. SharedArpCache_new)
      (sim_start 8 [build_arp_reply_for_injection (Mac 0 0 0 0 0 0) (Ipv4 0 0 0 0) (Mac 2 0 0 0 0 1) (Ipv4 10 0 0 1)] 0)
      = Done (d', H', w')
    \<and> SharedArpCache_get (H' 5) (Ipv4 10 0 0 1) = Some (Mac 2 0 0 0 0 1) \<and> SharedArpCache_version (H' 5) = 1"
proof -
  let ?bs = "build_arp_reply_for_injection (Mac 0 0 0 0 0 0) (Ipv4 0 0 0 0) (Mac 2 0 0 0 0 1) (Ipv4 10 0 0 1)"
  obtain H' w1 where p: "poll_rx sim_ffi (sim_cache_device 0) (\<lambda>_. SharedArpCache_new) (sim_start 8 [?bs] 0)
      = Done ((sim_cache_device 0)\<lparr>rx_batch := [Mbuf 1]\<rparr>, H', w1)"
    and b: "Mbuf_data sim_ffi w1 (Mbuf 1) = ?bs"
    using sim_poll_one [of ?bs "\<lambda>_. SharedArpCache_new"] by auto
  have cfg: "rx_batch (sim_cache_device 0) = []" "queue_id (sim_cache_device 0) = 0"
    "shared_arp_cache (sim_cache_device 0) = Some 5"
    by (simp_all add: sim_cache_device_def with_shared_arp_cache_def sim_device_def)
  from poll_rx_learns [OF sim_mbuf_laws sim_rx_burst_law sim_tx_burst_law sim_cache_device_owns cfg cache_wf_new p,
      of "Ipv4 10 0 0 1"] b
  have "SharedArpCache_get (H' 5) (Ipv4 10 0 0 1) = Some (Mac 2 0 0 0 0 1)" "SharedArpCache_version (H' 5) = 1"
    by (simp_all add: Let_def map_filter_simps parse_build_arp_reply SharedArpCache_version_def SharedArpCache_new_def)
  with p show ?thesis by blast
qed

text \<open>
  C16. An injection that is recorded is complete. When \<open>inject_from_shared_cache\<close> changes the recorded
  version, the version is the cache's and the batch has gained, in the order of the map's iteration, one
  frame per entry of the snapshot, each of which parses back to its entry; nothing received is disturbed.
  When it does not, the batch has gained the frames of a proper beginning of the iteration only, or
  nothing at all.
\<close>

theorem injection_complete:
  assumes "mbuf_laws f V room" "rx_burst_law f V" "tx_burst_law f V" and "dev_owns V X w d"
    and "shared_arp_cache d = Some c" and "inject_from_shared_cache f iter d H w = (d', w')"
  shows "\<exists>new. rx_batch d' = rx_batch d @ new \<and> dev_owns V X w' d'
    \<and> map (\<lambda>m. parse_arp_reply (Mbuf_data f w' m)) new
        = map Some (take (length new) (iter (SharedArpCache_snapshot (H c))))
    \<and> (\<forall>m \<in> set (rx_batch d). Mbuf_data f w' m = Mbuf_data f w m)
    \<and> (if last_cache_version d' \<noteq> last_cache_version d
       then last_cache_version d' = SharedArpCache_version (H c)
         \<and> length new = length (iter (SharedArpCache_snapshot (H c)))
       else new = [] \<or> length new < length (iter (SharedArpCache_snapshot (H c))))"
proof -
  note q = dpdk_queueI [OF assms(1-3)]
  note o = dev_ownsD [OF assms(4)]
  show ?thesis
  proof (cases rule: inject_cases [of f iter d H w])
    case skip
    with assms(4,6) show ?thesis by simp
  next
    case (go cache m0 ip0)
    with assms(5) have c: "cache = c" by simp
    let ?es = "iter (SharedArpCache_snapshot (H c))"
    obtain ok batch w1 where lp: "inject_loop f (mempool d) m0 ip0 ?es (rx_batch d) w = (ok, batch, w1)"
      by (metis prod_cases3)
    from dpdk_queue.inject_loop_spec [OF q lp o(1)] obtain new where
      new: "batch = rx_batch d @ new" "dpdk_queue.adds f V m0 ip0 ?es new w w1" "ok \<longleftrightarrow> length new = length ?es"
      by blast
    have d': "rx_batch d' = rx_batch d @ new" "w' = w1"
      "last_cache_version d' = (if ok then SharedArpCache_version (H c) else last_cache_version d)"
      using go(5) lp assms(6) new(1) c by auto
    have own: "dev_owns V X w' d'"
      using dpdk_queue.inject_owns [OF q assms(4,6)] by blast
    note a = new(2) [unfolded dpdk_queue.adds_def [OF q] dpdk_queue.stable_def [OF q]]
    have "map (\<lambda>m. parse_arp_reply (Mbuf_data f w1 m)) new = map parse_arp_reply (map (Mbuf_data f w1) new)" by simp
    also have "\<dots> = map Some (take (length new) ?es)" using a by (simp add: parse_build_arp_reply)
    finally have "map (\<lambda>m. parse_arp_reply (Mbuf_data f w1 m)) new = map Some (take (length new) ?es)" .
    moreover have "\<forall>m \<in> set (rx_batch d). Mbuf_data f w1 m = Mbuf_data f w m" using a o(8) by blast
    ultimately show ?thesis
      using d' own new(3) a go(6) c by (intro exI [of _ new]) auto
  qed
qed

lemma sim_inject_one:
  "\<exists>d' w'. inject_from_shared_cache sim_ffi id (sim_cache_device 1)
      (\<lambda>_. SharedArpCache_insert SharedArpCache_new (Ipv4 10 0 0 1) (Mac 2 0 0 0 0 1)) (sim_start 8 [] 0) = (d', w')
    \<and> last_cache_version d' = 1"
proof -
  let ?pkt = "build_arp_reply_for_injection (Mac 2 0 0 0 0 5) (Ipv4 10 0 0 5) (Mac 2 0 0 0 0 1) (Ipv4 10 0 0 1)"
  let ?w = "sim_start 8 [] 0"
  have a: "Mbuf_alloc sim_ffi 7 ?w = (Some (Mbuf 1), snd (sim_alloc 7 ?w))"
    using sim_Mbuf_alloc(1) [of ?w 7] by (simp add: sim_start_def)
  have "fst (Mbuf_copy_from_slice sim_ffi (Mbuf 1) ?pkt (snd (sim_alloc 7 ?w)))"
    using nic.store.fill_ok [OF a, of ?pkt] by (simp add: sim_limit)
  then obtain w2 where cp: "Mbuf_copy_from_slice sim_ffi (Mbuf 1) ?pkt (snd (sim_alloc 7 ?w)) = (True, w2)"
    by (metis prod.collapse)
  show ?thesis
    using a cp by (simp add: inject_from_shared_cache_def sim_cache_device_def with_shared_arp_cache_def
        sim_device_def SharedArpCache_version_def SharedArpCache_snapshot_def SharedArpCache_insert_def
        SharedArpCache_new_def Let_def MemPool_try_alloc_def)
qed

theorem injection_complete_witness:
  "\<exists>d' w' new. inject_from_shared_cache sim_ffi id (sim_cache_device 1)
      (\<lambda>_. SharedArpCache_insert SharedArpCache_new (Ipv4 10 0 0 1) (Mac 2 0 0 0 0 1)) (sim_start 8 [] 0) = (d', w')
    \<and> rx_batch d' = new \<and> map (\<lambda>m. parse_arp_reply (Mbuf_data sim_ffi w' m)) new
        = [Some (Ipv4 10 0 0 1, Mac 2 0 0 0 0 1)]"
proof -
  let ?H = "\<lambda>_. SharedArpCache_insert SharedArpCache_new (Ipv4 10 0 0 1) (Mac 2 0 0 0 0 1)"
  obtain d' w' where i: "inject_from_shared_cache sim_ffi id (sim_cache_device 1) ?H (sim_start 8 [] 0) = (d', w')"
    and v: "last_cache_version d' = 1" using sim_inject_one by blast
  have cfg: "shared_arp_cache (sim_cache_device 1) = Some 5" "last_cache_version (sim_cache_device 1) = 0"
    "rx_batch (sim_cache_device 1) = []"
    by (simp_all add: sim_cache_device_def with_shared_arp_cache_def sim_device_def)
  have es: "id (SharedArpCache_snapshot (?H 5)) = [(Ipv4 10 0 0 1, Mac 2 0 0 0 0 1)]"
    by (simp add: SharedArpCache_snapshot_def SharedArpCache_insert_def SharedArpCache_new_def)
  from injection_complete [OF sim_mbuf_laws sim_rx_burst_law sim_tx_burst_law sim_cache_device_owns cfg(1) i]
  obtain new where "rx_batch d' = new" "length new = 1"
    "map (\<lambda>m. parse_arp_reply (Mbuf_data sim_ffi w' m)) new = map Some (take (length new) [(Ipv4 10 0 0 1, Mac 2 0 0 0 0 1)])"
    unfolding es cfg v by auto
  then have "map (\<lambda>m. parse_arp_reply (Mbuf_data sim_ffi w' m)) (rx_batch d') = [Some (Ipv4 10 0 0 1, Mac 2 0 0 0 0 1)]"
    by simp
  with i show ?thesis by (intro exI [of _ d'] exI [of _ w'] exI [of _ "rx_batch d'"]) simp
qed

text \<open>
  C19. Injection can starve reception. On a queue other than 0 whose receive batch is one short of full
  when the cache has a new version and two entries or more, every \<open>receive\<close> for which the pool has a
  buffer appends the first entry once more, fails on the second for lack of room, keeps the old
  version and hands the frame it has just made to smoltcp. After any number of such turns the
  device is the same up to its transmit batch: the packets waiting in the batch are never delivered
  and, the batch never being empty, the NIC is never polled.
\<close>

theorem injection_starves_receive:
  assumes "mbuf_laws f V room" "rx_burst_law f V" "tx_burst_law f V" and "dev_owns V X w d"
    and "starving iter H d" and "42 \<le> pool_limit room (mem_pool_inner (mempool d))"
    and "(polled f iter H)\<^sup>*\<^sup>* (d, w) (d', w')"
  shows "rx_batch d' = rx_batch d \<and> last_cache_version d' = last_cache_version d
    \<and> (\<forall>d1 w1. flush_tx f d' w' = Done (d1, w1) \<and> fst (Mbuf_alloc f (mem_pool_inner (mempool d)) w1) \<noteq> None \<longrightarrow>
         (\<exists>m w2. receive f iter d' H w' = Done (Some m, d'\<lparr>tx_batch := tx_batch d1\<rparr>, H, w2)
            \<and> m \<notin> set (rx_batch d) \<and> parse_arp_reply (Mbuf_data f w2 m) = Some (first_entry iter H d)))"
proof -
  note q = dpdk_queueI [OF assms(1-3)]
  from dpdk_queue.starving_for_ever [OF q assms(7,4,5,6)] obtain t where
    s: "dev_owns V X w' d'" "starving iter H d'" "d' = d\<lparr>tx_batch := t\<rparr>" by auto
  have lim: "42 \<le> pool_limit room (mem_pool_inner (mempool d'))" using assms(6) by (simp add: s(3))
  have again: "\<exists>m w2. receive f iter d' H w' = Done (Some m, d'\<lparr>tx_batch := tx_batch d1\<rparr>, H, w2)
      \<and> m \<notin> set (rx_batch d) \<and> parse_arp_reply (Mbuf_data f w2 m) = Some (first_entry iter H d)"
    if fl: "flush_tx f d' w' = Done (d1, w1)" and al: "fst (Mbuf_alloc f (mem_pool_inner (mempool d)) w1) \<noteq> None"
    for d1 w1
  proof -
    have al': "fst (Mbuf_alloc f (mem_pool_inner (mempool d')) w1) \<noteq> None" using al by (simp add: s(3))
    obtain m w2 where r: "receive f iter d' H w' = Done (Some m, d'\<lparr>tx_batch := tx_batch d1\<rparr>, H, w2)"
      "dev_owns V (insert m X) w2 (d'\<lparr>tx_batch := tx_batch d1\<rparr>)" "m \<notin> X"
      "parse_arp_reply (Mbuf_data f w2 m) = Some (first_entry iter H d')"
      by (rule dpdk_queue.starving_receive [OF q s(1,2) fl al' lim])
    have "m \<notin> set (rx_batch d)" using dev_ownsD(6) [OF r(2)] by (simp add: s(3))
    with r show ?thesis by (auto simp: s(3) first_entry_def)
  qed
  show ?thesis using again by (simp add: s(3))
qed

lemma sim_rx_all:
  assumes "length frames \<le> 64" and "length frames \<le> n"
  shows "\<exists>new w'. RxQueue_rx sim_ffi q 64 [] (sim_start n frames k) = (length frames, new, w')
    \<and> length new = length frames \<and> pool_free w' = n - length frames"
proof -
  let ?w = "sim_start n frames k"
  obtain m new w' where rx: "RxQueue_rx sim_ffi q 64 [] ?w = (m, new, w')" by (metis prod_cases3)
  have "m = length frames \<and> pool_free w' = n - length frames \<and> new = map Mbuf (map Suc [0..<length frames])"
    using rx assms rx_push_fits [of "map Suc [0..<length frames]" "[]" 64 sim_ffi]
    by (auto simp: RxQueue_rx_def sim_ffi_def sim_rx_burst_def sim_start_def MAX_BURST_SIZE_def Let_def
        min_def word_le_nat_alt unat_of_nat_u16 split: prod.splits if_splits)
  with rx show ?thesis by auto
qed

definition sim_neighbours :: arcs where
  "sim_neighbours = (\<lambda>_. SharedArpCache_insert (SharedArpCache_insert SharedArpCache_new (Ipv4 10 0 0 1)
     (Mac 2 0 0 0 0 1)) (Ipv4 10 0 0 2) (Mac 2 0 0 0 0 2))"

lemma sim_neighbours_entries:
  "SharedArpCache_snapshot (sim_neighbours c) = [(Ipv4 10 0 0 1, Mac 2 0 0 0 0 1), (Ipv4 10 0 0 2, Mac 2 0 0 0 0 2)]"
  "SharedArpCache_version (sim_neighbours c) = 2"
  by (simp_all add: sim_neighbours_def SharedArpCache_snapshot_def SharedArpCache_version_def
      SharedArpCache_insert_def SharedArpCache_new_def)

lemma sim_starving:
  obtains d w where "dev_owns sim_view {} w d" "starving id sim_neighbours d" "tx_batch d = []"
    "mempool d = MemPool 7" "0 < pool_free w" "first_entry id sim_neighbours d = (Ipv4 10 0 0 1, Mac 2 0 0 0 0 1)"
proof -
  let ?w = "sim_start 65 (replicate 63 [0]) 0" and ?d = "sim_cache_device 1"
  obtain new w1 where rx: "RxQueue_rx sim_ffi (RxQueue_new 0 0) 64 [] ?w = (63, new, w1)"
    "length new = 63" "pool_free w1 = 2" using sim_rx_all [of "replicate 63 [0]" 65 "RxQueue_new 0 0" 0] by auto
  note defs = sim_cache_device_def with_shared_arp_cache_def sim_device_def
  have p: "poll_rx sim_ffi ?d sim_neighbours ?w = Done (?d\<lparr>rx_batch := new\<rparr>, sim_neighbours, w1)"
    using rx by (simp add: poll_rx_def flush_tx_def defs)
  have own: "dev_owns sim_view {} w1 (?d\<lparr>rx_batch := new\<rparr>)"
    by (rule nicq.poll_rx_owns [OF sim_cache_device_owns [of 65 "replicate 63 [0]" 0 1], where H = sim_neighbours]) (use p in auto)
  show thesis
    by (rule that [OF own]) (use rx in \<open>simp_all add: starving_def first_entry_def sim_neighbours_entries defs\<close>)
qed

theorem injection_starves_receive_witness:
  "\<exists>d w m w2. length (rx_batch d) = 63 \<and> receive sim_ffi id d sim_neighbours w = Done (Some m, d, sim_neighbours, w2)
     \<and> parse_arp_reply (Mbuf_data sim_ffi w2 m) = Some (Ipv4 10 0 0 1, Mac 2 0 0 0 0 1)"
proof -
  obtain d w where s: "dev_owns sim_view {} w d" "starving id sim_neighbours d" "tx_batch d = []"
    "mempool d = MemPool 7" "0 < pool_free w" "first_entry id sim_neighbours d = (Ipv4 10 0 0 1, Mac 2 0 0 0 0 1)"
    by (rule sim_starving)
  have fl: "flush_tx sim_ffi d w = Done (d, w)" using s(3) by (simp add: flush_tx_def)
  have al: "fst (Mbuf_alloc sim_ffi (mem_pool_inner (mempool d)) w) \<noteq> None"
    by (simp add: sim_Mbuf_alloc(1) [OF s(5)])
  have lim: "42 \<le> pool_limit (\<lambda>_. sim_room) (mem_pool_inner (mempool d))" by (simp add: sim_limit)
  have same: "d\<lparr>tx_batch := tx_batch d\<rparr> = d" by simp
  from injection_starves_receive [OF sim_mbuf_laws sim_rx_burst_law sim_tx_burst_law s(1,2) lim rtranclp.rtrancl_refl]
    fl al obtain m w2 where "receive sim_ffi id d sim_neighbours w = Done (Some m, d, sim_neighbours, w2)"
    "parse_arp_reply (Mbuf_data sim_ffi w2 m) = Some (Ipv4 10 0 0 1, Mac 2 0 0 0 0 1)"
    unfolding s(6) by (metis same)
  moreover have "length (rx_batch d) = 63" using s(2) by (simp add: starving_def)
  ultimately show ?thesis by (intro exI conjI)
qed

text \<open>
  C20. The transmit token of \<open>receive()\<close> is not protected: when the transmit batch is full, the NIC takes
  nothing and a packet is waiting, \<open>receive\<close> still returns a token, and consuming it panics as soon as
  the pool has a buffer.
\<close>

theorem receive_token_panics:
  assumes "length (tx_batch d) = TX_BATCH" and "TxQueue_tx f (txq d) (tx_batch d) w = Done (0, tx_batch d, w1)"
    and "rx_batch d = b @ [m]" and "queue_id d = 0" and "Mbuf_alloc f (mem_pool_inner (mempool d)) w1 = (Some x, w2)"
  shows "\<exists>d'. receive f iter d H w = Done (Some m, d', H, w1) \<and> is_panic (TxToken_consume f d' len g w1)"
proof -
  have tx: "tx_batch d \<noteq> []" using assms(1) by auto
  have "receive f iter d H w = Done (Some m, d\<lparr>rx_batch := b\<rparr>, H, w1)"
    using assms tx by (simp add: receive_def poll_rx_def flush_tx_def inject_from_shared_cache_def)
  moreover have "is_panic (TxToken_consume f (d\<lparr>rx_batch := b\<rparr>) len g w1)"
    using assms(1,5) by (simp add: TxToken_consume_def MemPool_try_alloc_def try_push_def split: prod.splits)
  ultimately show ?thesis by blast
qed

theorem receive_token_panics_witness:
  "\<exists>w1 d'. receive sim_ffi id (sim_device\<lparr>tx_batch := map Mbuf [2..<258], rx_batch := [Mbuf 1]\<rparr>)
      (\<lambda>_. SharedArpCache_new) (sim_start 300 [] 0) = Done (Some (Mbuf 1), d', \<lambda>_. SharedArpCache_new, w1)
    \<and> is_panic (TxToken_consume sim_ffi d' 60 (\<lambda>bs. ((), bs)) w1)"
proof -
  let ?d = "sim_device\<lparr>tx_batch := map Mbuf [2..<258], rx_batch := [Mbuf 1]\<rparr>" and ?w = "sim_start 300 [] 0"
  obtain w1 where tx: "TxQueue_tx sim_ffi (txq ?d) (tx_batch ?d) ?w = Done (0, tx_batch ?d, w1)" "pool_free w1 = 300"
    by (simp add: TxQueue_tx_def sim_device_def sim_ffi_def sim_tx_burst_def sim_start_def Let_def)
  have a: "Mbuf_alloc sim_ffi (mem_pool_inner (mempool ?d)) w1 = (Some (Mbuf (Suc (next_ptr w1))), snd (sim_alloc 7 w1))"
    using sim_Mbuf_alloc(1) [of w1 7] tx(2) by (simp add: sim_device_def)
  have "length (tx_batch ?d) = 256" "rx_batch ?d = [] @ [Mbuf 1]" "queue_id ?d = 0" by (simp_all add: sim_device_def)
  from receive_token_panics [OF this(1) tx(1) this(2,3) a, of id "\<lambda>_. SharedArpCache_new" 60 "\<lambda>bs. ((), bs)"]
  show ?thesis by blast
qed

end
