(* ===== verification/Smoltcp.thy ===== *)
theory Smoltcp
  imports Arp_Cache
begin

section \<open>The TCP/IP stack the reactor drives\<close>

text \<open>
  smoltcp is not part of the repository. The functions of it that the runtime and the sockets call are
  the fields of the record \<open>smol\<close>, over a type \<open>'S\<close> of socket sets, \<open>'t\<close> and \<open>'u\<close> of TCP and UDP sockets,
  \<open>'i\<close> of interfaces and \<open>'d\<close> of devices. A mutable borrow of a socket in a set is a read followed by
  \<open>sockets_put\<close>. The predicates \<open>..._law\<close> state what the code relies on; the reference stack at the end
  satisfies them and serves the witnesses.
\<close>

type_synonym socket_handle = nat
type_synonym waker = nat
type_synonym instant = nat

datatype tcp_state = Closed | Listen | SynSent | SynReceived | Established | FinWait1 | FinWait2
  | CloseWait | Closing | LastAck | TimeWait

datatype ip_address = Ipv4Address ipv4 | Ipv6Address "u8 list"

record ip_endpoint =
  ep_addr :: ip_address
  ep_port :: u16

datatype listen_error = Listen_InvalidState | Listen_Unaddressable
datatype connect_error = Connect_InvalidState | Connect_Unaddressable
datatype tcp_recv_error = Recv_InvalidState | Recv_Finished
datatype tcp_send_error = Send_InvalidState
datatype udp_bind_error = Bind_InvalidState | Bind_Unaddressable
datatype udp_send_error = Send_Unaddressable | Send_BufferFull
datatype udp_recv_error = Recv_Exhausted | Recv_Truncated

datatype ingress_result = Ingress_None | Ingress_PacketProcessed | Ingress_SocketStateChanged

datatype ('t, 'u) sock = Tcp_sock 't | Udp_sock 'u

record ('S, 't, 'u, 'i, 'd) smol =
  sockets_new :: 'S
  sockets_add :: "('t, 'u) sock \<Rightarrow> 'S \<Rightarrow> socket_handle \<times> 'S"
  sockets_get :: "'S \<Rightarrow> socket_handle \<Rightarrow> ('t, 'u) sock option"
  sockets_put :: "socket_handle \<Rightarrow> ('t, 'u) sock \<Rightarrow> 'S \<Rightarrow> 'S"
  sockets_remove :: "socket_handle \<Rightarrow> 'S \<Rightarrow> 'S"
  tcp_new :: "nat \<Rightarrow> nat \<Rightarrow> 't"
  tcp_listen :: "u16 \<Rightarrow> 't \<Rightarrow> listen_error + 't"
  tcp_connect :: "'i \<Rightarrow> ip_endpoint \<Rightarrow> u16 \<Rightarrow> 't \<Rightarrow> connect_error + 't"
  tcp_state_of :: "'t \<Rightarrow> tcp_state"
  tcp_is_active :: "'t \<Rightarrow> bool"
  tcp_recv_slice :: "nat \<Rightarrow> 't \<Rightarrow> (tcp_recv_error + u8 list) \<times> 't"
  tcp_send_slice :: "u8 list \<Rightarrow> 't \<Rightarrow> (tcp_send_error + nat) \<times> 't"
  tcp_send_queue :: "'t \<Rightarrow> nat"
  tcp_close :: "'t \<Rightarrow> 't"
  tcp_abort :: "'t \<Rightarrow> 't"
  tcp_register_recv_waker :: "waker \<Rightarrow> 't \<Rightarrow> 't"
  tcp_register_send_waker :: "waker \<Rightarrow> 't \<Rightarrow> 't"
  udp_new :: "nat \<Rightarrow> nat \<Rightarrow> nat \<Rightarrow> nat \<Rightarrow> 'u"
  udp_bind :: "u16 \<Rightarrow> 'u \<Rightarrow> udp_bind_error + 'u"
  udp_is_open :: "'u \<Rightarrow> bool"
  udp_endpoint :: "'u \<Rightarrow> ip_address option \<times> u16"
  udp_send_slice :: "u8 list \<Rightarrow> ip_endpoint \<Rightarrow> 'u \<Rightarrow> (udp_send_error + unit) \<times> 'u"
  udp_recv_slice :: "nat \<Rightarrow> 'u \<Rightarrow> (udp_recv_error + u8 list \<times> ip_endpoint) \<times> 'u"
  udp_close :: "'u \<Rightarrow> 'u"
  udp_register_recv_waker :: "waker \<Rightarrow> 'u \<Rightarrow> 'u"
  udp_register_send_waker :: "waker \<Rightarrow> 'u \<Rightarrow> 'u"
  iface_ip_addrs :: "'i \<Rightarrow> (ip_address \<times> nat) list"
  iface_poll_ingress_single :: "instant \<Rightarrow> 'd \<Rightarrow> 'i \<Rightarrow> 'S \<Rightarrow> ingress_result \<times> 'd \<times> 'i \<times> 'S"
  iface_poll_egress :: "instant \<Rightarrow> 'd \<Rightarrow> 'i \<Rightarrow> 'S \<Rightarrow> 'd \<times> 'i \<times> 'S"

subsection \<open>Laws\<close>

text \<open>A socket set maps the handles it gave out to their sockets until they are removed.\<close>

definition set_law :: "('S, 't, 'u, 'i, 'd, 'z) smol_scheme \<Rightarrow> bool" where
  "set_law F \<longleftrightarrow>
     (\<forall>h. sockets_get F (sockets_new F) h = None)
     \<and> (\<forall>x S h S'. sockets_add F x S = (h, S') \<longrightarrow>
          sockets_get F S h = None \<and> sockets_get F S' h = Some x
          \<and> (\<forall>k. k \<noteq> h \<longrightarrow> sockets_get F S' k = sockets_get F S k))
     \<and> (\<forall>h x S k. sockets_get F S h \<noteq> None \<longrightarrow>
          sockets_get F (sockets_put F h x S) k = (if k = h then Some x else sockets_get F S k))
     \<and> (\<forall>h S k. sockets_get F S h \<noteq> None \<longrightarrow>
          sockets_get F (sockets_remove F h S) k = (if k = h then None else sockets_get F S k))"

text \<open>Polling the interface neither adds nor removes a socket nor changes its kind.\<close>

primrec is_tcp :: "('t, 'u) sock \<Rightarrow> bool" where
  "is_tcp (Tcp_sock t) = True"
| "is_tcp (Udp_sock u) = False"

definition same_kinds :: "('S, 't, 'u, 'i, 'd, 'z) smol_scheme \<Rightarrow> 'S \<Rightarrow> 'S \<Rightarrow> bool" where
  "same_kinds F S S' \<longleftrightarrow> (\<forall>h. map_option is_tcp (sockets_get F S' h) = map_option is_tcp (sockets_get F S h))"

definition poll_law :: "('S, 't, 'u, 'i, 'd, 'z) smol_scheme \<Rightarrow> bool" where
  "poll_law F \<longleftrightarrow>
     (\<forall>ts d i S r d' i' S'. iface_poll_ingress_single F ts d i S = (r, d', i', S') \<longrightarrow> same_kinds F S S')
     \<and> (\<forall>ts d i S d' i' S'. iface_poll_egress F ts d i S = (d', i', S') \<longrightarrow> same_kinds F S S')"

text \<open>
  The states of a TCP socket through the calls the sockets make: a new socket is closed and listens or
  connects from there; registering a waker changes nothing that can be observed; \<open>close\<close> starts the
  shutdown that fits the state and \<open>abort\<close> ends the connection.
\<close>

primrec state_after_close :: "tcp_state \<Rightarrow> tcp_state" where
  "state_after_close Closed = Closed"
| "state_after_close Listen = Closed"
| "state_after_close SynSent = Closed"
| "state_after_close SynReceived = FinWait1"
| "state_after_close Established = FinWait1"
| "state_after_close FinWait1 = FinWait1"
| "state_after_close FinWait2 = FinWait2"
| "state_after_close CloseWait = LastAck"
| "state_after_close Closing = Closing"
| "state_after_close LastAck = LastAck"
| "state_after_close TimeWait = TimeWait"

definition tcp_state_law :: "('S, 't, 'u, 'i, 'd, 'z) smol_scheme \<Rightarrow> bool" where
  "tcp_state_law F \<longleftrightarrow>
     (\<forall>p rx tx rx' tx'. isl (tcp_listen F p (tcp_new F rx tx)) = isl (tcp_listen F p (tcp_new F rx' tx')))
     \<and> (\<forall>p rx tx t. tcp_listen F p (tcp_new F rx tx) = Inr t \<longrightarrow> tcp_state_of F t = Listen)
     \<and> (\<forall>i ep p rx tx t. tcp_connect F i ep p (tcp_new F rx tx) = Inr t \<longrightarrow> tcp_state_of F t = SynSent)
     \<and> (\<forall>k t. tcp_state_of F (tcp_register_recv_waker F k t) = tcp_state_of F t)
     \<and> (\<forall>k t. tcp_state_of F (tcp_register_send_waker F k t) = tcp_state_of F t)
     \<and> (\<forall>t. tcp_state_of F (tcp_close F t) = state_after_close (tcp_state_of F t))
     \<and> (\<forall>t. tcp_state_of F (tcp_abort F t) = Closed)"

text \<open>
  The two byte streams of a TCP socket: \<open>sent t\<close> are the bytes it has accepted for sending so far and
  \<open>got t\<close> those it has handed to the application.
\<close>

definition tcp_stream_law ::
  "('S, 't, 'u, 'i, 'd, 'z) smol_scheme \<Rightarrow> ('t \<Rightarrow> u8 list) \<Rightarrow> ('t \<Rightarrow> u8 list) \<Rightarrow> bool" where
  "tcp_stream_law F sent got \<longleftrightarrow>
     (\<forall>bs t n t'. tcp_send_slice F bs t = (Inr n, t') \<longrightarrow>
        n \<le> length bs \<and> sent t' = sent t @ take n bs \<and> got t' = got t)
     \<and> (\<forall>bs t e t'. tcp_send_slice F bs t = (Inl e, t') \<longrightarrow> sent t' = sent t \<and> got t' = got t)
     \<and> (\<forall>n t bs t'. tcp_recv_slice F n t = (Inr bs, t') \<longrightarrow>
        length bs \<le> n \<and> got t' = got t @ bs \<and> sent t' = sent t)
     \<and> (\<forall>n t e t'. tcp_recv_slice F n t = (Inl e, t') \<longrightarrow> sent t' = sent t \<and> got t' = got t)
     \<and> (\<forall>k t. sent (tcp_register_recv_waker F k t) = sent t \<and> got (tcp_register_recv_waker F k t) = got t)
     \<and> (\<forall>k t. sent (tcp_register_send_waker F k t) = sent t \<and> got (tcp_register_send_waker F k t) = got t)
     \<and> (\<forall>t. sent (tcp_close F t) = sent t \<and> got (tcp_close F t) = got t)"

subsection \<open>Reading the laws\<close>

lemma set_lawD:
  assumes "set_law F"
  shows "sockets_get F (sockets_new F) k = None"
    "sockets_add F x S = (h, S') \<Longrightarrow> sockets_get F S h = None"
    "sockets_add F x S = (h, S') \<Longrightarrow> sockets_get F S' k = (if k = h then Some x else sockets_get F S k)"
    "sockets_get F S h \<noteq> None \<Longrightarrow> sockets_get F (sockets_put F h x S) k = (if k = h then Some x else sockets_get F S k)"
    "sockets_get F S h \<noteq> None \<Longrightarrow> sockets_get F (sockets_remove F h S) k = (if k = h then None else sockets_get F S k)"
  using assms unfolding set_law_def by (blast, blast, auto)

lemma poll_lawD:
  assumes "poll_law F"
  shows "iface_poll_ingress_single F ts d i S = (r, d', i', S') \<Longrightarrow> same_kinds F S S'"
    "iface_poll_egress F ts d i S = (d', i', S') \<Longrightarrow> same_kinds F S S'"
  using assms unfolding poll_law_def by blast+

lemma tcp_state_lawD:
  assumes "tcp_state_law F"
  shows "isl (tcp_listen F p (tcp_new F rx tx)) = isl (tcp_listen F p (tcp_new F rx' tx'))"
    "tcp_listen F p (tcp_new F rx tx) = Inr t \<Longrightarrow> tcp_state_of F t = Listen"
    "tcp_connect F i ep p (tcp_new F rx tx) = Inr t \<Longrightarrow> tcp_state_of F t = SynSent"
    "tcp_state_of F (tcp_register_recv_waker F k t) = tcp_state_of F t"
    "tcp_state_of F (tcp_register_send_waker F k t) = tcp_state_of F t"
    "tcp_state_of F (tcp_close F t) = state_after_close (tcp_state_of F t)"
    "tcp_state_of F (tcp_abort F t) = Closed"
  using assms unfolding tcp_state_law_def by (metis, blast, blast, simp_all)

lemma same_kinds_refl [simp]: "same_kinds F S S"
  by (simp add: same_kinds_def)

lemma same_kinds_trans: "same_kinds F S S' \<Longrightarrow> same_kinds F S' S'' \<Longrightarrow> same_kinds F S S''"
  by (simp add: same_kinds_def)

subsection \<open>A reference stack\<close>

text \<open>
  An executable stack that satisfies the laws: sockets in a table, an interface that is a script of
  network events, and a transmit path that drains the send buffers.
\<close>

record ref_tcp =
  r_state :: tcp_state
  r_rx :: "u8 list"
  r_tx :: "u8 list"
  r_cap :: nat
  r_sent :: "u8 list"
  r_got :: "u8 list"
  r_wakers :: "waker list"

record ref_udp =
  r_port :: u16
  r_in :: "(u8 list \<times> ip_endpoint) list"
  r_out :: "(u8 list \<times> ip_endpoint) list"
  r_slots :: nat

type_synonym ref_sock = "(ref_tcp, ref_udp) sock"

record ref_set =
  r_next :: nat
  r_tab :: "nat \<Rightarrow> ref_sock option"

datatype ref_event = Ev_state socket_handle tcp_state | Ev_data socket_handle "u8 list"
  | Ev_dgram socket_handle "u8 list" ip_endpoint

definition ref_recv :: "nat \<Rightarrow> ref_tcp \<Rightarrow> (tcp_recv_error + u8 list) \<times> ref_tcp" where
  "ref_recv n t =
     (if r_rx t \<noteq> [] \<or> r_state t \<in> {Established, FinWait1, FinWait2}
      then (Inr (take n (r_rx t)), t\<lparr>r_rx := drop n (r_rx t), r_got := r_got t @ take n (r_rx t)\<rparr>)
      else if r_state t \<in> {CloseWait, LastAck, Closing, TimeWait} then (Inl Recv_Finished, t)
      else (Inl Recv_InvalidState, t))"

definition ref_send :: "u8 list \<Rightarrow> ref_tcp \<Rightarrow> (tcp_send_error + nat) \<times> ref_tcp" where
  "ref_send bs t =
     (if r_state t \<in> {Established, CloseWait}
      then (let n = min (length bs) (r_cap t - length (r_tx t))
            in (Inr n, t\<lparr>r_tx := r_tx t @ take n bs, r_sent := r_sent t @ take n bs\<rparr>))
      else (Inl Send_InvalidState, t))"

primrec ref_ingress :: "ref_event \<Rightarrow> ref_set \<Rightarrow> ref_set" where
  "ref_ingress (Ev_state h st) S =
     (case r_tab S h of
        Some (Tcp_sock t) \<Rightarrow> S\<lparr>r_tab := (r_tab S)(h \<mapsto> Tcp_sock (t\<lparr>r_state := st, r_wakers := []\<rparr>))\<rparr> | _ \<Rightarrow> S)"
| "ref_ingress (Ev_data h bs) S =
     (case r_tab S h of
        Some (Tcp_sock t) \<Rightarrow> S\<lparr>r_tab := (r_tab S)(h \<mapsto> Tcp_sock (t\<lparr>r_rx := r_rx t @ bs, r_wakers := []\<rparr>))\<rparr> | _ \<Rightarrow> S)"
| "ref_ingress (Ev_dgram h bs ep) S =
     (case r_tab S h of
        Some (Udp_sock u) \<Rightarrow> S\<lparr>r_tab := (r_tab S)(h \<mapsto> Udp_sock (u\<lparr>r_in := r_in u @ [(bs, ep)]\<rparr>))\<rparr> | _ \<Rightarrow> S)"

definition ref_drain :: "ref_sock \<Rightarrow> ref_sock" where
  "ref_drain x = (case x of Tcp_sock t \<Rightarrow> Tcp_sock (t\<lparr>r_tx := []\<rparr>) | Udp_sock u \<Rightarrow> Udp_sock (u\<lparr>r_out := []\<rparr>))"

definition ref_smol :: "(ref_set, ref_tcp, ref_udp, ref_event list, nat) smol" where
  "ref_smol = \<lparr>
     sockets_new = \<lparr>r_next = 0, r_tab = (\<lambda>_. None)\<rparr>,
     sockets_add = (\<lambda>x S. (r_next S, \<lparr>r_next = Suc (r_next S),
       r_tab = (\<lambda>k. if k = r_next S then Some x else if k < r_next S then r_tab S k else None)\<rparr>)),
     sockets_get = (\<lambda>S h. if h < r_next S then r_tab S h else None),
     sockets_put = (\<lambda>h x S. S\<lparr>r_tab := (r_tab S)(h \<mapsto> x)\<rparr>),
     sockets_remove = (\<lambda>h S. S\<lparr>r_tab := (r_tab S)(h := None)\<rparr>),
     tcp_new = (\<lambda>rx tx. \<lparr>r_state = Closed, r_rx = [], r_tx = [], r_cap = tx, r_sent = [], r_got = [], r_wakers = []\<rparr>),
     tcp_listen = (\<lambda>p t. if p = 0 then Inl Listen_Unaddressable
                        else if r_state t \<noteq> Closed then Inl Listen_InvalidState else Inr (t\<lparr>r_state := Listen\<rparr>)),
     tcp_connect = (\<lambda>i ep p t. if r_state t \<noteq> Closed then Inl Connect_InvalidState
                        else if ep_port ep = 0 \<or> p = 0 then Inl Connect_Unaddressable
                        else Inr (t\<lparr>r_state := SynSent\<rparr>)),
     tcp_state_of = r_state,
     tcp_is_active = (\<lambda>t. r_state t \<notin> {Closed, TimeWait, Listen}),
     tcp_recv_slice = ref_recv, tcp_send_slice = ref_send, tcp_send_queue = (\<lambda>t. length (r_tx t)),
     tcp_close = (\<lambda>t. t\<lparr>r_state := state_after_close (r_state t)\<rparr>),
     tcp_abort = (\<lambda>t. t\<lparr>r_state := Closed\<rparr>),
     tcp_register_recv_waker = (\<lambda>k t. t\<lparr>r_wakers := k # r_wakers t\<rparr>),
     tcp_register_send_waker = (\<lambda>k t. t\<lparr>r_wakers := k # r_wakers t\<rparr>),
     udp_new = (\<lambda>rxn rxb txn txb. \<lparr>r_port = 0, r_in = [], r_out = [], r_slots = txn\<rparr>),
     udp_bind = (\<lambda>p u. if p = 0 then Inl Bind_Unaddressable
                       else if r_port u \<noteq> 0 then Inl Bind_InvalidState else Inr (u\<lparr>r_port := p\<rparr>)),
     udp_is_open = (\<lambda>u. r_port u \<noteq> 0),
     udp_endpoint = (\<lambda>u. (None, r_port u)),
     udp_send_slice = (\<lambda>bs ep u. if ep_port ep = 0 then (Inl Send_Unaddressable, u)
        else if r_slots u \<le> length (r_out u) then (Inl Send_BufferFull, u)
        else (Inr (), u\<lparr>r_out := r_out u @ [(bs, ep)]\<rparr>)),
     udp_recv_slice = (\<lambda>n u. case r_in u of [] \<Rightarrow> (Inl Recv_Exhausted, u)
        | (bs, ep) # rest \<Rightarrow> (if n < length bs then Inl Recv_Truncated else Inr (bs, ep), u\<lparr>r_in := rest\<rparr>)),
     udp_close = (\<lambda>u. u\<lparr>r_port := 0, r_in := [], r_out := []\<rparr>),
     udp_register_recv_waker = (\<lambda>k u. u), udp_register_send_waker = (\<lambda>k u. u),
     iface_ip_addrs = (\<lambda>i. [(Ipv4Address (Ipv4 10 0 0 5), 24)]),
     iface_poll_ingress_single = (\<lambda>ts d i S. case i of [] \<Rightarrow> (Ingress_None, d, i, S)
        | ev # i' \<Rightarrow> (Ingress_SocketStateChanged, d, i', ref_ingress ev S)),
     iface_poll_egress = (\<lambda>ts d i S. (Suc d, i, S\<lparr>r_tab := (\<lambda>h. map_option ref_drain (r_tab S h))\<rparr>))\<rparr>"

lemma ref_set_law: "set_law ref_smol"
  unfolding set_law_def by (auto simp: ref_smol_def)

lemma ref_poll_law: "poll_law ref_smol"
proof -
  have drain: "is_tcp (ref_drain x) = is_tcp x" for x by (cases x) (simp_all add: ref_drain_def)
  have ingress: "same_kinds ref_smol S (ref_ingress ev S)" for ev S
    by (cases ev) (auto simp: same_kinds_def ref_smol_def split: option.splits sock.splits)
  have egress: "same_kinds ref_smol S (S\<lparr>r_tab := (\<lambda>h. map_option ref_drain (r_tab S h))\<rparr>)" for S
    by (simp add: same_kinds_def ref_smol_def option.map_comp o_def drain)
  have "iface_poll_ingress_single ref_smol ts d i S = (case i of [] \<Rightarrow> (Ingress_None, d, i, S)
        | ev # i' \<Rightarrow> (Ingress_SocketStateChanged, d, i', ref_ingress ev S))"
    "iface_poll_egress ref_smol ts d i S = (Suc d, i, S\<lparr>r_tab := (\<lambda>h. map_option ref_drain (r_tab S h))\<rparr>)"
    for ts d i S by (simp_all add: ref_smol_def)
  with ingress egress show ?thesis
    unfolding poll_law_def by (auto split: list.splits)
qed

lemma ref_tcp_state_law: "tcp_state_law ref_smol"
  unfolding tcp_state_law_def by (auto simp: ref_smol_def split: if_splits)

lemma ref_stream_law: "tcp_stream_law ref_smol r_sent r_got"
  unfolding tcp_stream_law_def
  by (auto simp: ref_smol_def ref_send_def ref_recv_def Let_def split: if_splits)

end
