(* ===== verification/Reactor.thy ===== *)
theory Reactor
  imports Smoltcp
begin

section \<open>The reactor (runtime/reactor.rs)\<close>

text \<open>
  \<open>ReactorInner\<close> is the state the sockets share through \<open>Rc<RefCell<..>>\<close>; it is passed explicitly, since
  the runtime is single threaded and no borrow is held across a call to another task. An access to a
  socket whose handle is not in the set, or is of the other kind, panics in smoltcp and here. A task's
  suspension in \<open>run_with_batch_size\<close> is a function that says what the other tasks did meanwhile.
\<close>

record ('d, 'i, 'S) reactor_inner =
  device :: 'd
  iface :: 'i
  sockets :: 'S
  orphaned_closing :: "socket_handle list"

definition DEFAULT_INGRESS_BATCH_SIZE :: nat where
  "DEFAULT_INGRESS_BATCH_SIZE = 32"

definition get_tcp :: "('S, 't, 'u, 'i, 'd, 'z) smol_scheme \<Rightarrow> 'S \<Rightarrow> socket_handle \<Rightarrow> 't outcome" where
  "get_tcp F S h =
     (case sockets_get F S h of
        Some (Tcp_sock t) \<Rightarrow> Done t
      | Some (Udp_sock u) \<Rightarrow> Panic ''socket has the wrong type''
      | None \<Rightarrow> Panic ''handle does not refer to a valid socket'')"

definition get_udp :: "('S, 't, 'u, 'i, 'd, 'z) smol_scheme \<Rightarrow> 'S \<Rightarrow> socket_handle \<Rightarrow> 'u outcome" where
  "get_udp F S h =
     (case sockets_get F S h of
        Some (Udp_sock u) \<Rightarrow> Done u
      | Some (Tcp_sock t) \<Rightarrow> Panic ''socket has the wrong type''
      | None \<Rightarrow> Panic ''handle does not refer to a valid socket'')"

text \<open>\<open>YieldNow\<close>: pending once, with the waker called, then ready.\<close>

definition YieldNow_poll :: "bool \<Rightarrow> unit poll \<times> bool \<times> bool" where
  "YieldNow_poll yielded = (if yielded then (Ready (), yielded, False) else (Pending, True, True))"

definition ReactorInner_poll_ingress_single ::
  "('S, 't, 'u, 'i, 'd, 'z) smol_scheme \<Rightarrow> instant \<Rightarrow> ('d, 'i, 'S) reactor_inner
     \<Rightarrow> ingress_result \<times> ('d, 'i, 'S) reactor_inner" where
  "ReactorInner_poll_ingress_single F ts R =
     (case iface_poll_ingress_single F ts (device R) (iface R) (sockets R) of
        (r, d, i, S) \<Rightarrow> (r, R\<lparr>device := d, iface := i, sockets := S\<rparr>))"

definition ReactorInner_poll_egress ::
  "('S, 't, 'u, 'i, 'd, 'z) smol_scheme \<Rightarrow> instant \<Rightarrow> ('d, 'i, 'S) reactor_inner \<Rightarrow> ('d, 'i, 'S) reactor_inner" where
  "ReactorInner_poll_egress F ts R =
     (case iface_poll_egress F ts (device R) (iface R) (sockets R) of
        (d, i, S) \<Rightarrow> R\<lparr>device := d, iface := i, sockets := S\<rparr>)"

primrec retain_orphans ::
  "('S, 't, 'u, 'i, 'd, 'z) smol_scheme \<Rightarrow> socket_handle list \<Rightarrow> 'S \<Rightarrow> (socket_handle list \<times> 'S) outcome" where
  "retain_orphans F [] S = Done ([], S)"
| "retain_orphans F (h # hs) S =
     outcome_bind (get_tcp F S h) (\<lambda>t.
       if tcp_state_of F t = Closed \<or> tcp_state_of F t = TimeWait
       then retain_orphans F hs (sockets_remove F h S)
       else outcome_bind (retain_orphans F hs S) (\<lambda>(keep, S'). Done (h # keep, S')))"

definition cleanup_orphaned ::
  "('S, 't, 'u, 'i, 'd, 'z) smol_scheme \<Rightarrow> ('d, 'i, 'S) reactor_inner \<Rightarrow> ('d, 'i, 'S) reactor_inner outcome" where
  "cleanup_orphaned F R =
     outcome_bind (retain_orphans F (orphaned_closing R) (sockets R))
       (\<lambda>(keep, S). Done (R\<lparr>orphaned_closing := keep, sockets := S\<rparr>))"

definition Reactor_new :: "('S, 't, 'u, 'i, 'd, 'z) smol_scheme \<Rightarrow> 'd \<Rightarrow> 'i \<Rightarrow> ('d, 'i, 'S) reactor_inner" where
  "Reactor_new F d i = \<lparr>device = d, iface = i, sockets = sockets_new F, orphaned_closing = []\<rparr>"

text \<open>The inner loop, with the results of its polls; it ends because \<open>packets_processed\<close> grows.\<close>

function ingress_loop ::
  "('S, 't, 'u, 'i, 'd, 'z) smol_scheme \<Rightarrow> nat \<Rightarrow> instant \<Rightarrow> nat \<Rightarrow> ('d, 'i, 'S) reactor_inner
     \<Rightarrow> ingress_result list \<times> ('d, 'i, 'S) reactor_inner" where
  "ingress_loop F batch_size ts packets_processed R =
     (case ReactorInner_poll_ingress_single F ts R of
        (result, R') \<Rightarrow>
          if result = Ingress_None then ([result], R')
          else if packets_processed + 1 \<ge> batch_size then ([result], R')
          else (case ingress_loop F batch_size ts (packets_processed + 1) R' of
                  (rs, R'') \<Rightarrow> (result # rs, R'')))"
  by pat_completeness auto
termination
  by (relation "measure (\<lambda>(F, batch_size, ts, packets_processed, R). batch_size - packets_processed)") auto

declare ingress_loop.simps [simp del]

definition reactor_turn ::
  "('S, 't, 'u, 'i, 'd, 'z) smol_scheme \<Rightarrow> nat \<Rightarrow> instant \<Rightarrow> ('d, 'i, 'S) reactor_inner
     \<Rightarrow> ('d, 'i, 'S) reactor_inner outcome" where
  "reactor_turn F batch_size ts R =
     (case ingress_loop F batch_size ts 0 R of
        (rs, R) \<Rightarrow> cleanup_orphaned F (ReactorInner_poll_egress F ts R))"

text \<open>
  The outer loop over what it observes at each turn: the cancel flag, the time, and what other tasks do
  while it yields. The flag in the result says whether the loop has returned.
\<close>

fun run_with_batch_size ::
  "('S, 't, 'u, 'i, 'd, 'z) smol_scheme \<Rightarrow> nat
     \<Rightarrow> (bool \<times> instant \<times> (('d, 'i, 'S) reactor_inner \<Rightarrow> ('d, 'i, 'S) reactor_inner)) list
     \<Rightarrow> ('d, 'i, 'S) reactor_inner \<Rightarrow> (bool \<times> ('d, 'i, 'S) reactor_inner) outcome" where
  "run_with_batch_size F batch_size [] R = Done (False, R)"
| "run_with_batch_size F batch_size ((cancel, ts, others) # obs) R =
     (if cancel then Done (True, R)
      else outcome_bind (reactor_turn F batch_size ts R)
             (\<lambda>R. run_with_batch_size F batch_size obs (others R)))"

definition Reactor_run where
  "Reactor_run F obs R = run_with_batch_size F DEFAULT_INGRESS_BATCH_SIZE obs R"

definition ReactorHandle_ip_addr ::
  "('S, 't, 'u, 'i, 'd, 'z) smol_scheme \<Rightarrow> ('d, 'i, 'S) reactor_inner \<Rightarrow> ip_address option" where
  "ReactorHandle_ip_addr F R =
     (case iface_ip_addrs F (iface R) of [] \<Rightarrow> None | cidr # cidrs \<Rightarrow> Some (fst cidr))"

subsection \<open>Handles that stay valid\<close>

definition tcp_at :: "('S, 't, 'u, 'i, 'd, 'z) smol_scheme \<Rightarrow> 'S \<Rightarrow> socket_handle \<Rightarrow> bool" where
  "tcp_at F S h \<longleftrightarrow> map_option is_tcp (sockets_get F S h) = Some True"

definition udp_at :: "('S, 't, 'u, 'i, 'd, 'z) smol_scheme \<Rightarrow> 'S \<Rightarrow> socket_handle \<Rightarrow> bool" where
  "udp_at F S h \<longleftrightarrow> map_option is_tcp (sockets_get F S h) = Some False"

lemma tcp_at_iff: "tcp_at F S h \<longleftrightarrow> (\<exists>t. sockets_get F S h = Some (Tcp_sock t))"
proof -
  have "is_tcp x \<longleftrightarrow> (\<exists>t. x = Tcp_sock t)" for x by (cases x) auto
  then show ?thesis by (auto simp: tcp_at_def)
qed

lemma udp_at_iff: "udp_at F S h \<longleftrightarrow> (\<exists>u. sockets_get F S h = Some (Udp_sock u))"
proof -
  have "\<not> is_tcp x \<longleftrightarrow> (\<exists>u. x = Udp_sock u)" for x by (cases x) auto
  then show ?thesis by (auto simp: udp_at_def)
qed

lemma get_tcp_Done: "get_tcp F S h = Done t \<longleftrightarrow> sockets_get F S h = Some (Tcp_sock t)"
  by (auto simp: get_tcp_def split: option.splits sock.splits)

lemma get_udp_Done: "get_udp F S h = Done u \<longleftrightarrow> sockets_get F S h = Some (Udp_sock u)"
  by (auto simp: get_udp_def split: option.splits sock.splits)

lemma same_kinds_at: "same_kinds F S S' \<Longrightarrow> tcp_at F S' h = tcp_at F S h \<and> udp_at F S' h = udp_at F S h"
  by (simp add: same_kinds_def tcp_at_def udp_at_def)

definition closing_done :: "('S, 't, 'u, 'i, 'd, 'z) smol_scheme \<Rightarrow> 'S \<Rightarrow> socket_handle \<Rightarrow> bool" where
  "closing_done F S h \<longleftrightarrow> (\<exists>t. sockets_get F S h = Some (Tcp_sock t) \<and> tcp_state_of F t \<in> {Closed, TimeWait})"

lemma retain_orphans_spec:
  assumes law: "set_law F" and "distinct hs" and "\<forall>h \<in> set hs. tcp_at F S h"
  shows "\<exists>S'. retain_orphans F hs S = Done (filter (\<lambda>h. \<not> closing_done F S h) hs, S')
    \<and> (\<forall>k. sockets_get F S' k = (if k \<in> set hs \<and> closing_done F S k then None else sockets_get F S k))"
  using assms(2,3)
proof (induction hs arbitrary: S)
  case (Cons h hs)
  from Cons.prems obtain t where t: "sockets_get F S h = Some (Tcp_sock t)" by (auto simp: tcp_at_iff)
  show ?case
  proof (cases "tcp_state_of F t = Closed \<or> tcp_state_of F t = TimeWait")
    case True
    let ?S = "sockets_remove F h S"
    have get: "sockets_get F ?S k = (if k = h then None else sockets_get F S k)" for k
      using set_lawD(5) [OF law] t by simp
    have cd: "closing_done F ?S k = closing_done F S k" if "k \<noteq> h" for k
      using that by (simp add: closing_done_def get)
    have "\<forall>k \<in> set hs. tcp_at F ?S k" using Cons.prems by (auto simp: tcp_at_def get)
    with Cons obtain S' where S': "retain_orphans F hs ?S = Done (filter (\<lambda>h. \<not> closing_done F ?S h) hs, S')"
      "\<forall>k. sockets_get F S' k = (if k \<in> set hs \<and> closing_done F ?S k then None else sockets_get F ?S k)"
      by fastforce
    have "filter (\<lambda>h. \<not> closing_done F ?S h) hs = filter (\<lambda>h. \<not> closing_done F S h) hs"
      by (rule filter_cong [OF refl]) (metis Cons.prems(1) cd distinct.simps(2))
    with S' True t Cons.prems(1) show ?thesis
      by (auto simp: get_tcp_def get cd closing_done_def)
  next
    case False
    from Cons obtain S' where S': "retain_orphans F hs S = Done (filter (\<lambda>h. \<not> closing_done F S h) hs, S')"
      "\<forall>k. sockets_get F S' k = (if k \<in> set hs \<and> closing_done F S k then None else sockets_get F S k)"
      by fastforce
    have "\<not> closing_done F S h" using False t by (auto simp: closing_done_def)
    with S' False t show ?thesis by (auto simp: get_tcp_def)
  qed
qed simp

subsection \<open>A turn of the reactor\<close>

definition orphans_ok :: "('S, 't, 'u, 'i, 'd, 'z) smol_scheme \<Rightarrow> ('d, 'i, 'S) reactor_inner \<Rightarrow> bool" where
  "orphans_ok F R \<longleftrightarrow> distinct (orphaned_closing R) \<and> (\<forall>h \<in> set (orphaned_closing R). tcp_at F (sockets R) h)"

lemma poll_ingress_same:
  assumes "poll_law F" and "ReactorInner_poll_ingress_single F ts R = (r, R')"
  shows "orphaned_closing R' = orphaned_closing R" "same_kinds F (sockets R) (sockets R')"
  using assms poll_lawD(1) [OF assms(1)]
  by (auto simp: ReactorInner_poll_ingress_single_def split: prod.splits)

lemma poll_egress_same:
  assumes "poll_law F"
  shows "orphaned_closing (ReactorInner_poll_egress F ts R) = orphaned_closing R"
    "same_kinds F (sockets R) (sockets (ReactorInner_poll_egress F ts R))"
  using poll_lawD(2) [OF assms] by (auto simp: ReactorInner_poll_egress_def split: prod.splits)

lemma ingress_loop_step:
  assumes "ReactorInner_poll_ingress_single F ts R = (r, R1)"
  shows "ingress_loop F n ts k R =
    (if r = Ingress_None \<or> n \<le> Suc k then ([r], R1)
     else (case ingress_loop F n ts (Suc k) R1 of (rs, R2) \<Rightarrow> (r # rs, R2)))"
  using assms by (simp add: ingress_loop.simps [of F n ts k R])

lemma ingress_loop_spec:
  assumes law: "poll_law F" and "ingress_loop F n ts k R = (rs, R')"
  shows "orphaned_closing R' = orphaned_closing R \<and> same_kinds F (sockets R) (sockets R')
    \<and> rs \<noteq> [] \<and> length rs \<le> max 1 (n - k) \<and> Ingress_None \<notin> set (butlast rs)
    \<and> (last rs = Ingress_None \<or> length rs = max 1 (n - k))"
  using assms(2)
proof (induction "n - k" arbitrary: k R rs rule: less_induct)
  case less
  obtain r R1 where p: "ReactorInner_poll_ingress_single F ts R = (r, R1)" by fastforce
  note same = poll_ingress_same [OF law p]
  show ?case
  proof (cases "r = Ingress_None \<or> n \<le> Suc k")
    case True
    with less.prems have "rs = [r]" "R' = R1" by (auto simp: ingress_loop_step [OF p])
    with same True show ?thesis by auto
  next
    case False
    obtain rs1 R2 where rec: "ingress_loop F n ts (Suc k) R1 = (rs1, R2)" by fastforce
    with less.prems False have eq: "rs = r # rs1" "R' = R2" by (auto simp: ingress_loop_step [OF p])
    have "n - Suc k < n - k" using False by auto
    from less.hyps [OF this, of R1 rs1] rec eq(2)
    have ih: "orphaned_closing R' = orphaned_closing R1" "same_kinds F (sockets R1) (sockets R')"
      "rs1 \<noteq> []" "length rs1 \<le> max 1 (n - Suc k)" "Ingress_None \<notin> set (butlast rs1)"
      "last rs1 = Ingress_None \<or> length rs1 = max 1 (n - Suc k)" by auto
    have "max 1 (n - Suc k) = n - Suc k" "max 1 (n - k) = Suc (n - Suc k)" using False by auto
    with ih same False show ?thesis by (auto simp: eq(1) intro: same_kinds_trans)
  qed
qed

lemma cleanup_spec:
  assumes "set_law F" and "orphans_ok F R"
  obtains S' where "cleanup_orphaned F R = Done (R\<lparr>orphaned_closing :=
      filter (\<lambda>h. \<not> closing_done F (sockets R) h) (orphaned_closing R), sockets := S'\<rparr>)"
    "\<forall>k. sockets_get F S' k =
      (if k \<in> set (orphaned_closing R) \<and> closing_done F (sockets R) k then None else sockets_get F (sockets R) k)"
proof -
  from retain_orphans_spec [OF assms(1), of "orphaned_closing R" "sockets R"] assms(2)
  obtain S' where "retain_orphans F (orphaned_closing R) (sockets R)
      = Done (filter (\<lambda>h. \<not> closing_done F (sockets R) h) (orphaned_closing R), S')"
    "\<forall>k. sockets_get F S' k = (if k \<in> set (orphaned_closing R) \<and> closing_done F (sockets R) k then None
       else sockets_get F (sockets R) k)" by (auto simp: orphans_ok_def)
  then show thesis by (intro that [of S']) (simp_all add: cleanup_orphaned_def)
qed

lemma orphans_ok_kinds:
  "orphans_ok F R \<Longrightarrow> orphaned_closing R' = orphaned_closing R \<Longrightarrow> same_kinds F (sockets R) (sockets R')
     \<Longrightarrow> orphans_ok F R'"
  using same_kinds_at [of F "sockets R" "sockets R'"] by (auto simp: orphans_ok_def)

text \<open>
  One turn. \<open>R1\<close> is the state in which the egress poll leaves the reactor: the sockets of all orphans
  are still in the set when it transmits, and only then are the closed ones removed.
\<close>

lemma reactor_turn_spec:
  assumes "set_law F" and "poll_law F" and "orphans_ok F R"
  obtains rs R0 R1 R' where "ingress_loop F n ts 0 R = (rs, R0)" "R1 = ReactorInner_poll_egress F ts R0"
    "\<forall>h \<in> set (orphaned_closing R). tcp_at F (sockets R0) h"
    "reactor_turn F n ts R = Done R'"
    "orphaned_closing R' = filter (\<lambda>h. \<not> closing_done F (sockets R1) h) (orphaned_closing R)"
    "\<forall>k. sockets_get F (sockets R') k =
       (if k \<in> set (orphaned_closing R) \<and> closing_done F (sockets R1) k then None else sockets_get F (sockets R1) k)"
    "same_kinds F (sockets R) (sockets R1)" "orphans_ok F R'" "device R' = device R1" "iface R' = iface R1"
proof -
  obtain rs R0 where i: "ingress_loop F n ts 0 R = (rs, R0)" by fastforce
  note i' = ingress_loop_spec [OF assms(2) i]
  define R1 where "R1 = ReactorInner_poll_egress F ts R0"
  note e = poll_egress_same [OF assms(2), where ts = ts and R = R0, folded R1_def]
  have ok0: "orphans_ok F R0" using orphans_ok_kinds [OF assms(3)] i' by blast
  have ok1: "orphans_ok F R1" by (rule orphans_ok_kinds [OF ok0 e])
  have orph: "orphaned_closing R1 = orphaned_closing R" using i' e by simp
  obtain S' where S': "cleanup_orphaned F R1 = Done (R1\<lparr>orphaned_closing :=
      filter (\<lambda>h. \<not> closing_done F (sockets R1) h) (orphaned_closing R1), sockets := S'\<rparr>)"
    "\<forall>k. sockets_get F S' k = (if k \<in> set (orphaned_closing R1) \<and> closing_done F (sockets R1) k then None
       else sockets_get F (sockets R1) k)" by (rule cleanup_spec [OF assms(1) ok1])
  let ?R = "R1\<lparr>orphaned_closing := filter (\<lambda>h. \<not> closing_done F (sockets R1) h) (orphaned_closing R1), sockets := S'\<rparr>"
  have "reactor_turn F n ts R = Done ?R" using i S'(1) by (simp add: reactor_turn_def R1_def)
  moreover have "orphans_ok F ?R" using ok1 S'(2) by (auto simp: orphans_ok_def tcp_at_def)
  ultimately show thesis
    using i ok0 i' e S'(2) orph
    by (intro that [where rs = rs and ?R0.0 = R0 and ?R1.0 = R1 and R' = ?R])
      (auto simp: R1_def orphans_ok_def intro: same_kinds_trans)
qed

subsection \<open>Properties\<close>

text \<open>
  C11. A turn of the reactor does bounded work and never panics. When the orphaned handles are distinct
  TCP sockets of the set, one turn polls the interface for at most \<open>max 1 batch_size\<close> packets, all but
  the last poll having found one, and fewer only when a poll found none; it then transmits while every
  orphan is still in the set (so that the RST of an aborted one can go out); only after that it removes
  exactly the orphans that are closed or in TIME-WAIT, keeps the others in order, touches no other
  socket, and leaves the orphans valid for the next turn.
\<close>

theorem reactor_turn_correct:
  assumes "set_law F" and "poll_law F" and "orphans_ok F R"
  shows "\<exists>rs R0 R'. ingress_loop F batch_size ts 0 R = (rs, R0) \<and> reactor_turn F batch_size ts R = Done R'
    \<and> length rs \<le> max 1 batch_size \<and> Ingress_None \<notin> set (butlast rs)
    \<and> (last rs = Ingress_None \<or> length rs = max 1 batch_size)
    \<and> (\<forall>h \<in> set (orphaned_closing R). tcp_at F (sockets R0) h)
    \<and> (let R1 = ReactorInner_poll_egress F ts R0
       in orphaned_closing R' = filter (\<lambda>h. \<not> closing_done F (sockets R1) h) (orphaned_closing R)
         \<and> (\<forall>k. sockets_get F (sockets R') k =
              (if k \<in> set (orphaned_closing R) \<and> closing_done F (sockets R1) k then None
               else sockets_get F (sockets R1) k)))
    \<and> orphans_ok F R'"
proof -
  obtain rs R0 R1 R' where t: "ingress_loop F batch_size ts 0 R = (rs, R0)" "R1 = ReactorInner_poll_egress F ts R0"
    "\<forall>h \<in> set (orphaned_closing R). tcp_at F (sockets R0) h" "reactor_turn F batch_size ts R = Done R'"
    "orphaned_closing R' = filter (\<lambda>h. \<not> closing_done F (sockets R1) h) (orphaned_closing R)"
    "\<forall>k. sockets_get F (sockets R') k =
       (if k \<in> set (orphaned_closing R) \<and> closing_done F (sockets R1) k then None else sockets_get F (sockets R1) k)"
    "same_kinds F (sockets R) (sockets R1)" "orphans_ok F R'" "device R' = device R1" "iface R' = iface R1"
    by (rule reactor_turn_spec [OF assms])
  from ingress_loop_spec [OF assms(2) t(1)] t(1,3-6,8) show ?thesis
    unfolding t(2) Let_def by (intro exI [of _ rs] exI [of _ R0] exI [of _ R'] conjI) simp_all
qed

definition ref_reactor :: "ref_event list \<Rightarrow> (nat, ref_event list, ref_set) reactor_inner" where
  "ref_reactor evs = (Reactor_new ref_smol 0 evs)\<lparr>
     sockets := snd (sockets_add ref_smol (Tcp_sock (tcp_new ref_smol 0 0)) (sockets_new ref_smol)),
     orphaned_closing := [0]\<rparr>"

lemma ref_reactor_ok: "orphans_ok ref_smol (ref_reactor evs)"
  by (simp add: orphans_ok_def ref_reactor_def Reactor_new_def ref_smol_def tcp_at_def)

theorem reactor_turn_correct_witness:
  "\<exists>rs R0 R'. ingress_loop ref_smol 2 0 0 (ref_reactor [Ev_data 0 [1], Ev_data 0 [2], Ev_data 0 [3]]) = (rs, R0)
     \<and> reactor_turn ref_smol 2 0 (ref_reactor [Ev_data 0 [1], Ev_data 0 [2], Ev_data 0 [3]]) = Done R' \<and> length rs \<le> 2"
  using reactor_turn_correct [OF ref_set_law ref_poll_law ref_reactor_ok, of 2 0 "[Ev_data 0 [1], Ev_data 0 [2], Ev_data 0 [3]]"]
  by auto



end
