(* ===== verification/Byte_Stream.thy ===== *)
theory Byte_Stream
  imports Net_Prelude
begin

section \<open>Byte streams polled by one task\<close>

text \<open>
  The contract of \<open>poll_write\<close> that the stream types share: a write that completes has accepted a
  beginning of the buffer, a pending or failed one nothing. Other tasks may run between two polls
  (\<open>env\<close>) but do not write to the stream. \<open>sends data i s j s'\<close> is a run of a writer that offers the
  rest of \<open>data\<close> at every poll and advances by what was accepted.
\<close>

locale byte_sink =
  fixes wr :: "nat \<Rightarrow> u8 list \<Rightarrow> 's \<Rightarrow> ((io_error + nat) poll \<times> 's) outcome"
    and accepted :: "'s \<Rightarrow> u8 list" and ok :: "'s \<Rightarrow> bool" and env :: "'s \<Rightarrow> 's \<Rightarrow> bool"
  assumes write_returns: "ok s \<Longrightarrow> \<exists>r s'. wr cx bs s = Done (r, s')"
    and write_ok: "ok s \<Longrightarrow> wr cx bs s = Done (r, s') \<Longrightarrow> ok s'"
    and write_ready: "ok s \<Longrightarrow> wr cx bs s = Done (Ready (Inr n), s') \<Longrightarrow>
      n \<le> length bs \<and> accepted s' = accepted s @ take n bs"
    and write_error: "ok s \<Longrightarrow> wr cx bs s = Done (Ready (Inl e), s') \<Longrightarrow> accepted s' = accepted s"
    and write_pending: "ok s \<Longrightarrow> wr cx bs s = Done (Pending, s') \<Longrightarrow> accepted s' = accepted s"
    and env_keeps: "env s s' \<Longrightarrow> ok s \<Longrightarrow> ok s' \<and> accepted s' = accepted s"
begin

inductive sends :: "u8 list \<Rightarrow> nat \<Rightarrow> 's \<Rightarrow> nat \<Rightarrow> 's \<Rightarrow> bool" for data i s where
  start: "sends data i s i s"
| wrote: "sends data i s j s1 \<Longrightarrow> wr cx (drop j data) s1 = Done (Ready (Inr n), s2) \<Longrightarrow> sends data i s (j + n) s2"
| failed: "sends data i s j s1 \<Longrightarrow> wr cx (drop j data) s1 = Done (Ready (Inl e), s2) \<Longrightarrow> sends data i s j s2"
| waits: "sends data i s j s1 \<Longrightarrow> wr cx (drop j data) s1 = Done (Pending, s2) \<Longrightarrow> sends data i s j s2"
| others: "sends data i s j s1 \<Longrightarrow> env s1 s2 \<Longrightarrow> sends data i s j s2"

text \<open>No byte is lost, repeated or reordered, however often the writer was suspended.\<close>

lemma sends_prefix:
  assumes "sends data i s j s'" and "ok s" and "i \<le> length data" and "accepted s = a @ take i data"
  shows "ok s' \<and> i \<le> j \<and> j \<le> length data \<and> accepted s' = a @ take j data"
  using assms(1)
proof (induction rule: sends.induct)
  case start
  then show ?case using assms by simp
next
  case (wrote j s1 cx n s2)
  then have "ok s2" and n: "n \<le> length (drop j data)" "accepted s2 = accepted s1 @ take n (drop j data)"
    using write_ok write_ready by blast+
  moreover have "take (j + n) data = take j data @ take n (drop j data)" by (simp add: take_add)
  ultimately show ?case using wrote.IH by auto
next
  case (failed j s1 cx e s2)
  then show ?case using write_ok write_error by metis
next
  case (waits j s1 cx s2)
  then show ?case using write_ok write_pending by metis
next
  case (others j s1 s2)
  then show ?case using env_keeps by metis
qed

lemma sends_trans:
  assumes "sends data j s1 k s2" and "sends data i s j s1"
  shows "sends data i s k s2"
  using assms by (induction rule: sends.induct) (auto intro: sends.intros)

end

end
