(* ===== verification/Tcp_Socket.thy ===== *)
theory Tcp_Socket
  imports Reactor Byte_Stream
begin

section \<open>TCP streams and listeners (socket/tcp.rs)\<close>

text \<open>
  A \<open>TcpStream\<close> is a handle into the reactor's socket set; a \<open>TcpListener\<close> keeps one listening socket per
  slot of its backlog. Each poll function takes the waker of the polling task and the reactor state.
  An \<open>async fn\<close> that loops over a poll function is the function that one poll of its future runs,
  with the variables that live across the suspension as arguments and results.
\<close>

record tcp_stream =
  ts_handle :: socket_handle

record tcp_listener =
  handles :: "socket_handle list"
  l_port :: u16
  rx_buffer_size :: nat
  tx_buffer_size :: nat

text \<open>\<open>sockets.get_mut::<tcp::Socket>(handle)\<close> followed by what is done to the socket.\<close>

definition with_tcp ::
  "('S, 't, 'u, 'i, 'd, 'z) smol_scheme \<Rightarrow> socket_handle \<Rightarrow> ('t \<Rightarrow> 'r \<times> 't) \<Rightarrow> ('d, 'i, 'S) reactor_inner
     \<Rightarrow> ('r \<times> ('d, 'i, 'S) reactor_inner) outcome" where
  "with_tcp F h g R =
     outcome_bind (get_tcp F (sockets R) h) (\<lambda>t.
       case g t of (r, t') \<Rightarrow> Done (r, R\<lparr>sockets := sockets_put F h (Tcp_sock t') (sockets R)\<rparr>))"

definition TcpStream_connect ::
  "('S, 't, 'u, 'i, 'd, 'z) smol_scheme \<Rightarrow> ip_address \<Rightarrow> u16 \<Rightarrow> u16 \<Rightarrow> nat \<Rightarrow> nat \<Rightarrow> ('d, 'i, 'S) reactor_inner
     \<Rightarrow> (connect_error + tcp_stream) \<times> ('d, 'i, 'S) reactor_inner" where
  "TcpStream_connect F remote_addr remote_port local_port rx tx R =
     (case tcp_connect F (iface R) \<lparr>ep_addr = remote_addr, ep_port = remote_port\<rparr> local_port (tcp_new F rx tx) of
        Inl e \<Rightarrow> (Inl e, R)
      | Inr socket \<Rightarrow>
          (case sockets_add F (Tcp_sock socket) (sockets R) of
             (h, S) \<Rightarrow> (Inr \<lparr>ts_handle = h\<rparr>, R\<lparr>sockets := S\<rparr>)))"

definition TcpStream_from_handle :: "socket_handle \<Rightarrow> tcp_stream" where
  "TcpStream_from_handle h = \<lparr>ts_handle = h\<rparr>"

definition TcpStream_state ::
  "('S, 't, 'u, 'i, 'd, 'z) smol_scheme \<Rightarrow> tcp_stream \<Rightarrow> ('d, 'i, 'S) reactor_inner \<Rightarrow> tcp_state outcome" where
  "TcpStream_state F s R = outcome_bind (get_tcp F (sockets R) (ts_handle s)) (\<lambda>t. Done (tcp_state_of F t))"

definition TcpStream_is_connected ::
  "('S, 't, 'u, 'i, 'd, 'z) smol_scheme \<Rightarrow> tcp_stream \<Rightarrow> ('d, 'i, 'S) reactor_inner \<Rightarrow> bool outcome" where
  "TcpStream_is_connected F s R =
     outcome_bind (get_tcp F (sockets R) (ts_handle s)) (\<lambda>t. Done (tcp_state_of F t = Established))"

definition TcpStream_is_active ::
  "('S, 't, 'u, 'i, 'd, 'z) smol_scheme \<Rightarrow> tcp_stream \<Rightarrow> ('d, 'i, 'S) reactor_inner \<Rightarrow> bool outcome" where
  "TcpStream_is_active F s R =
     outcome_bind (get_tcp F (sockets R) (ts_handle s)) (\<lambda>t. Done (tcp_is_active F t))"

definition TcpStream_abort ::
  "('S, 't, 'u, 'i, 'd, 'z) smol_scheme \<Rightarrow> tcp_stream \<Rightarrow> ('d, 'i, 'S) reactor_inner
     \<Rightarrow> (unit \<times> ('d, 'i, 'S) reactor_inner) outcome" where
  "TcpStream_abort F s R = with_tcp F (ts_handle s) (\<lambda>t. ((), tcp_abort F t)) R"

text \<open>A successful read returns the bytes it wrote to the buffer; their number is the result of the code.\<close>

definition poll_recv ::
  "('S, 't, 'u, 'i, 'd, 'z) smol_scheme \<Rightarrow> tcp_stream \<Rightarrow> waker \<Rightarrow> nat \<Rightarrow> ('d, 'i, 'S) reactor_inner
     \<Rightarrow> ((io_error + u8 list) poll \<times> ('d, 'i, 'S) reactor_inner) outcome" where
  "poll_recv F s cx buf_len R =
     (if buf_len = 0 then Done (Ready (Inr []), R)
      else with_tcp F (ts_handle s) (\<lambda>t.
             case tcp_recv_slice F buf_len t of
               (Inr bs, t') \<Rightarrow>
                 if length bs = 0 then (Pending, tcp_register_recv_waker F cx t') else (Ready (Inr bs), t')
             | (Inl Recv_Finished, t') \<Rightarrow> (Ready (Inr []), t')
             | (Inl Recv_InvalidState, t') \<Rightarrow>
                 (Ready (Inl (IoError NotConnected ''socket in invalid state for receiving'')), t')) R)"

definition poll_send ::
  "('S, 't, 'u, 'i, 'd, 'z) smol_scheme \<Rightarrow> tcp_stream \<Rightarrow> waker \<Rightarrow> u8 list \<Rightarrow> ('d, 'i, 'S) reactor_inner
     \<Rightarrow> ((io_error + nat) poll \<times> ('d, 'i, 'S) reactor_inner) outcome" where
  "poll_send F s cx buf R =
     with_tcp F (ts_handle s) (\<lambda>t.
       case tcp_send_slice F buf t of
         (Inr n, t') \<Rightarrow>
           if n = 0 \<and> buf \<noteq> [] then (Pending, tcp_register_send_waker F cx t') else (Ready (Inr n), t')
       | (Inl Send_InvalidState, t') \<Rightarrow>
           (Ready (Inl (IoError NotConnected ''socket in invalid state for sending'')), t')) R"

definition poll_flush_io ::
  "('S, 't, 'u, 'i, 'd, 'z) smol_scheme \<Rightarrow> tcp_stream \<Rightarrow> waker \<Rightarrow> ('d, 'i, 'S) reactor_inner
     \<Rightarrow> ((io_error + unit) poll \<times> ('d, 'i, 'S) reactor_inner) outcome" where
  "poll_flush_io F s cx R =
     outcome_bind (get_tcp F (sockets R) (ts_handle s)) (\<lambda>t.
       if tcp_send_queue F t = 0 then Done (Ready (Inr ()), R)
       else with_tcp F (ts_handle s) (\<lambda>t. (Pending, tcp_register_send_waker F cx t)) R)"

definition poll_close_io ::
  "('S, 't, 'u, 'i, 'd, 'z) smol_scheme \<Rightarrow> tcp_stream \<Rightarrow> waker \<Rightarrow> ('d, 'i, 'S) reactor_inner
     \<Rightarrow> ((io_error + unit) poll \<times> ('d, 'i, 'S) reactor_inner) outcome" where
  "poll_close_io F s cx R =
     outcome_bind (with_tcp F (ts_handle s) (\<lambda>t.
         if tcp_state_of F t \<in> {Closed, TimeWait} then (True, t)
         else if tcp_state_of F t \<in> {FinWait1, FinWait2, Closing, LastAck} then (False, t)
         else (False, tcp_close F t)) R)
       (\<lambda>(finished, R).
         if finished then Done (Ready (Inr ()), R)
         else with_tcp F (ts_handle s) (\<lambda>t.
                if tcp_state_of F t \<in> {Closed, TimeWait} then (Ready (Inr ()), t)
                else (Pending, tcp_register_send_waker F cx t)) R)"

text \<open>The \<open>AsyncRead\<close> and \<open>AsyncWrite\<close> methods.\<close>

definition TcpStream_poll_read where
  "TcpStream_poll_read F s cx buf_len R = poll_recv F s cx buf_len R"

definition TcpStream_poll_write where
  "TcpStream_poll_write F s cx buf R = poll_send F s cx buf R"

definition TcpStream_poll_flush where
  "TcpStream_poll_flush F s cx R = poll_flush_io F s cx R"

definition TcpStream_poll_close where
  "TcpStream_poll_close F s cx R = poll_close_io F s cx R"

text \<open>One poll of the future of \<open>send\<close>; \<open>offset\<close> lives in the future.\<close>

lemma poll_send_progress:
  "poll_send F s cx buf R = Done (Ready (Inr n), R') \<Longrightarrow> buf \<noteq> [] \<Longrightarrow> 0 < n"
  by (auto simp: poll_send_def with_tcp_def split: prod.splits sum.splits if_splits tcp_send_error.splits)

function TcpStream_send ::
  "('S, 't, 'u, 'i, 'd, 'z) smol_scheme \<Rightarrow> tcp_stream \<Rightarrow> waker \<Rightarrow> u8 list \<Rightarrow> nat \<Rightarrow> ('d, 'i, 'S) reactor_inner
     \<Rightarrow> ((io_error + nat) poll \<times> nat \<times> ('d, 'i, 'S) reactor_inner) outcome" where
  "TcpStream_send F s cx data offset R =
     (if offset < length data
      then (case poll_send F s cx (drop offset data) R of
              Panic m \<Rightarrow> Panic m
            | Done (Pending, R') \<Rightarrow> Done (Pending, offset, R')
            | Done (Ready (Inl e), R') \<Rightarrow> Done (Ready (Inl e), offset, R')
            | Done (Ready (Inr n), R') \<Rightarrow> TcpStream_send F s cx data (offset + n) R')
      else Done (Ready (Inr (length data)), offset, R))"
  by pat_completeness auto
termination
  by (relation "measure (\<lambda>(F, s, cx, data, offset, R). length data - offset)")
    (auto dest!: sym [of _ "poll_send _ _ _ _ _"] dest: poll_send_progress)

declare TcpStream_send.simps [simp del]

definition TcpStream_recv where
  "TcpStream_recv F s cx buf_len R = poll_recv F s cx buf_len R"

definition TcpStream_close where
  "TcpStream_close F s cx R = poll_close_io F s cx R"

definition TcpStream_drop ::
  "('S, 't, 'u, 'i, 'd, 'z) smol_scheme \<Rightarrow> tcp_stream \<Rightarrow> ('d, 'i, 'S) reactor_inner
     \<Rightarrow> ('d, 'i, 'S) reactor_inner outcome" where
  "TcpStream_drop F s R =
     outcome_bind (get_tcp F (sockets R) (ts_handle s)) (\<lambda>t.
       if tcp_state_of F t \<in> {Closed, TimeWait}
       then Done (R\<lparr>sockets := sockets_remove F (ts_handle s) (sockets R)\<rparr>)
       else if tcp_state_of F t \<in> {FinWait1, FinWait2, Closing, LastAck}
       then Done (R\<lparr>orphaned_closing := orphaned_closing R @ [ts_handle s]\<rparr>)
       else Done (R\<lparr>sockets := sockets_put F (ts_handle s) (Tcp_sock (tcp_abort F t)) (sockets R),
                    orphaned_closing := orphaned_closing R @ [ts_handle s]\<rparr>))"

subsection \<open>Listeners\<close>

definition create_listening_socket ::
  "('S, 't, 'u, 'i, 'd, 'z) smol_scheme \<Rightarrow> u16 \<Rightarrow> nat \<Rightarrow> nat \<Rightarrow> ('d, 'i, 'S) reactor_inner
     \<Rightarrow> (listen_error + socket_handle) \<times> ('d, 'i, 'S) reactor_inner" where
  "create_listening_socket F port rx tx R =
     (case tcp_listen F port (tcp_new F rx tx) of
        Inl e \<Rightarrow> (Inl e, R)
      | Inr socket \<Rightarrow>
          (case sockets_add F (Tcp_sock socket) (sockets R) of (h, S) \<Rightarrow> (Inr h, R\<lparr>sockets := S\<rparr>)))"

primrec backlog_loop ::
  "('S, 't, 'u, 'i, 'd, 'z) smol_scheme \<Rightarrow> u16 \<Rightarrow> nat \<Rightarrow> nat \<Rightarrow> nat \<Rightarrow> socket_handle list \<Rightarrow> ('d, 'i, 'S) reactor_inner
     \<Rightarrow> (listen_error + socket_handle list) \<times> ('d, 'i, 'S) reactor_inner" where
  "backlog_loop F port rx tx 0 hs R = (Inr hs, R)"
| "backlog_loop F port rx tx (Suc n) hs R =
     (case create_listening_socket F port rx tx R of
        (Inl e, R') \<Rightarrow> (Inl e, R')
      | (Inr h, R') \<Rightarrow> backlog_loop F port rx tx n (hs @ [h]) R')"

definition TcpListener_bind_with_backlog ::
  "('S, 't, 'u, 'i, 'd, 'z) smol_scheme \<Rightarrow> u16 \<Rightarrow> nat \<Rightarrow> nat \<Rightarrow> nat \<Rightarrow> ('d, 'i, 'S) reactor_inner
     \<Rightarrow> (listen_error + tcp_listener) \<times> ('d, 'i, 'S) reactor_inner" where
  "TcpListener_bind_with_backlog F port rx tx backlog R =
     (case backlog_loop F port rx tx (max backlog 1) [] R of
        (Inl e, R') \<Rightarrow> (Inl e, R')
      | (Inr hs, R') \<Rightarrow>
          (Inr \<lparr>handles = hs, l_port = port, rx_buffer_size = rx, tx_buffer_size = tx\<rparr>, R'))"

definition TcpListener_bind ::
  "('S, 't, 'u, 'i, 'd, 'z) smol_scheme \<Rightarrow> u16 \<Rightarrow> nat \<Rightarrow> nat \<Rightarrow> ('d, 'i, 'S) reactor_inner
     \<Rightarrow> (listen_error + tcp_listener) \<times> ('d, 'i, 'S) reactor_inner" where
  "TcpListener_bind F port rx tx R = TcpListener_bind_with_backlog F port rx tx 2 R"

definition TcpListener_local_port :: "tcp_listener \<Rightarrow> u16" where
  "TcpListener_local_port l = l_port l"

definition TcpListener_backlog :: "tcp_listener \<Rightarrow> nat" where
  "TcpListener_backlog l = length (handles l)"

text \<open>\<open>iter().any(..)\<close> and \<open>iter().all(..)\<close> over the states, which stop at the first answer.\<close>

primrec any_state ::
  "('S, 't, 'u, 'i, 'd, 'z) smol_scheme \<Rightarrow> (tcp_state \<Rightarrow> bool) \<Rightarrow> 'S \<Rightarrow> socket_handle list \<Rightarrow> bool outcome" where
  "any_state F P S [] = Done False"
| "any_state F P S (h # hs) =
     outcome_bind (get_tcp F S h) (\<lambda>t. if P (tcp_state_of F t) then Done True else any_state F P S hs)"

primrec all_state ::
  "('S, 't, 'u, 'i, 'd, 'z) smol_scheme \<Rightarrow> (tcp_state \<Rightarrow> bool) \<Rightarrow> 'S \<Rightarrow> socket_handle list \<Rightarrow> bool outcome" where
  "all_state F P S [] = Done True"
| "all_state F P S (h # hs) =
     outcome_bind (get_tcp F S h) (\<lambda>t. if P (tcp_state_of F t) then all_state F P S hs else Done False)"

primrec map_state ::
  "('S, 't, 'u, 'i, 'd, 'z) smol_scheme \<Rightarrow> 'S \<Rightarrow> socket_handle list \<Rightarrow> tcp_state list outcome" where
  "map_state F S [] = Done []"
| "map_state F S (h # hs) =
     outcome_bind (get_tcp F S h) (\<lambda>t. outcome_bind (map_state F S hs) (\<lambda>sts. Done (tcp_state_of F t # sts)))"

definition TcpListener_is_pending ::
  "('S, 't, 'u, 'i, 'd, 'z) smol_scheme \<Rightarrow> tcp_listener \<Rightarrow> ('d, 'i, 'S) reactor_inner \<Rightarrow> bool outcome" where
  "TcpListener_is_pending F l R = any_state F (\<lambda>st. st \<in> {SynReceived, Established}) (sockets R) (handles l)"

definition TcpListener_states ::
  "('S, 't, 'u, 'i, 'd, 'z) smol_scheme \<Rightarrow> tcp_listener \<Rightarrow> ('d, 'i, 'S) reactor_inner \<Rightarrow> tcp_state list outcome" where
  "TcpListener_states F l R = map_state F (sockets R) (handles l)"

primrec drop_listening ::
  "('S, 't, 'u, 'i, 'd, 'z) smol_scheme \<Rightarrow> socket_handle list \<Rightarrow> 'S \<Rightarrow> 'S outcome" where
  "drop_listening F [] S = Done S"
| "drop_listening F (h # hs) S =
     outcome_bind (get_tcp F S h) (\<lambda>t.
       (let S' = (if tcp_state_of F t \<noteq> Closed then sockets_put F h (Tcp_sock (tcp_abort F t)) S else S)
        in drop_listening F hs (sockets_remove F h S')))"

definition TcpListener_drop ::
  "('S, 't, 'u, 'i, 'd, 'z) smol_scheme \<Rightarrow> tcp_listener \<Rightarrow> ('d, 'i, 'S) reactor_inner
     \<Rightarrow> ('d, 'i, 'S) reactor_inner outcome" where
  "TcpListener_drop F l R =
     outcome_bind (drop_listening F (handles l) (sockets R)) (\<lambda>S. Done (R\<lparr>sockets := S\<rparr>))"

primrec find_established ::
  "('S, 't, 'u, 'i, 'd, 'z) smol_scheme \<Rightarrow> 'S \<Rightarrow> nat \<Rightarrow> socket_handle list \<Rightarrow> nat option outcome" where
  "find_established F S i [] = Done None"
| "find_established F S i (h # hs) =
     outcome_bind (get_tcp F S h) (\<lambda>t.
       if tcp_state_of F t = Established then Done (Some i) else find_established F S (i + 1) hs)"

primrec register_all ::
  "('S, 't, 'u, 'i, 'd, 'z) smol_scheme \<Rightarrow> waker \<Rightarrow> socket_handle list \<Rightarrow> 'S \<Rightarrow> 'S outcome" where
  "register_all F cx [] S = Done S"
| "register_all F cx (h # hs) S =
     outcome_bind (get_tcp F S h) (\<lambda>t.
       register_all F cx hs (sockets_put F h (Tcp_sock (tcp_register_recv_waker F cx t)) S))"

definition AcceptFuture_poll ::
  "('S, 't, 'u, 'i, 'd, 'z) smol_scheme \<Rightarrow> tcp_listener \<Rightarrow> waker \<Rightarrow> ('d, 'i, 'S) reactor_inner
     \<Rightarrow> ((listen_error + tcp_stream) poll \<times> tcp_listener \<times> ('d, 'i, 'S) reactor_inner) outcome" where
  "AcceptFuture_poll F l cx R =
     outcome_bind (find_established F (sockets R) 0 (handles l)) (\<lambda>established_idx.
       case established_idx of
         Some idx \<Rightarrow>
           (let connected_handle = handles l ! idx
            in case create_listening_socket F (l_port l) (rx_buffer_size l) (tx_buffer_size l) R of
                 (Inl e, R) \<Rightarrow> Done (Ready (Inl e), l, R)
               | (Inr new_handle, R) \<Rightarrow>
                   Done (Ready (Inr (TcpStream_from_handle connected_handle)),
                         l\<lparr>handles := (handles l)[idx := new_handle]\<rparr>, R))
       | None \<Rightarrow>
           outcome_bind (all_state F (\<lambda>st. st \<in> {Closed, TimeWait}) (sockets R) (handles l)) (\<lambda>all_dead.
             if all_dead then Done (Ready (Inl Listen_Unaddressable), l, R)
             else outcome_bind (register_all F cx (handles l) (sockets R))
                    (\<lambda>S. Done (Pending, l, R\<lparr>sockets := S\<rparr>))))"

definition WaitConnectedFuture_poll ::
  "('S, 't, 'u, 'i, 'd, 'z) smol_scheme \<Rightarrow> tcp_stream \<Rightarrow> waker \<Rightarrow> ('d, 'i, 'S) reactor_inner
     \<Rightarrow> ((unit + unit) poll \<times> ('d, 'i, 'S) reactor_inner) outcome" where
  "WaitConnectedFuture_poll F s cx R =
     with_tcp F (ts_handle s) (\<lambda>t.
       if tcp_state_of F t = Established then (Ready (Inr ()), t)
       else if tcp_state_of F t \<in> {Closed, TimeWait} then (Ready (Inl ()), t)
       else (Pending, tcp_register_send_waker F cx t)) R"

subsection \<open>The contract of a socket in the set\<close>

lemma with_tcp_Done:
  "sockets_get F (sockets R) h = Some (Tcp_sock t) \<Longrightarrow>
   with_tcp F h g R = Done (fst (g t), R\<lparr>sockets := sockets_put F h (Tcp_sock (snd (g t))) (sockets R)\<rparr>)"
  by (simp add: with_tcp_def get_tcp_def split: prod.splits)

definition tcp_view :: "('S, 't, 'u, 'i, 'd, 'z) smol_scheme \<Rightarrow> ('t \<Rightarrow> 'a) \<Rightarrow> ('d, 'i, 'S) reactor_inner \<Rightarrow> socket_handle \<Rightarrow> 'a option" where
  "tcp_view F v R h = (case sockets_get F (sockets R) h of Some (Tcp_sock t) \<Rightarrow> Some (v t) | _ \<Rightarrow> None)"

lemma tcp_view_Some: "tcp_view F v R h = Some x \<longleftrightarrow> (\<exists>t. sockets_get F (sockets R) h = Some (Tcp_sock t) \<and> x = v t)"
  by (auto simp: tcp_view_def split: option.splits sock.splits)

lemma tcp_view_at: "tcp_view F v R h \<noteq> None \<longleftrightarrow> tcp_at F (sockets R) h"
  by (auto simp: tcp_at_iff tcp_view_def split: option.splits sock.splits)

locale tcp_stack =
  fixes F :: "('S, 't, 'u, 'i, 'd, 'z) smol_scheme" and sent got :: "'t \<Rightarrow> u8 list"
  assumes set_ok: "set_law F" and poll_ok: "poll_law F" and state_ok: "tcp_state_law F"
    and stream_ok: "tcp_stream_law F sent got"
begin

lemmas gets = set_lawD [OF set_ok]
lemmas states = tcp_state_lawD [OF state_ok]

lemma streams:
  "tcp_send_slice F bs t = (Inr n, t') \<Longrightarrow> n \<le> length bs \<and> sent t' = sent t @ take n bs \<and> got t' = got t"
  "tcp_send_slice F bs t = (Inl e, t') \<Longrightarrow> sent t' = sent t \<and> got t' = got t"
  "tcp_recv_slice F k t = (Inr bs, t') \<Longrightarrow> length bs \<le> k \<and> got t' = got t @ bs \<and> sent t' = sent t"
  "tcp_recv_slice F k t = (Inl e', t') \<Longrightarrow> sent t' = sent t \<and> got t' = got t"
  "sent (tcp_register_recv_waker F cx t) = sent t" "got (tcp_register_recv_waker F cx t) = got t"
  "sent (tcp_register_send_waker F cx t) = sent t" "got (tcp_register_send_waker F cx t) = got t"
  using stream_ok unfolding tcp_stream_law_def by metis+

text \<open>What \<open>with_tcp\<close> leaves behind: the socket changed as the function says, every other as it was.\<close>

lemma with_tcp_get:
  assumes t: "sockets_get F (sockets R) h = Some (Tcp_sock t)" and w: "with_tcp F h g R = Done (r, R')"
  shows "r = fst (g t)" "sockets_get F (sockets R') k = (if k = h then Some (Tcp_sock (snd (g t))) else sockets_get F (sockets R) k)"
    "orphaned_closing R' = orphaned_closing R" "iface R' = iface R" "device R' = device R"
    "same_kinds F (sockets R) (sockets R')"
proof -
  from w have eq: "r = fst (g t)" "R' = R\<lparr>sockets := sockets_put F h (Tcp_sock (snd (g t))) (sockets R)\<rparr>"
    by (simp_all add: with_tcp_Done [OF t])
  then show "r = fst (g t)" "orphaned_closing R' = orphaned_closing R" "iface R' = iface R" "device R' = device R"
    by simp_all
  have get: "sockets_get F (sockets R') k = (if k = h then Some (Tcp_sock (snd (g t))) else sockets_get F (sockets R) k)" for k
    using gets(4) [of "sockets R" h] t by (simp add: eq(2))
  then show "sockets_get F (sockets R') k = (if k = h then Some (Tcp_sock (snd (g t))) else sockets_get F (sockets R) k)" .
  show "same_kinds F (sockets R) (sockets R')" using get t by (simp add: same_kinds_def)
qed

end

text \<open>A stream of the stack, as a sink of bytes; the other tasks and the reactor do not write to it.\<close>

locale tcp_conn = tcp_stack F sent got
  for F :: "('S, 't, 'u, 'i, 'd, 'z) smol_scheme" and sent got :: "'t \<Rightarrow> u8 list" +
  fixes s :: tcp_stream

definition leaves_sent ::
  "('S, 't, 'u, 'i, 'd, 'z) smol_scheme \<Rightarrow> ('t \<Rightarrow> u8 list) \<Rightarrow> tcp_stream \<Rightarrow> ('d, 'i, 'S) reactor_inner
     \<Rightarrow> ('d, 'i, 'S) reactor_inner \<Rightarrow> bool" where
  "leaves_sent F sent s R R' \<longleftrightarrow> tcp_view F sent R' (ts_handle s) = tcp_view F sent R (ts_handle s)"

sublocale tcp_conn \<subseteq> sink: byte_sink "poll_send F s" "\<lambda>R. the (tcp_view F sent R (ts_handle s))"
  "\<lambda>R. tcp_at F (sockets R) (ts_handle s)" "leaves_sent F sent s"
proof unfold_locales
  fix R :: "('d, 'i, 'S) reactor_inner" and cx bs
  assume "tcp_at F (sockets R) (ts_handle s)"
  then obtain t where t: "sockets_get F (sockets R) (ts_handle s) = Some (Tcp_sock t)" by (auto simp: tcp_at_iff)
  show "\<exists>r R'. poll_send F s cx bs R = Done (r, R')"
    by (simp add: poll_send_def with_tcp_Done [OF t])
  obtain x t1 where sl: "tcp_send_slice F bs t = (x, t1)" by fastforce
  have any: "tcp_at F (sockets R') (ts_handle s)" if "poll_send F s cx bs R = Done (r, R')" for r R'
    using with_tcp_get(2) [OF t that [unfolded poll_send_def]] by (simp add: tcp_at_iff)
  show "tcp_at F (sockets R') (ts_handle s)" if "poll_send F s cx bs R = Done (r, R')" for r R'
    using any [OF that] .
  have view: "the (tcp_view F sent R (ts_handle s)) = sent t" by (simp add: tcp_view_def t)
  have after: "the (tcp_view F sent R' (ts_handle s)) =
      (case x of Inr n \<Rightarrow> sent t @ take n bs | Inl e \<Rightarrow> sent t)
    \<and> (case x of Inr n \<Rightarrow> n \<le> length bs \<and> r = (if n = 0 \<and> bs \<noteq> [] then Pending else Ready (Inr n)) | Inl e \<Rightarrow> \<exists>e'. r = Ready (Inl e'))"
    if p: "poll_send F s cx bs R = Done (r, R')" for r R'
    using with_tcp_get(1,2) [OF t p [unfolded poll_send_def]] streams(1,2) [of bs t] sl
    by (cases x) (auto simp: tcp_view_def streams split: if_splits tcp_send_error.splits)
  show "n \<le> length bs \<and> the (tcp_view F sent R' (ts_handle s)) = the (tcp_view F sent R (ts_handle s)) @ take n bs"
    if "poll_send F s cx bs R = Done (Ready (Inr n), R')" for n R'
    using after [OF that] by (cases x) (auto simp: view split: if_splits)
  show "the (tcp_view F sent R' (ts_handle s)) = the (tcp_view F sent R (ts_handle s))"
    if "poll_send F s cx bs R = Done (Ready (Inl e), R')" for e R'
    using after [OF that] by (cases x) (auto simp: view split: if_splits)
  show "the (tcp_view F sent R' (ts_handle s)) = the (tcp_view F sent R (ts_handle s))"
    if "poll_send F s cx bs R = Done (Pending, R')" for R'
    using after [OF that] by (cases x) (auto simp: view split: if_splits)
next
  fix R R' :: "('d, 'i, 'S) reactor_inner"
  assume "leaves_sent F sent s R R'" and "tcp_at F (sockets R) (ts_handle s)"
  then show "tcp_at F (sockets R') (ts_handle s) \<and> the (tcp_view F sent R' (ts_handle s)) = the (tcp_view F sent R (ts_handle s))"
    using tcp_view_at by (metis leaves_sent_def)
qed

interpretation refc: tcp_conn ref_smol r_sent r_got s for s
  by unfold_locales (rule ref_set_law ref_poll_law ref_tcp_state_law ref_stream_law)+

lemma tcp_connI:
  "set_law F \<Longrightarrow> poll_law F \<Longrightarrow> tcp_state_law F \<Longrightarrow> tcp_stream_law F sent got \<Longrightarrow> tcp_conn F sent got"
  by unfold_locales

lemma tcp_stackI:
  "set_law F \<Longrightarrow> poll_law F \<Longrightarrow> tcp_state_law F \<Longrightarrow> tcp_stream_law F sent got \<Longrightarrow> tcp_stack F sent got"
  by unfold_locales

subsection \<open>Sending\<close>

text \<open>
  The future of \<open>send\<close> from its first poll to its result, with other tasks between the polls.
\<close>

inductive send_future ::
  "('S, 't, 'u, 'i, 'd, 'z) smol_scheme \<Rightarrow> ('t \<Rightarrow> u8 list) \<Rightarrow> tcp_stream \<Rightarrow> u8 list \<Rightarrow> nat \<Rightarrow> ('d, 'i, 'S) reactor_inner
     \<Rightarrow> io_error + nat \<Rightarrow> ('d, 'i, 'S) reactor_inner \<Rightarrow> bool" for F sent s data where
  finished: "TcpStream_send F s cx data i R = Done (Ready r, j, R') \<Longrightarrow> send_future F sent s data i R r R'"
| suspended: "TcpStream_send F s cx data i R = Done (Pending, j, R1) \<Longrightarrow> leaves_sent F sent s R1 R2 \<Longrightarrow>
    send_future F sent s data j R2 r R' \<Longrightarrow> send_future F sent s data i R r R'"

context tcp_conn
begin

lemma send_poll_sends:
  assumes "TcpStream_send F s cx data i R = Done (r, j, R')" and "i \<le> length data"
    and "tcp_at F (sockets R) (ts_handle s)"
  shows "sink.sends data i R j R' \<and> (\<forall>n. r = Ready (Inr n) \<longrightarrow> n = length data \<and> j = length data)"
  using assms
proof (induction "length data - i" arbitrary: i R rule: less_induct)
  case less
  note step = TcpStream_send.simps [of F s cx data i R]
  show ?case
  proof (cases "i < length data")
    case False
    with less.prems step have "r = Ready (Inr (length data))" "j = i" "R' = R" "i = length data" by auto
    then show ?thesis by (auto intro: sink.sends.start)
  next
    case True
    obtain x R1 where p: "poll_send F s cx (drop i data) R = Done (x, R1)"
      using sink.write_returns [OF less.prems(3)] by blast
    have ok1: "tcp_at F (sockets R1) (ts_handle s)" by (rule sink.write_ok [OF less.prems(3) p])
    show ?thesis
    proof (cases "\<exists>n. x = Ready (Inr n)")
      case False
      with less.prems(1) step True p have eq: "r = x" "j = i" "R' = R1"
        by (auto split: poll.splits sum.splits)
      from False consider e where "x = Ready (Inl e)" | "x = Pending" by (metis poll.exhaust sum.exhaust)
      then have "sink.sends data i R i R1"
        using p sink.sends.start [of data i R] by cases (auto intro: sink.sends.intros)
      with False eq show ?thesis by auto
    next
      case n: True
      then obtain n where x: "x = Ready (Inr n)" by blast
      have "0 < n" using poll_send_progress [OF p [unfolded x]] True by simp
      moreover have nl: "n \<le> length (drop i data)" using sink.write_ready [OF less.prems(3) p [unfolded x]] by simp
      ultimately have lt: "length data - (i + n) < length data - i" and le: "i + n \<le> length data" using True by auto
      have rec: "TcpStream_send F s cx data (i + n) R1 = Done (r, j, R')"
        using less.prems(1) step True p x by simp
      note ih = less.hyps [OF lt rec le ok1]
      have "sink.sends data i R (i + n) R1"
        by (rule sink.sends.wrote [OF sink.sends.start p [unfolded x]])
      with ih show ?thesis using sink.sends_trans by blast
    qed
  qed
qed

lemma send_poll_returns:
  assumes "tcp_at F (sockets R) (ts_handle s)"
  shows "\<exists>r j R'. TcpStream_send F s cx data i R = Done (r, j, R')"
  using assms
proof (induction "length data - i" arbitrary: i R rule: less_induct)
  case less
  note step = TcpStream_send.simps [of F s cx data i R]
  obtain x R1 where p: "poll_send F s cx (drop i data) R = Done (x, R1)"
    using sink.write_returns [OF less.prems] by blast
  have ok1: "tcp_at F (sockets R1) (ts_handle s)" by (rule sink.write_ok [OF less.prems p])
  show ?case
  proof (cases "i < length data \<and> (\<exists>n. x = Ready (Inr n))")
    case True
    then obtain n where x: "x = Ready (Inr n)" by blast
    have "0 < n" using poll_send_progress [OF p [unfolded x]] True by simp
    then have "length data - (i + n) < length data - i" using True by auto
    from less.hyps [OF this ok1] show ?thesis using step p x True by simp
  next
    case False
    then show ?thesis using step p by (auto split: poll.splits sum.splits)
  qed
qed

lemma send_future_prefix:
  assumes "send_future F sent s data i R r R'" and "i \<le> length data"
    and "tcp_at F (sockets R) (ts_handle s)" and "the (tcp_view F sent R (ts_handle s)) = a @ take i data"
  shows "tcp_at F (sockets R') (ts_handle s) \<and> (case r of
      Inr n \<Rightarrow> n = length data \<and> the (tcp_view F sent R' (ts_handle s)) = a @ data
    | Inl e \<Rightarrow> \<exists>k \<le> length data. the (tcp_view F sent R' (ts_handle s)) = a @ take k data)"
  using assms
proof (induction rule: send_future.induct)
  case (finished cx i R r j R')
  from send_poll_sends [OF finished.hyps finished.prems(1,2)]
  have "sink.sends data i R j R'" "\<forall>n. r = Inr n \<longrightarrow> n = length data \<and> j = length data" by auto
  with sink.sends_prefix [OF this(1) finished.prems(2,1,3)] show ?case by (auto split: sum.splits)
next
  case (suspended cx i R j R1 R2 r R')
  from send_poll_sends [OF suspended.hyps(1) suspended.prems(1,2)]
  have s1: "sink.sends data i R j R1" by auto
  have s2: "sink.sends data i R j R2" by (rule sink.sends.others [OF s1 suspended.hyps(2)])
  from sink.sends_prefix [OF s2 suspended.prems(2,1,3)] suspended.IH show ?case by auto
qed

end

subsection \<open>Accepting\<close>

definition state_at :: "('S, 't, 'u, 'i, 'd, 'z) smol_scheme \<Rightarrow> 'S \<Rightarrow> socket_handle \<Rightarrow> tcp_state option" where
  "state_at F S h = (case sockets_get F S h of Some (Tcp_sock t) \<Rightarrow> Some (tcp_state_of F t) | _ \<Rightarrow> None)"

lemma state_at_simps [simp]: "sockets_get F S h = Some (Tcp_sock t) \<Longrightarrow> state_at F S h = Some (tcp_state_of F t)"
  by (simp add: state_at_def)

lemma state_at_Some: "state_at F S h = Some st \<Longrightarrow> tcp_at F S h"
  by (auto simp: state_at_def tcp_at_iff split: option.splits sock.splits)

lemma find_established_spec:
  assumes "\<forall>h \<in> set hs. tcp_at F S h"
  shows "\<exists>r. find_established F S i hs = Done r \<and> (case r of
      None \<Rightarrow> \<forall>h \<in> set hs. state_at F S h \<noteq> Some Established
    | Some k \<Rightarrow> i \<le> k \<and> k - i < length hs \<and> state_at F S (hs ! (k - i)) = Some Established
        \<and> (\<forall>m < k - i. state_at F S (hs ! m) \<noteq> Some Established))"
  using assms
proof (induction hs arbitrary: i)
  case (Cons h hs)
  from Cons.prems obtain t where t: "sockets_get F S h = Some (Tcp_sock t)" by (auto simp: tcp_at_iff)
  show ?case
  proof (cases "tcp_state_of F t = Established")
    case True
    with t show ?thesis by (auto simp: get_tcp_def)
  next
    case False
    from Cons.IH [of "Suc i"] Cons.prems obtain r where r: "find_established F S (Suc i) hs = Done r" "case r of
      None \<Rightarrow> \<forall>h \<in> set hs. state_at F S h \<noteq> Some Established
    | Some k \<Rightarrow> Suc i \<le> k \<and> k - Suc i < length hs \<and> state_at F S (hs ! (k - Suc i)) = Some Established
        \<and> (\<forall>m < k - Suc i. state_at F S (hs ! m) \<noteq> Some Established)" by auto
    have "k - i = Suc (k - Suc i)" if "Suc i \<le> k" for k using that by simp
    with r t False show ?thesis
      by (auto simp: get_tcp_def less_Suc_eq_0_disj split: option.splits)
  qed
qed simp

lemma all_state_spec:
  "\<forall>h \<in> set hs. tcp_at F S h \<Longrightarrow> all_state F P S hs = Done (\<forall>h \<in> set hs. \<exists>st. state_at F S h = Some st \<and> P st)"
  by (induction hs) (auto simp: tcp_at_iff get_tcp_def state_at_def)

context tcp_stack
begin

lemma register_all_spec:
  assumes "\<forall>h \<in> set hs. tcp_at F S h"
  shows "\<exists>S'. register_all F cx hs S = Done S' \<and> same_kinds F S S' \<and> state_at F S' = state_at F S"
  using assms
proof (induction hs arbitrary: S)
  case (Cons h hs)
  from Cons.prems obtain t where t: "sockets_get F S h = Some (Tcp_sock t)" by (auto simp: tcp_at_iff)
  let ?S = "sockets_put F h (Tcp_sock (tcp_register_recv_waker F cx t)) S"
  have get: "sockets_get F ?S k = (if k = h then Some (Tcp_sock (tcp_register_recv_waker F cx t)) else sockets_get F S k)" for k
    using gets(4) [of S h] t by simp
  have same: "same_kinds F S ?S" using t by (simp add: same_kinds_def get)
  have st: "state_at F ?S = state_at F S" using t by (auto simp: state_at_def get states fun_eq_iff)
  from Cons.prems same_kinds_at [OF same] have "\<forall>h \<in> set hs. tcp_at F ?S h" by simp
  from Cons.IH [OF this] obtain S' where "register_all F cx hs ?S = Done S'" "same_kinds F ?S S'"
    "state_at F S' = state_at F ?S" by blast
  with same st t show ?case by (auto simp: get_tcp_def intro: same_kinds_trans)
qed simp

lemma create_listening_cases:
  assumes "create_listening_socket F p rx tx R = (x, R')"
  shows "case x of Inl e \<Rightarrow> R' = R \<and> isl (tcp_listen F p (tcp_new F rx tx))
    | Inr h \<Rightarrow> \<exists>t. sockets_get F (sockets R) h = None \<and> tcp_state_of F t = Listen
        \<and> (\<forall>k. sockets_get F (sockets R') k = (if k = h then Some (Tcp_sock t) else sockets_get F (sockets R) k))
        \<and> R' = R\<lparr>sockets := sockets R'\<rparr> \<and> \<not> isl (tcp_listen F p (tcp_new F rx tx))"
proof (cases "tcp_listen F p (tcp_new F rx tx)")
  case (Inl e)
  with assms show ?thesis by (auto simp: create_listening_socket_def)
next
  case (Inr t)
  obtain h S where a: "sockets_add F (Tcp_sock t) (sockets R) = (h, S)" by fastforce
  with assms Inr have "x = Inr h" "R' = R\<lparr>sockets := S\<rparr>" by (auto simp: create_listening_socket_def)
  with gets(2,3) [OF a] states(2) [OF Inr] Inr show ?thesis by auto
qed

lemma accept_cases:
  assumes "\<forall>h \<in> set (handles l). tcp_at F (sockets R) h"
  obtains (taken) idx h t R' where "idx < length (handles l)"
      "state_at F (sockets R) (handles l ! idx) = Some Established"
      "\<forall>m < idx. state_at F (sockets R) (handles l ! m) \<noteq> Some Established"
      "AcceptFuture_poll F l cx R = Done (Ready (Inr \<lparr>ts_handle = handles l ! idx\<rparr>), l\<lparr>handles := (handles l)[idx := h]\<rparr>, R')"
      "sockets_get F (sockets R) h = None" "tcp_state_of F t = Listen"
      "\<forall>k. sockets_get F (sockets R') k = (if k = h then Some (Tcp_sock t) else sockets_get F (sockets R) k)"
      "R' = R\<lparr>sockets := sockets R'\<rparr>"
  | (refused) e where "AcceptFuture_poll F l cx R = Done (Ready (Inl e), l, R)"
      "isl (tcp_listen F (l_port l) (tcp_new F (rx_buffer_size l) (tx_buffer_size l)))"
  | (dead) "AcceptFuture_poll F l cx R = Done (Ready (Inl Listen_Unaddressable), l, R)"
      "\<forall>h \<in> set (handles l). state_at F (sockets R) h \<in> {Some Closed, Some TimeWait}"
  | (waiting) S where "AcceptFuture_poll F l cx R = Done (Pending, l, R\<lparr>sockets := S\<rparr>)"
      "same_kinds F (sockets R) S" "state_at F S = state_at F (sockets R)"
      "\<forall>h \<in> set (handles l). state_at F (sockets R) h \<noteq> Some Established"
proof -
  from find_established_spec [OF assms, of 0] obtain r where
    f: "find_established F (sockets R) 0 (handles l) = Done r" and fr: "case r of
      None \<Rightarrow> \<forall>h \<in> set (handles l). state_at F (sockets R) h \<noteq> Some Established
    | Some k \<Rightarrow> k < length (handles l) \<and> state_at F (sockets R) (handles l ! k) = Some Established
        \<and> (\<forall>m < k. state_at F (sockets R) (handles l ! m) \<noteq> Some Established)"
    by (fastforce split: option.splits)
  show thesis
  proof (cases r)
    case (Some idx)
    obtain x R' where c: "create_listening_socket F (l_port l) (rx_buffer_size l) (tx_buffer_size l) R = (x, R')" by fastforce
    show thesis
    proof (cases x)
      case (Inl e)
      with f Some c create_listening_cases [OF c] show thesis
        by (intro refused [of e]) (auto simp: AcceptFuture_poll_def Let_def)
    next
      case (Inr h)
      with create_listening_cases [OF c] obtain t where "sockets_get F (sockets R) h = None" "tcp_state_of F t = Listen"
        "\<forall>k. sockets_get F (sockets R') k = (if k = h then Some (Tcp_sock t) else sockets_get F (sockets R) k)"
        "R' = R\<lparr>sockets := sockets R'\<rparr>" by auto
      with f fr Some c Inr show thesis
        by (intro taken [of idx h R' t]) (auto simp: AcceptFuture_poll_def Let_def TcpStream_from_handle_def)
    qed
  next
    case None
    note all = all_state_spec [OF assms, of "\<lambda>st. st \<in> {Closed, TimeWait}"]
    show thesis
    proof (cases "\<forall>h \<in> set (handles l). \<exists>st. state_at F (sockets R) h = Some st \<and> st \<in> {Closed, TimeWait}")
      case True
      with f None all show thesis by (intro dead) (auto simp: AcceptFuture_poll_def)
    next
      case False
      from register_all_spec [OF assms, of cx] obtain S where "register_all F cx (handles l) (sockets R) = Done S"
        "same_kinds F (sockets R) S" "state_at F S = state_at F (sockets R)" by blast
      with f fr None all False show thesis by (intro waiting [of S]) (auto simp: AcceptFuture_poll_def)
    qed
  qed
qed

end

subsection \<open>Properties\<close>

text \<open>
  C10. \<open>TcpStream::send\<close> has write-all semantics. However often its future is suspended, with the reactor and
  other tasks running in between, a send that returns has had exactly the given bytes accepted by the
  socket, in order and once, and returns their number; a send that fails has had a beginning of them
  accepted. No poll of the future panics.
\<close>

theorem send_writes_all:
  assumes "set_law F" "poll_law F" "tcp_state_law F" "tcp_stream_law F sent got"
    and "tcp_view F sent R (ts_handle s) = Some a" and "send_future F sent s data 0 R r R'"
  shows "(case r of Inr n \<Rightarrow> n = length data \<and> tcp_view F sent R' (ts_handle s) = Some (a @ data)
      | Inl e \<Rightarrow> \<exists>k \<le> length data. tcp_view F sent R' (ts_handle s) = Some (a @ take k data))
    \<and> (\<forall>cx i. \<not> is_panic (TcpStream_send F s cx data i R))"
proof -
  note c = tcp_connI [OF assms(1-4)]
  have at: "tcp_at F (sockets R) (ts_handle s)" using assms(5) tcp_view_at [of F sent R "ts_handle s"] by simp
  from tcp_conn.send_future_prefix [OF c assms(6) _ at, of a] assms(5)
  have "tcp_at F (sockets R') (ts_handle s)" and "case r of
      Inr n \<Rightarrow> n = length data \<and> the (tcp_view F sent R' (ts_handle s)) = a @ data
    | Inl e \<Rightarrow> \<exists>k \<le> length data. the (tcp_view F sent R' (ts_handle s)) = a @ take k data" by auto
  then have "case r of Inr n \<Rightarrow> n = length data \<and> tcp_view F sent R' (ts_handle s) = Some (a @ data)
    | Inl e \<Rightarrow> \<exists>k \<le> length data. tcp_view F sent R' (ts_handle s) = Some (a @ take k data)"
    using tcp_view_at [of F sent R' "ts_handle s"] by (cases r) auto
  moreover have "\<not> is_panic (TcpStream_send F s cx data i R)" for cx i
    using tcp_conn.send_poll_returns [OF c at, of cx data i] by auto
  ultimately show ?thesis by blast
qed

definition ref_conn :: "tcp_state \<Rightarrow> nat \<Rightarrow> (nat, ref_event list, ref_set) reactor_inner" where
  "ref_conn st cap = \<lparr>device = 0, iface = [], sockets = \<lparr>r_next = 1, r_tab = [0 \<mapsto> Tcp_sock
     \<lparr>r_state = st, r_rx = [], r_tx = [], r_cap = cap, r_sent = [], r_got = [], r_wakers = []\<rparr>]\<rparr>,
     orphaned_closing = []\<rparr>"

lemma ref_send_future:
  "\<exists>R'. send_future ref_smol r_sent \<lparr>ts_handle = 0\<rparr> [1, 2, 3] 0 (ref_conn Established 2) (Inr 3) R'"
proof -
  let ?s = "\<lparr>ts_handle = 0\<rparr>"
  note defs = TcpStream_send.simps poll_send_def with_tcp_def get_tcp_def ref_conn_def ref_smol_def ref_send_def Let_def
  obtain R1 where 1: "TcpStream_send ref_smol ?s 7 [1, 2, 3] 0 (ref_conn Established 2) = Done (Pending, 2, R1)"
    and R1: "R1 = (ref_conn Established 2)\<lparr>sockets := \<lparr>r_next = 1, r_tab = [0 \<mapsto> Tcp_sock
     \<lparr>r_state = Established, r_rx = [], r_tx = [1, 2], r_cap = 2, r_sent = [1, 2], r_got = [], r_wakers = [7]\<rparr>]\<rparr>\<rparr>"
    by (simp add: defs)
  let ?R2 = "ReactorInner_poll_egress ref_smol 5 R1"
  have 2: "leaves_sent ref_smol r_sent ?s R1 ?R2"
    by (simp add: leaves_sent_def tcp_view_def R1 ReactorInner_poll_egress_def ref_smol_def ref_drain_def ref_conn_def)
  obtain R3 where 3: "TcpStream_send ref_smol ?s 7 [1, 2, 3] 2 ?R2 = Done (Ready (Inr 3), 3, R3)"
    by (simp add: defs R1 ReactorInner_poll_egress_def ref_drain_def)
  from send_future.suspended [OF 1 2 send_future.finished [OF 3]] show ?thesis by blast
qed

theorem send_writes_all_witness:
  "\<exists>R'. send_future ref_smol r_sent \<lparr>ts_handle = 0\<rparr> [1, 2, 3] 0 (ref_conn Established 2) (Inr 3) R'
     \<and> tcp_view ref_smol r_sent R' 0 = Some [1, 2, 3]"
proof -
  obtain R' where f: "send_future ref_smol r_sent \<lparr>ts_handle = 0\<rparr> [1, 2, 3] 0 (ref_conn Established 2) (Inr 3) R'"
    using ref_send_future by blast
  have "tcp_view ref_smol r_sent (ref_conn Established 2) (ts_handle \<lparr>ts_handle = 0\<rparr>) = Some []"
    by (simp add: tcp_view_def ref_conn_def ref_smol_def)
  from send_writes_all [OF ref_set_law ref_poll_law ref_tcp_state_law ref_stream_law this f] f
  show ?thesis by auto
qed






definition ref_listener :: tcp_listener where
  "ref_listener = \<lparr>handles = [0], l_port = 80, rx_buffer_size = 4, tx_buffer_size = 4\<rparr>"




end
