(* ===== verification/Udp_Socket.thy ===== *)
theory Udp_Socket
  imports Reactor
begin

section \<open>UDP sockets (socket/udp.rs)\<close>

text \<open>
  A \<open>UdpSocket\<close> is a handle of a bound UDP socket in the reactor's set. Its futures carry no state across
  a suspension: each poll offers the same datagram, or the same buffer, again.
\<close>

record udp_socket =
  us_handle :: socket_handle

definition with_udp ::
  "('S, 't, 'u, 'i, 'd, 'z) smol_scheme \<Rightarrow> socket_handle \<Rightarrow> ('u \<Rightarrow> 'r \<times> 'u) \<Rightarrow> ('d, 'i, 'S) reactor_inner
     \<Rightarrow> ('r \<times> ('d, 'i, 'S) reactor_inner) outcome" where
  "with_udp F h g R =
     outcome_bind (get_udp F (sockets R) h) (\<lambda>u.
       case g u of (r, u') \<Rightarrow> Done (r, R\<lparr>sockets := sockets_put F h (Udp_sock u') (sockets R)\<rparr>))"

definition UdpSocket_bind ::
  "('S, 't, 'u, 'i, 'd, 'z) smol_scheme \<Rightarrow> u16 \<Rightarrow> nat \<Rightarrow> nat \<Rightarrow> nat \<Rightarrow> ('d, 'i, 'S) reactor_inner
     \<Rightarrow> (udp_bind_error + udp_socket) \<times> ('d, 'i, 'S) reactor_inner" where
  "UdpSocket_bind F port rx_buffer_packets tx_buffer_packets max_packet_size R =
     (case udp_bind F port (udp_new F rx_buffer_packets (rx_buffer_packets * max_packet_size)
                                     tx_buffer_packets (tx_buffer_packets * max_packet_size)) of
        Inl e \<Rightarrow> (Inl e, R)
      | Inr socket \<Rightarrow>
          (case sockets_add F (Udp_sock socket) (sockets R) of
             (h, S) \<Rightarrow> (Inr \<lparr>us_handle = h\<rparr>, R\<lparr>sockets := S\<rparr>)))"

definition UdpSocket_is_open ::
  "('S, 't, 'u, 'i, 'd, 'z) smol_scheme \<Rightarrow> udp_socket \<Rightarrow> ('d, 'i, 'S) reactor_inner \<Rightarrow> bool outcome" where
  "UdpSocket_is_open F s R = outcome_bind (get_udp F (sockets R) (us_handle s)) (\<lambda>u. Done (udp_is_open F u))"

definition UdpSocket_endpoint ::
  "('S, 't, 'u, 'i, 'd, 'z) smol_scheme \<Rightarrow> udp_socket \<Rightarrow> ('d, 'i, 'S) reactor_inner
     \<Rightarrow> (ip_address option \<times> u16) outcome" where
  "UdpSocket_endpoint F s R = outcome_bind (get_udp F (sockets R) (us_handle s)) (\<lambda>u. Done (udp_endpoint F u))"

definition UdpSocket_close ::
  "('S, 't, 'u, 'i, 'd, 'z) smol_scheme \<Rightarrow> udp_socket \<Rightarrow> ('d, 'i, 'S) reactor_inner
     \<Rightarrow> (unit \<times> ('d, 'i, 'S) reactor_inner) outcome" where
  "UdpSocket_close F s R = with_udp F (us_handle s) (\<lambda>u. ((), udp_close F u)) R"

definition UdpSocket_drop ::
  "('S, 't, 'u, 'i, 'd, 'z) smol_scheme \<Rightarrow> udp_socket \<Rightarrow> ('d, 'i, 'S) reactor_inner
     \<Rightarrow> ('d, 'i, 'S) reactor_inner outcome" where
  "UdpSocket_drop F s R =
     outcome_bind (with_udp F (us_handle s) (\<lambda>u. ((), udp_close F u)) R) (\<lambda>(_, R).
       Done (R\<lparr>sockets := sockets_remove F (us_handle s) (sockets R)\<rparr>))"

definition UdpSendFuture_poll ::
  "('S, 't, 'u, 'i, 'd, 'z) smol_scheme \<Rightarrow> udp_socket \<Rightarrow> u8 list \<Rightarrow> ip_endpoint \<Rightarrow> waker \<Rightarrow> ('d, 'i, 'S) reactor_inner
     \<Rightarrow> ((udp_send_error + nat) poll \<times> ('d, 'i, 'S) reactor_inner) outcome" where
  "UdpSendFuture_poll F s data endpoint cx R =
     with_udp F (us_handle s) (\<lambda>u.
       case udp_send_slice F data endpoint u of
         (Inr ok, u') \<Rightarrow> (Ready (Inr (length data)), u')
       | (Inl Send_BufferFull, u') \<Rightarrow> (Pending, udp_register_send_waker F cx u')
       | (Inl e, u') \<Rightarrow> (Ready (Inl e), u')) R"

definition UdpRecvFuture_poll ::
  "('S, 't, 'u, 'i, 'd, 'z) smol_scheme \<Rightarrow> udp_socket \<Rightarrow> nat \<Rightarrow> waker \<Rightarrow> ('d, 'i, 'S) reactor_inner
     \<Rightarrow> ((udp_recv_error + u8 list \<times> ip_endpoint) poll \<times> ('d, 'i, 'S) reactor_inner) outcome" where
  "UdpRecvFuture_poll F s buf_len cx R =
     with_udp F (us_handle s) (\<lambda>u.
       case udp_recv_slice F buf_len u of
         (Inr (bs, metadata), u') \<Rightarrow> (Ready (Inr (bs, metadata)), u')
       | (Inl Recv_Exhausted, u') \<Rightarrow> (Pending, udp_register_recv_waker F cx u')
       | (Inl e, u') \<Rightarrow> (Ready (Inl e), u')) R"

subsection \<open>Datagrams\<close>

text \<open>
  \<open>dsent u\<close> are the datagrams the socket has accepted so far, \<open>dgot u\<close> those it has taken from its queue
  for the application.
\<close>

definition udp_law ::
  "('S, 't, 'u, 'i, 'd, 'z) smol_scheme \<Rightarrow> ('u \<Rightarrow> (u8 list \<times> ip_endpoint) list) \<Rightarrow> bool" where
  "udp_law F dsent \<longleftrightarrow>
     (\<forall>bs ep u r u'. udp_send_slice F bs ep u = (r, u') \<longrightarrow>
        dsent u' = (case r of Inr _ \<Rightarrow> dsent u @ [(bs, ep)] | Inl e \<Rightarrow> dsent u))
     \<and> (\<forall>k u. dsent (udp_register_send_waker F k u) = dsent u)"

definition udp_view ::
  "('S, 't, 'u, 'i, 'd, 'z) smol_scheme \<Rightarrow> ('u \<Rightarrow> 'a) \<Rightarrow> ('d, 'i, 'S) reactor_inner \<Rightarrow> socket_handle \<Rightarrow> 'a option" where
  "udp_view F v R h = (case sockets_get F (sockets R) h of Some (Udp_sock u) \<Rightarrow> Some (v u) | _ \<Rightarrow> None)"

lemma udp_view_Some: "udp_view F v R h = Some x \<longleftrightarrow> (\<exists>u. sockets_get F (sockets R) h = Some (Udp_sock u) \<and> x = v u)"
  by (auto simp: udp_view_def split: option.splits sock.splits)

lemma with_udp_Done:
  "sockets_get F (sockets R) h = Some (Udp_sock u) \<Longrightarrow>
   with_udp F h g R = Done (fst (g u), R\<lparr>sockets := sockets_put F h (Udp_sock (snd (g u))) (sockets R)\<rparr>)"
  by (simp add: with_udp_def get_udp_def split: prod.splits)

text \<open>The future of \<open>send_to\<close> from its first poll to its result.\<close>

inductive udp_send_future ::
  "('S, 't, 'u, 'i, 'd, 'z) smol_scheme \<Rightarrow> ('u \<Rightarrow> (u8 list \<times> ip_endpoint) list) \<Rightarrow> udp_socket \<Rightarrow> u8 list \<Rightarrow> ip_endpoint
     \<Rightarrow> ('d, 'i, 'S) reactor_inner \<Rightarrow> udp_send_error + nat \<Rightarrow> ('d, 'i, 'S) reactor_inner \<Rightarrow> bool"
  for F dsent s data ep where
  finished: "UdpSendFuture_poll F s data ep cx R = Done (Ready r, R') \<Longrightarrow> udp_send_future F dsent s data ep R r R'"
| suspended: "UdpSendFuture_poll F s data ep cx R = Done (Pending, R1) \<Longrightarrow>
    udp_view F dsent R2 (us_handle s) = udp_view F dsent R1 (us_handle s) \<Longrightarrow>
    udp_send_future F dsent s data ep R2 r R' \<Longrightarrow> udp_send_future F dsent s data ep R r R'"

lemma udp_send_poll:
  assumes "set_law F" "udp_law F dsent" and "udp_view F dsent R (us_handle s) = Some ds"
    and "UdpSendFuture_poll F s data ep cx R = Done (r, R')"
  shows "udp_view F dsent R' (us_handle s) = Some (case r of Ready (Inr n) \<Rightarrow> ds @ [(data, ep)] | _ \<Rightarrow> ds)
    \<and> (\<forall>n. r = Ready (Inr n) \<longrightarrow> n = length data)"
proof -
  from assms(3) obtain u where u: "sockets_get F (sockets R) (us_handle s) = Some (Udp_sock u)" "ds = dsent u"
    by (auto simp: udp_view_Some)
  obtain x u1 where sl: "udp_send_slice F data ep u = (x, u1)" by fastforce
  have d: "dsent u1 = (case x of Inr _ \<Rightarrow> dsent u @ [(data, ep)] | Inl e \<Rightarrow> dsent u)"
    "dsent (udp_register_send_waker F cx u1) = dsent u1"
    using assms(2) sl unfolding udp_law_def by blast+
  have put: "sockets_get F (sockets_put F (us_handle s) y (sockets R)) (us_handle s) = Some y" for y
    using set_lawD(4) [OF assms(1)] u(1) by simp
  show ?thesis
  proof (cases x)
    case (Inr y)
    with assms(4) sl d u put show ?thesis
      by (auto simp: UdpSendFuture_poll_def with_udp_Done [OF u(1)] udp_view_def)
  next
    case (Inl e)
    with assms(4) sl d u put show ?thesis
      by (cases e) (auto simp: UdpSendFuture_poll_def with_udp_Done [OF u(1)] udp_view_def)
  qed
qed

subsection \<open>Properties\<close>

text \<open>
  C30. \<open>UdpSocket::send_to\<close> sends a datagram whole and once. However often its future is suspended on a full
  buffer, when it completes the socket has accepted exactly one datagram with the given bytes for the
  given endpoint and the result is its length; when it fails, the socket has accepted none.
\<close>

theorem udp_sends_once:
  assumes "set_law F" "udp_law F dsent" and "udp_send_future F dsent s data ep R r R'"
    and "udp_view F dsent R (us_handle s) = Some ds"
  shows "udp_view F dsent R' (us_handle s) = Some (case r of Inr n \<Rightarrow> ds @ [(data, ep)] | Inl e \<Rightarrow> ds)
    \<and> (\<forall>n. r = Inr n \<longrightarrow> n = length data)"
  using assms(3,4)
proof (induction rule: udp_send_future.induct)
  case (finished cx R r R')
  from udp_send_poll [OF assms(1,2) finished.prems finished.hyps] show ?case by (auto split: sum.splits)
next
  case (suspended cx R R1 R2 r R')
  from udp_send_poll [OF assms(1,2) suspended.prems suspended.hyps(1)]
  have "udp_view F dsent R1 (us_handle s) = Some ds" by simp
  then show ?case using suspended.IH unfolding suspended.hyps(2) by blast
qed

lemma ref_udp_law: "udp_law ref_smol r_out"
  by (auto simp: udp_law_def ref_smol_def split: if_splits)

definition ref_udp_reactor :: "(nat, ref_event list, ref_set) reactor_inner" where
  "ref_udp_reactor = \<lparr>device = 0, iface = [], sockets = \<lparr>r_next = 1, r_tab = [0 \<mapsto> Udp_sock
     \<lparr>r_port = 53, r_in = [], r_out = [], r_slots = 4\<rparr>]\<rparr>, orphaned_closing = []\<rparr>"

theorem udp_sends_once_witness:
  "\<exists>R'. udp_send_future ref_smol r_out \<lparr>us_handle = 0\<rparr> [1, 2] \<lparr>ep_addr = Ipv4Address (Ipv4 10 0 0 1), ep_port = 9\<rparr>
      ref_udp_reactor (Inr 2) R'
    \<and> udp_view ref_smol r_out R' 0 = Some [([1, 2], \<lparr>ep_addr = Ipv4Address (Ipv4 10 0 0 1), ep_port = 9\<rparr>)]"
proof -
  let ?ep = "\<lparr>ep_addr = Ipv4Address (Ipv4 10 0 0 1), ep_port = 9\<rparr>"
  obtain R' where "UdpSendFuture_poll ref_smol \<lparr>us_handle = 0\<rparr> [1, 2] ?ep 7 ref_udp_reactor = Done (Ready (Inr 2), R')"
    by (simp add: UdpSendFuture_poll_def with_udp_def get_udp_def ref_smol_def ref_udp_reactor_def)
  then have f: "udp_send_future ref_smol r_out \<lparr>us_handle = 0\<rparr> [1, 2] ?ep ref_udp_reactor (Inr 2) R'"
    by (rule udp_send_future.finished)
  have "udp_view ref_smol r_out ref_udp_reactor (us_handle \<lparr>us_handle = 0\<rparr>) = Some []"
    by (simp add: udp_view_def ref_smol_def ref_udp_reactor_def)
  from udp_sends_once [OF ref_set_law ref_udp_law f this] f show ?thesis by auto
qed

end
