(* ===== verification/Socket_System.thy ===== *)
theory Socket_System
  imports Tcp_Socket Udp_Socket "HOL-Library.Multiset"
begin

section \<open>All sockets of a worker together\<close>

text \<open>
  The streams, listeners and UDP sockets that the tasks of a worker hold, with the reactor state they
  share. A step is one call of one of them, its drop, or a turn of the reactor, in any order. Every
  access of a handle is checked by smoltcp and panics when the handle is not in the set; the
  invariant says that each socket of the set is owned exactly once, by a wrapper of its kind or by the
  orphan list, so that no access fails, no socket is removed twice and none is leaked.
\<close>

record ('d, 'i, 'S) sock_sys =
  rt :: "('d, 'i, 'S) reactor_inner"
  streams :: "tcp_stream multiset"
  listeners :: "tcp_listener multiset"
  udps :: "udp_socket multiset"

definition tcp_own :: "('d, 'i, 'S) sock_sys \<Rightarrow> socket_handle multiset" where
  "tcp_own y = image_mset ts_handle (streams y) + (\<Sum>l\<in>#listeners y. mset (handles l))
     + mset (orphaned_closing (rt y))"

definition udp_own :: "('d, 'i, 'S) sock_sys \<Rightarrow> socket_handle multiset" where
  "udp_own y = image_mset us_handle (udps y)"

definition sys_inv :: "('S, 't, 'u, 'i, 'd, 'z) smol_scheme \<Rightarrow> ('d, 'i, 'S) sock_sys \<Rightarrow> bool" where
  "sys_inv F y \<longleftrightarrow>
     (\<forall>h. count (tcp_own y) h = (if tcp_at F (sockets (rt y)) h then 1 else 0))
     \<and> (\<forall>h. count (udp_own y) h = (if udp_at F (sockets (rt y)) h then 1 else 0))"

definition sys_start :: "('S, 't, 'u, 'i, 'd, 'z) smol_scheme \<Rightarrow> 'd \<Rightarrow> 'i \<Rightarrow> ('d, 'i, 'S) sock_sys" where
  "sys_start F d i = \<lparr>rt = Reactor_new F d i, streams = {#}, listeners = {#}, udps = {#}\<rparr>"

inductive sys_step ::
  "('S, 't, 'u, 'i, 'd, 'z) smol_scheme \<Rightarrow> ('d, 'i, 'S) sock_sys \<Rightarrow> ('d, 'i, 'S) sock_sys \<Rightarrow> bool" for F where
  connect: "TcpStream_connect F addr port lport rx tx (rt y) = (Inr s, R) \<Longrightarrow>
    sys_step F y (y\<lparr>rt := R, streams := add_mset s (streams y)\<rparr>)"
| connect_fails: "TcpStream_connect F addr port lport rx tx (rt y) = (Inl e3, R) \<Longrightarrow> sys_step F y (y\<lparr>rt := R\<rparr>)"
| recv: "s \<in># streams y \<Longrightarrow> poll_recv F s cx n (rt y) = Done (r4, R) \<Longrightarrow> sys_step F y (y\<lparr>rt := R\<rparr>)"
| send: "s \<in># streams y \<Longrightarrow> poll_send F s cx bs (rt y) = Done (r5, R) \<Longrightarrow> sys_step F y (y\<lparr>rt := R\<rparr>)"
| flush: "s \<in># streams y \<Longrightarrow> poll_flush_io F s cx (rt y) = Done (r6, R) \<Longrightarrow> sys_step F y (y\<lparr>rt := R\<rparr>)"
| close: "s \<in># streams y \<Longrightarrow> poll_close_io F s cx (rt y) = Done (r7, R) \<Longrightarrow> sys_step F y (y\<lparr>rt := R\<rparr>)"
| abort: "s \<in># streams y \<Longrightarrow> TcpStream_abort F s (rt y) = Done (r8, R) \<Longrightarrow> sys_step F y (y\<lparr>rt := R\<rparr>)"
| wait_connected: "s \<in># streams y \<Longrightarrow> WaitConnectedFuture_poll F s cx (rt y) = Done (r9, R) \<Longrightarrow> sys_step F y (y\<lparr>rt := R\<rparr>)"
| drop_stream: "s \<in># streams y \<Longrightarrow> TcpStream_drop F s (rt y) = Done R \<Longrightarrow>
    sys_step F y (y\<lparr>rt := R, streams := streams y - {#s#}\<rparr>)"
| bind_listener: "TcpListener_bind_with_backlog F port rx tx backlog (rt y) = (Inr l, R) \<Longrightarrow>
    sys_step F y (y\<lparr>rt := R, listeners := add_mset l (listeners y)\<rparr>)"
| bind_fails: "TcpListener_bind_with_backlog F port rx tx backlog (rt y) = (Inl e12, R) \<Longrightarrow> sys_step F y (y\<lparr>rt := R\<rparr>)"
| accepted: "l \<in># listeners y \<Longrightarrow> AcceptFuture_poll F l cx (rt y) = Done (Ready (Inr s), l', R) \<Longrightarrow>
    sys_step F y (y\<lparr>rt := R, streams := add_mset s (streams y), listeners := add_mset l' (listeners y - {#l#})\<rparr>)"
| accept_waits: "l \<in># listeners y \<Longrightarrow> AcceptFuture_poll F l cx (rt y) = Done (r14, l', R) \<Longrightarrow> \<forall>s. r14 \<noteq> Ready (Inr s) \<Longrightarrow>
    sys_step F y (y\<lparr>rt := R, listeners := add_mset l' (listeners y - {#l#})\<rparr>)"
| drop_listener: "l \<in># listeners y \<Longrightarrow> TcpListener_drop F l (rt y) = Done R \<Longrightarrow>
    sys_step F y (y\<lparr>rt := R, listeners := listeners y - {#l#}\<rparr>)"
| udp_bind: "UdpSocket_bind F port rxn txn psize (rt y) = (Inr u, R) \<Longrightarrow>
    sys_step F y (y\<lparr>rt := R, udps := add_mset u (udps y)\<rparr>)"
| udp_bind_fails: "UdpSocket_bind F port rxn txn psize (rt y) = (Inl e17, R) \<Longrightarrow> sys_step F y (y\<lparr>rt := R\<rparr>)"
| udp_send: "u \<in># udps y \<Longrightarrow> UdpSendFuture_poll F u bs ep cx (rt y) = Done (r18, R) \<Longrightarrow> sys_step F y (y\<lparr>rt := R\<rparr>)"
| udp_recv: "u \<in># udps y \<Longrightarrow> UdpRecvFuture_poll F u n cx (rt y) = Done (r19, R) \<Longrightarrow> sys_step F y (y\<lparr>rt := R\<rparr>)"
| udp_close: "u \<in># udps y \<Longrightarrow> UdpSocket_close F u (rt y) = Done (r20, R) \<Longrightarrow> sys_step F y (y\<lparr>rt := R\<rparr>)"
| udp_drop: "u \<in># udps y \<Longrightarrow> UdpSocket_drop F u (rt y) = Done R \<Longrightarrow> sys_step F y (y\<lparr>rt := R, udps := udps y - {#u#}\<rparr>)"
| turn: "reactor_turn F batch_size ts (rt y) = Done R \<Longrightarrow> sys_step F y (y\<lparr>rt := R\<rparr>)"

subsection \<open>How an operation changes the set\<close>

text \<open>
  Every operation is one of three: it keeps the kind of every handle, adds one fresh handle, or takes
  one out. \<open>owns F S T U\<close> is the invariant over the multisets of owned handles.
\<close>

definition owns :: "('S, 't, 'u, 'i, 'd, 'z) smol_scheme \<Rightarrow> 'S \<Rightarrow> socket_handle multiset \<Rightarrow> socket_handle multiset \<Rightarrow> bool" where
  "owns F S T U \<longleftrightarrow> (\<forall>h. count T h = (if tcp_at F S h then 1 else 0)) \<and> (\<forall>h. count U h = (if udp_at F S h then 1 else 0))"

lemma sys_inv_owns: "sys_inv F y \<longleftrightarrow> owns F (sockets (rt y)) (tcp_own y) (udp_own y)"
  by (simp add: sys_inv_def owns_def)

lemma owns_at: "owns F S T U \<Longrightarrow> h \<in># T \<longleftrightarrow> tcp_at F S h" "owns F S T U \<Longrightarrow> h \<in># U \<longleftrightarrow> udp_at F S h"
  unfolding owns_def by (metis count_eq_zero_iff zero_neq_one)+

lemma owns_same: "owns F S T U \<Longrightarrow> same_kinds F S S' \<Longrightarrow> owns F S' T U"
  using same_kinds_at [of F S S'] by (simp add: owns_def)

lemma owns_cong: "owns F S T U \<Longrightarrow> (\<And>h. sockets_get F S' h = sockets_get F S h) \<Longrightarrow> owns F S' T U"
  by (simp add: owns_def tcp_at_def udp_at_def)

lemma owns_add:
  assumes "owns F S T U" and "sockets_get F S h = None"
    and "\<forall>k. sockets_get F S' k = (if k = h then Some x else sockets_get F S k)"
  shows "is_tcp x \<Longrightarrow> owns F S' (add_mset h T) U" "\<not> is_tcp x \<Longrightarrow> owns F S' T (add_mset h U)"
  using assms by (auto simp: owns_def tcp_at_def udp_at_def)

lemma owns_remove:
  assumes "owns F S T U" and "\<forall>k. sockets_get F S' k = (if k = h then None else sockets_get F S k)"
  shows "tcp_at F S h \<Longrightarrow> owns F S' (T - {#h#}) U" "udp_at F S h \<Longrightarrow> owns F S' T (U - {#h#})"
  using assms by (auto simp: owns_def tcp_at_def udp_at_def)

text \<open>Operations that only look at, or change in place, one socket.\<close>

definition keeps_kinds :: "('S, 't, 'u, 'i, 'd, 'z) smol_scheme \<Rightarrow> ('d, 'i, 'S) reactor_inner \<Rightarrow> ('d, 'i, 'S) reactor_inner \<Rightarrow> bool" where
  "keeps_kinds F R R' \<longleftrightarrow> same_kinds F (sockets R) (sockets R') \<and> orphaned_closing R' = orphaned_closing R"

lemma keeps_kinds_refl [simp]: "keeps_kinds F R R"
  by (simp add: keeps_kinds_def)

lemma keeps_kinds_trans: "keeps_kinds F R R' \<Longrightarrow> keeps_kinds F R' R'' \<Longrightarrow> keeps_kinds F R R''"
  by (auto simp: keeps_kinds_def intro: same_kinds_trans)

lemma with_udp_kinds:
  assumes "set_law F" and "udp_at F (sockets R) h"
  shows "\<exists>r R'. with_udp F h g R = Done (r, R') \<and> keeps_kinds F R R'"
proof -
  from assms(2) obtain u where u: "sockets_get F (sockets R) h = Some (Udp_sock u)" by (auto simp: udp_at_iff)
  then show ?thesis
    using set_lawD(4) [OF assms(1), of "sockets R" h]
    by (simp add: with_udp_Done [OF u] keeps_kinds_def same_kinds_def)
qed

lemma count_retain:
  assumes "count T h + count (mset xs) h = (if a then 1 else 0)"
  shows "count T h + count (mset (filter P xs)) h = (if a \<and> \<not> (h \<in> set xs \<and> \<not> P h) then 1 else 0)"
proof (cases "h \<in> set xs")
  case True
  then have c: "1 \<le> count (mset xs) h" by (simp add: Suc_le_eq)
  with assms have a: "a" by (cases a) auto
  with assms have "count T h + count (mset xs) h = 1" by (simp only: if_True)
  with c have "count T h = 0" and "count (mset xs) h = 1" by linarith+
  with True a show ?thesis by (simp add: mset_filter)
next
  case False
  then have "count (mset xs) h = 0" by (simp add: count_eq_zero_iff)
  with assms False show ?thesis by (simp add: mset_filter)
qed

lemma distinct_countI: "(\<And>h. count (mset xs) h \<le> 1) \<Longrightarrow> distinct xs"
  by (metis count_mset_gt_0 distinct_count_atmost_1 le_neq_implies_less less_one not_gr_zero not_less_iff_gr_or_eq count_eq_zero_iff set_mset_mset)

context tcp_stack
begin

lemma with_tcp_kinds:
  assumes "tcp_at F (sockets R) h"
  shows "\<exists>r R'. with_tcp F h g R = Done (r, R') \<and> keeps_kinds F R R'"
proof -
  from assms obtain t where t: "sockets_get F (sockets R) h = Some (Tcp_sock t)" by (auto simp: tcp_at_iff)
  obtain r R' where w: "with_tcp F h g R = Done (r, R')" using with_tcp_Done [OF t] by auto
  with with_tcp_get(3,6) [OF t w] show ?thesis by (simp add: keeps_kinds_def)
qed

lemma with_tcp_kindsE:
  assumes "tcp_at F (sockets R) h"
  obtains r R' where "with_tcp F h g R = Done (r, R')" and "keeps_kinds F R R'"
  using with_tcp_kinds [OF assms, of g] that by blast

lemma stream_ops_kinds:
  assumes at: "tcp_at F (sockets R) (ts_handle s)"
  shows "\<exists>r R'. poll_recv F s cx n R = Done (r, R') \<and> keeps_kinds F R R'"
    "\<exists>r R'. poll_send F s cx bs R = Done (r, R') \<and> keeps_kinds F R R'"
    "\<exists>r R'. poll_flush_io F s cx R = Done (r, R') \<and> keeps_kinds F R R'"
    "\<exists>r R'. poll_close_io F s cx R = Done (r, R') \<and> keeps_kinds F R R'"
    "\<exists>r R'. TcpStream_abort F s R = Done (r, R') \<and> keeps_kinds F R R'"
    "\<exists>r R'. WaitConnectedFuture_poll F s cx R = Done (r, R') \<and> keeps_kinds F R R'"
proof -
  show "\<exists>r R'. poll_recv F s cx n R = Done (r, R') \<and> keeps_kinds F R R'"
    unfolding poll_recv_def by (cases "n = 0") (simp_all add: with_tcp_kinds [OF at])
  show "\<exists>r R'. poll_send F s cx bs R = Done (r, R') \<and> keeps_kinds F R R'"
    unfolding poll_send_def by (rule with_tcp_kinds [OF at])
  show "\<exists>r R'. TcpStream_abort F s R = Done (r, R') \<and> keeps_kinds F R R'"
    unfolding TcpStream_abort_def by (rule with_tcp_kinds [OF at])
  show "\<exists>r R'. WaitConnectedFuture_poll F s cx R = Done (r, R') \<and> keeps_kinds F R R'"
    unfolding WaitConnectedFuture_poll_def by (rule with_tcp_kinds [OF at])
  from at obtain t where "get_tcp F (sockets R) (ts_handle s) = Done t" by (auto simp: tcp_at_iff get_tcp_Done)
  then show "\<exists>r R'. poll_flush_io F s cx R = Done (r, R') \<and> keeps_kinds F R R'"
    unfolding poll_flush_io_def by (simp add: with_tcp_kinds [OF at])
  obtain fin R1 where w1: "with_tcp F (ts_handle s) (\<lambda>t.
         if tcp_state_of F t \<in> {Closed, TimeWait} then (True, t)
         else if tcp_state_of F t \<in> {FinWait1, FinWait2, Closing, LastAck} then (False, t)
         else (False, tcp_close F t)) R = Done (fin, R1)" and k1: "keeps_kinds F R R1"
    by (rule with_tcp_kindsE [OF at])
  have at1: "tcp_at F (sockets R1) (ts_handle s)"
    using at k1 same_kinds_at [of F "sockets R" "sockets R1"] by (simp add: keeps_kinds_def)
  obtain r2 R2 where w2: "with_tcp F (ts_handle s) (\<lambda>t.
                if tcp_state_of F t \<in> {Closed, TimeWait} then (Ready (Inr ()), t)
                else (Pending, tcp_register_send_waker F cx t)) R1 = Done (r2 :: (io_error + unit) poll, R2)"
    and k2: "keeps_kinds F R1 R2"
    by (rule with_tcp_kindsE [OF at1])
  show "\<exists>r R'. poll_close_io F s cx R = Done (r, R') \<and> keeps_kinds F R R'"
    using w1 w2 k1 keeps_kinds_trans [OF k1 k2] by (cases fin) (simp_all add: poll_close_io_def)
qed

lemma drop_stream_owns:
  assumes own: "owns F (sockets R) (add_mset (ts_handle s) T + mset (orphaned_closing R)) U"
  shows "\<exists>R'. TcpStream_drop F s R = Done R' \<and> owns F (sockets R') (T + mset (orphaned_closing R')) U"
proof -
  let ?h = "ts_handle s"
  have at: "tcp_at F (sockets R) ?h" using owns_at(1) [OF own, of ?h] by simp
  then obtain t where t: "sockets_get F (sockets R) ?h = Some (Tcp_sock t)" by (auto simp: tcp_at_iff)
  have rm: "owns F (sockets_remove F ?h (sockets R)) (T + mset (orphaned_closing R)) U"
    using owns_remove(1) [OF own _ at, of "sockets_remove F ?h (sockets R)"] gets(5) [of "sockets R" ?h] t by simp
  have put: "same_kinds F (sockets R) (sockets_put F ?h (Tcp_sock (tcp_abort F t)) (sockets R))"
    using gets(4) [of "sockets R" ?h] t by (simp add: same_kinds_def)
  have eq: "T + mset (orphaned_closing R @ [?h]) = add_mset ?h T + mset (orphaned_closing R)" by simp
  have "get_tcp F (sockets R) ?h = Done t" using t by (simp add: get_tcp_def)
  then show ?thesis
    using rm own owns_same [OF own put] by (simp add: TcpStream_drop_def eq del: mset_append)
qed

lemma drop_listening_owns:
  assumes "owns F S (mset hs + T) U"
  shows "\<exists>S'. drop_listening F hs S = Done S' \<and> owns F S' T U"
  using assms
proof (induction hs arbitrary: S)
  case (Cons h hs)
  have at: "tcp_at F S h" using owns_at(1) [OF Cons.prems, of h] by simp
  then obtain t where t: "sockets_get F S h = Some (Tcp_sock t)" by (auto simp: tcp_at_iff)
  define S1 where "S1 = (if tcp_state_of F t \<noteq> Closed then sockets_put F h (Tcp_sock (tcp_abort F t)) S else S)"
  have k: "same_kinds F S S1" using gets(4) [of S h] t by (simp add: S1_def same_kinds_def)
  note own1 = owns_same [OF Cons.prems k]
  have at1: "tcp_at F S1 h" using at same_kinds_at [OF k] by simp
  then have "\<forall>k. sockets_get F (sockets_remove F h S1) k = (if k = h then None else sockets_get F S1 k)"
    using gets(5) [of S1 h] by (auto simp: tcp_at_iff)
  from owns_remove(1) [OF own1 this at1] have "owns F (sockets_remove F h S1) (mset hs + T) U" by simp
  note ih = Cons.IH [OF this]
  have "drop_listening F (h # hs) S = drop_listening F hs (sockets_remove F h S1)"
    using t by (simp add: get_tcp_def S1_def)
  with ih show ?case by (simp only: simp_thms)
qed simp

lemma connect_owns:
  assumes c: "TcpStream_connect F a p lp rx tx R = (x, R')" and own: "owns F (sockets R) (T + mset (orphaned_closing R)) U"
  shows "case x of Inl e \<Rightarrow> R' = R
    | Inr s \<Rightarrow> owns F (sockets R') (add_mset (ts_handle s) T + mset (orphaned_closing R')) U"
proof (cases "tcp_connect F (iface R) \<lparr>ep_addr = a, ep_port = p\<rparr> lp (tcp_new F rx tx)")
  case (Inl e)
  with c show ?thesis by (auto simp: TcpStream_connect_def)
next
  case (Inr t)
  obtain h S where a: "sockets_add F (Tcp_sock t) (sockets R) = (h, S)" by fastforce
  have "owns F S (add_mset h (T + mset (orphaned_closing R))) U"
    using owns_add(1) [OF own gets(2) [OF a], of S "Tcp_sock t"] gets(3) [OF a] by simp
  then show ?thesis using c Inr a by (auto simp: TcpStream_connect_def)
qed

lemma create_listening_owns:
  assumes c: "create_listening_socket F p rx tx R = (Inr h, R')" and own: "owns F (sockets R) T U"
  shows "owns F (sockets R') (add_mset h T) U \<and> orphaned_closing R' = orphaned_closing R"
proof -
  from create_listening_cases [OF c] obtain t where "sockets_get F (sockets R) h = None"
    "\<forall>k. sockets_get F (sockets R') k = (if k = h then Some (Tcp_sock t) else sockets_get F (sockets R) k)"
    and R': "R' = R\<lparr>sockets := sockets R'\<rparr>" by auto
  from owns_add(1) [OF own this(1,2)] have "owns F (sockets R') (add_mset h T) U" by simp
  moreover have "orphaned_closing R' = orphaned_closing R" by (subst R') simp
  ultimately show ?thesis by simp
qed

text \<open>
  Whether \<open>listen\<close> on a fresh socket succeeds depends on the port only, so a \<open>bind\<close> that fails fails at its
  first socket and leaves nothing behind.
\<close>

lemma backlog_loop_ok:
  assumes "backlog_loop F p rx tx n hs R = (x, R')" and "\<not> isl (tcp_listen F p (tcp_new F rx tx))"
  shows "\<not> isl x"
  using assms
proof (induction n arbitrary: hs R)
  case (Suc n)
  obtain y R1 where c: "create_listening_socket F p rx tx R = (y, R1)" by fastforce
  from create_listening_cases [OF c] Suc.prems(2) obtain h where "y = Inr h" by (cases y) auto
  then show ?case using Suc c by simp
qed auto

lemma backlog_loop_owns:
  assumes "backlog_loop F p rx tx n hs R = (x, R')" and "owns F (sockets R) (mset hs + T) U"
  shows "case x of Inl e \<Rightarrow> R' = R
    | Inr hs' \<Rightarrow> length hs' = length hs + n \<and> owns F (sockets R') (mset hs' + T) U \<and> orphaned_closing R' = orphaned_closing R"
  using assms
proof (induction n arbitrary: hs R)
  case (Suc n)
  obtain y R1 where c: "create_listening_socket F p rx tx R = (y, R1)" by fastforce
  note cc = create_listening_cases [OF c]
  show ?case
  proof (cases y)
    case (Inl e)
    with Suc.prems c cc show ?thesis by auto
  next
    case (Inr h)
    have nl: "\<not> isl (tcp_listen F p (tcp_new F rx tx))" using cc Inr by auto
    have b: "backlog_loop F p rx tx n (hs @ [h]) R1 = (x, R')" using Suc.prems(1) c Inr by simp
    have o1: "owns F (sockets R1) (mset (hs @ [h]) + T) U" "orphaned_closing R1 = orphaned_closing R"
      using create_listening_owns [OF c [unfolded Inr] Suc.prems(2)] by simp_all
    have "\<not> isl x" using b nl by (rule backlog_loop_ok)
    then show ?thesis using Suc.IH [OF b o1(1)] o1(2) by (cases x) simp_all
  qed
qed auto

lemma bind_owns:
  assumes "TcpListener_bind_with_backlog F p rx tx n R = (x, R')"
    and "owns F (sockets R) (T + mset (orphaned_closing R)) U"
  shows "case x of Inl e \<Rightarrow> R' = R
    | Inr l \<Rightarrow> owns F (sockets R') (mset (handles l) + T + mset (orphaned_closing R')) U"
proof -
  obtain y R1 where b: "backlog_loop F p rx tx (max n 1) [] R = (y, R1)" by fastforce
  show ?thesis
    using backlog_loop_owns [OF b, of "T + mset (orphaned_closing R)" U] assms b
    by (cases y) (auto simp: TcpListener_bind_with_backlog_def add.assoc)
qed

lemma accept_owns:
  assumes own: "owns F (sockets R) (mset (handles l) + T) U"
  shows "\<exists>r l' R'. AcceptFuture_poll F l cx R = Done (r, l', R') \<and> orphaned_closing R' = orphaned_closing R
    \<and> owns F (sockets R') ((case r of Ready (Inr s) \<Rightarrow> {#ts_handle s#} | _ \<Rightarrow> {#}) + mset (handles l') + T) U"
proof -
  have "\<forall>h \<in> set (handles l). tcp_at F (sockets R) h" using owns_at(1) [OF own] by auto
  then show ?thesis
  proof (cases rule: accept_cases [where cx = cx, case_names taken refused dead waiting])
    case (taken idx h t R')
    have "orphaned_closing R' = orphaned_closing R" by (subst taken(8)) simp
    moreover have "owns F (sockets R') (add_mset h (mset (handles l) + T)) U"
      using owns_add(1) [OF own taken(5,7)] by simp
    moreover have "add_mset h (mset (handles l) + T) = add_mset (handles l ! idx) (mset ((handles l)[idx := h]) + T)"
      using taken(1) by (simp add: mset_update flip: union_mset_add_mset_left)
    ultimately show ?thesis using taken(4) by simp
  next
    case (waiting S)
    then show ?thesis using owns_same [OF own] by simp
  qed (use own in simp_all)
qed

lemma drop_listener_owns:
  assumes "owns F (sockets R) (mset (handles l) + T) U"
  shows "\<exists>R'. TcpListener_drop F l R = Done R' \<and> owns F (sockets R') T U \<and> orphaned_closing R' = orphaned_closing R"
  using drop_listening_owns [OF assms] by (auto simp: TcpListener_drop_def)

lemma udp_ops_kinds:
  assumes at: "udp_at F (sockets R) (us_handle u)"
  shows "\<exists>r R'. UdpSendFuture_poll F u bs ep cx R = Done (r, R') \<and> keeps_kinds F R R'"
    "\<exists>r R'. UdpRecvFuture_poll F u n cx R = Done (r, R') \<and> keeps_kinds F R R'"
    "\<exists>r R'. UdpSocket_close F u R = Done (r, R') \<and> keeps_kinds F R R'"
  unfolding UdpSendFuture_poll_def UdpRecvFuture_poll_def UdpSocket_close_def
  by (rule with_udp_kinds [OF set_ok at])+

lemma udp_bind_owns:
  assumes c: "UdpSocket_bind F p rxn txn ps R = (x, R')" and own: "owns F (sockets R) T U"
  shows "case x of Inl e \<Rightarrow> R' = R
    | Inr u \<Rightarrow> owns F (sockets R') T (add_mset (us_handle u) U) \<and> orphaned_closing R' = orphaned_closing R"
proof (cases "udp_bind F p (udp_new F rxn (rxn * ps) txn (txn * ps))")
  case (Inl e)
  with c show ?thesis by (auto simp: UdpSocket_bind_def)
next
  case (Inr u)
  obtain h S where a: "sockets_add F (Udp_sock u) (sockets R) = (h, S)" by fastforce
  have "owns F S T (add_mset h U)"
    using owns_add(2) [OF own gets(2) [OF a], of S "Udp_sock u"] gets(3) [OF a] by simp
  then show ?thesis using c Inr a by (auto simp: UdpSocket_bind_def)
qed

lemma udp_drop_owns:
  assumes own: "owns F (sockets R) T (add_mset (us_handle u) U)"
  shows "\<exists>R'. UdpSocket_drop F u R = Done R' \<and> owns F (sockets R') T U \<and> orphaned_closing R' = orphaned_closing R"
proof -
  have at: "udp_at F (sockets R) (us_handle u)" using owns_at(2) [OF own, of "us_handle u"] by simp
  obtain r R1 where w: "with_udp F (us_handle u) (\<lambda>u. ((), udp_close F u)) R = Done (r, R1)"
    and k: "same_kinds F (sockets R) (sockets R1)" "orphaned_closing R1 = orphaned_closing R"
    using udp_ops_kinds(3) [OF at] by (auto simp: UdpSocket_close_def keeps_kinds_def)
  have at1: "udp_at F (sockets R1) (us_handle u)" using at same_kinds_at [OF k(1)] by simp
  then have "\<forall>j. sockets_get F (sockets_remove F (us_handle u) (sockets R1)) j =
      (if j = us_handle u then None else sockets_get F (sockets R1) j)"
    using gets(5) [of "sockets R1" "us_handle u"] by (auto simp: udp_at_iff)
  from owns_remove(2) [OF owns_same [OF own k(1)] this at1]
  have "owns F (sockets_remove F (us_handle u) (sockets R1)) T U" by simp
  then show ?thesis using w k(2) by (simp add: UdpSocket_drop_def)
qed

lemma turn_owns:
  assumes own: "owns F (sockets R) (T + mset (orphaned_closing R)) U"
  shows "\<exists>R'. reactor_turn F n ts R = Done R' \<and> owns F (sockets R') (T + mset (orphaned_closing R')) U"
proof -
  have c1: "count (mset (orphaned_closing R)) h \<le> 1" for h
  proof -
    have "count T h + count (mset (orphaned_closing R)) h = (if tcp_at F (sockets R) h then 1 else 0)"
      using own by (simp add: owns_def)
    also have "\<dots> \<le> 1" by simp
    finally show ?thesis by linarith
  qed
  have "distinct (orphaned_closing R)" by (rule distinct_countI [OF c1])
  then have "orphans_ok F R" using owns_at(1) [OF own] by (auto simp: orphans_ok_def)
  then show ?thesis
  proof (rule reactor_turn_spec [OF set_ok poll_ok])
    fix R1 R'
    assume t: "reactor_turn F n ts R = Done R'"
      and o: "orphaned_closing R' = filter (\<lambda>h. \<not> closing_done F (sockets R1) h) (orphaned_closing R)"
      and g: "\<forall>k. sockets_get F (sockets R') k =
       (if k \<in> set (orphaned_closing R) \<and> closing_done F (sockets R1) k then None else sockets_get F (sockets R1) k)"
      and k: "same_kinds F (sockets R) (sockets R1)"
    note own1 = owns_same [OF own k]
    have tcp: "tcp_at F (sockets R') h \<longleftrightarrow>
        tcp_at F (sockets R1) h \<and> \<not> (h \<in> set (orphaned_closing R) \<and> closing_done F (sockets R1) h)" for h
      using g by (simp add: tcp_at_def)
    have udp: "udp_at F (sockets R') h \<longleftrightarrow> udp_at F (sockets R1) h" for h
      using g by (auto simp: udp_at_def closing_done_def)
    have "count (T + mset (orphaned_closing R')) h = (if tcp_at F (sockets R') h then 1 else 0)" for h
    proof -
      have "count T h + count (mset (orphaned_closing R)) h = (if tcp_at F (sockets R1) h then 1 else 0)"
        using own1 by (simp add: owns_def)
      from count_retain [OF this, of "\<lambda>h. \<not> closing_done F (sockets R1) h"] show ?thesis
        by (simp only: o tcp count_union not_not)
    qed
    then have "owns F (sockets R') (T + mset (orphaned_closing R')) U"
      using own1 by (simp add: owns_def udp)
    then show ?thesis using t by simp
  qed
qed

end

subsection \<open>Every call keeps the invariant, and none panics\<close>

definition held :: "('d, 'i, 'S) sock_sys \<Rightarrow> socket_handle multiset" where
  "held y = image_mset ts_handle (streams y) + (\<Sum>l\<in>#listeners y. mset (handles l))"

lemma sys_inv_held: "sys_inv F y \<longleftrightarrow> owns F (sockets (rt y)) (held y + mset (orphaned_closing (rt y))) (udp_own y)"
  by (simp add: sys_inv_owns tcp_own_def held_def)

lemma held_stream: "s \<in># streams y \<Longrightarrow> held y = add_mset (ts_handle s) (held (y\<lparr>streams := streams y - {#s#}\<rparr>))"
  by (drule multi_member_split) (auto simp: held_def)

lemma held_listener: "l \<in># listeners y \<Longrightarrow> held y = mset (handles l) + held (y\<lparr>listeners := listeners y - {#l#}\<rparr>)"
  by (drule multi_member_split) (auto simp: held_def)

lemma udp_own_remove: "u \<in># udps y \<Longrightarrow> udp_own y = add_mset (us_handle u) (udp_own (y\<lparr>udps := udps y - {#u#}\<rparr>))"
  by (drule multi_member_split) (auto simp: udp_own_def)

lemma stream_at: "sys_inv F y \<Longrightarrow> s \<in># streams y \<Longrightarrow> tcp_at F (sockets (rt y)) (ts_handle s)"
  using owns_at(1) [of F "sockets (rt y)" "held y + mset (orphaned_closing (rt y))" "udp_own y" "ts_handle s"]
  by (simp add: sys_inv_held held_stream)

lemma udp_sock_at: "sys_inv F y \<Longrightarrow> u \<in># udps y \<Longrightarrow> udp_at F (sockets (rt y)) (us_handle u)"
  using owns_at(2) [of F "sockets (rt y)" "held y + mset (orphaned_closing (rt y))" "udp_own y" "us_handle u"]
  by (simp add: sys_inv_held udp_own_remove)

lemma sys_inv_keeps:
  assumes "sys_inv F y" and "keeps_kinds F (rt y) R"
  shows "sys_inv F (y\<lparr>rt := R\<rparr>)"
  using assms owns_same [of F "sockets (rt y)" _ _ "sockets R"]
  by (simp add: sys_inv_held held_def udp_own_def keeps_kinds_def)

lemma sys_inv_kept:
  assumes "sys_inv F y" and "\<exists>r R'. c = Done (r, R') \<and> keeps_kinds F (rt y) R'" and "c = Done (r, R)"
  shows "sys_inv F (y\<lparr>rt := R\<rparr>)"
  using assms by (auto intro: sys_inv_keeps)

lemma sys_inv_rt_same: "sys_inv F y \<Longrightarrow> sys_inv F (y\<lparr>rt := rt y\<rparr>)"
  by simp

context tcp_stack
begin

lemma sys_connect:
  assumes "sys_inv F y" and "TcpStream_connect F a p lp rx tx (rt y) = (x, R)"
  shows "case x of Inl e \<Rightarrow> R = rt y | Inr s \<Rightarrow> sys_inv F (y\<lparr>rt := R, streams := add_mset s (streams y)\<rparr>)"
  using connect_owns [OF assms(2), of "held y" "udp_own y"] assms(1)
  by (auto simp: sys_inv_held held_def udp_own_def split: sum.splits)

lemma sys_drop_stream:
  assumes "sys_inv F y" and "s \<in># streams y"
  shows "\<exists>R. TcpStream_drop F s (rt y) = Done R \<and> sys_inv F (y\<lparr>rt := R, streams := streams y - {#s#}\<rparr>)"
proof -
  let ?y = "y\<lparr>streams := streams y - {#s#}\<rparr>"
  from drop_stream_owns [of "rt y" s "held ?y" "udp_own y"] assms
  show ?thesis by (auto simp: sys_inv_held held_stream [OF assms(2)]) (auto simp: held_def udp_own_def)
qed

lemma sys_bind:
  assumes "sys_inv F y" and "TcpListener_bind_with_backlog F p rx tx n (rt y) = (x, R)"
  shows "case x of Inl e \<Rightarrow> R = rt y | Inr l \<Rightarrow> sys_inv F (y\<lparr>rt := R, listeners := add_mset l (listeners y)\<rparr>)"
  using bind_owns [OF assms(2), of "held y" "udp_own y"] assms(1)
  by (auto simp: sys_inv_held held_def udp_own_def ac_simps split: sum.splits)

lemma sys_accept:
  assumes "sys_inv F y" and "l \<in># listeners y"
  shows "\<exists>r l' R. AcceptFuture_poll F l cx (rt y) = Done (r, l', R) \<and>
    sys_inv F (y\<lparr>rt := R, streams := (case r of Ready (Inr s) \<Rightarrow> add_mset s (streams y) | _ \<Rightarrow> streams y),
      listeners := add_mset l' (listeners y - {#l#})\<rparr>)"
proof -
  let ?T = "held (y\<lparr>listeners := listeners y - {#l#}\<rparr>) + mset (orphaned_closing (rt y))"
  have "owns F (sockets (rt y)) (mset (handles l) + ?T) (udp_own y)"
    using assms(1) by (simp add: sys_inv_held held_listener [OF assms(2)] add.assoc)
  from accept_owns [OF this, of cx] obtain r l' R where a: "AcceptFuture_poll F l cx (rt y) = Done (r, l', R)"
    and R: "orphaned_closing R = orphaned_closing (rt y)"
      "owns F (sockets R) ((case r of Ready (Inr s) \<Rightarrow> {#ts_handle s#} | _ \<Rightarrow> {#}) + mset (handles l') + ?T) (udp_own y)"
    by auto
  have "sys_inv F (y\<lparr>rt := R, streams := (case r of Ready (Inr s) \<Rightarrow> add_mset s (streams y) | _ \<Rightarrow> streams y),
      listeners := add_mset l' (listeners y - {#l#})\<rparr>)"
    using R by (simp add: sys_inv_held held_def udp_own_def ac_simps split: poll.splits sum.splits)
  with a show ?thesis by blast
qed

lemma sys_drop_listener:
  assumes "sys_inv F y" and "l \<in># listeners y"
  shows "\<exists>R. TcpListener_drop F l (rt y) = Done R \<and> sys_inv F (y\<lparr>rt := R, listeners := listeners y - {#l#}\<rparr>)"
proof -
  let ?T = "held (y\<lparr>listeners := listeners y - {#l#}\<rparr>) + mset (orphaned_closing (rt y))"
  have "owns F (sockets (rt y)) (mset (handles l) + ?T) (udp_own y)"
    using assms(1) by (simp add: sys_inv_held held_listener [OF assms(2)] add.assoc)
  from drop_listener_owns [OF this] show ?thesis by (auto simp: sys_inv_held held_def udp_own_def)
qed

lemma sys_udp_bind:
  assumes "sys_inv F y" and "UdpSocket_bind F p rxn txn ps (rt y) = (x, R)"
  shows "case x of Inl e \<Rightarrow> R = rt y | Inr u \<Rightarrow> sys_inv F (y\<lparr>rt := R, udps := add_mset u (udps y)\<rparr>)"
  using udp_bind_owns [OF assms(2), of "held y + mset (orphaned_closing (rt y))" "udp_own y"] assms(1)
  by (auto simp: sys_inv_held held_def udp_own_def split: sum.splits)

lemma sys_udp_drop:
  assumes "sys_inv F y" and "u \<in># udps y"
  shows "\<exists>R. UdpSocket_drop F u (rt y) = Done R \<and> sys_inv F (y\<lparr>rt := R, udps := udps y - {#u#}\<rparr>)"
proof -
  have "owns F (sockets (rt y)) (held y + mset (orphaned_closing (rt y))) (add_mset (us_handle u) (udp_own (y\<lparr>udps := udps y - {#u#}\<rparr>)))"
    using assms(1) by (simp add: sys_inv_held udp_own_remove [OF assms(2)])
  from udp_drop_owns [OF this] show ?thesis by (auto simp: sys_inv_held held_def udp_own_def)
qed

lemma sys_turn:
  assumes "sys_inv F y"
  shows "\<exists>R. reactor_turn F n ts (rt y) = Done R \<and> sys_inv F (y\<lparr>rt := R\<rparr>)"
  using turn_owns [of "rt y" "held y" "udp_own y"] assms by (auto simp: sys_inv_held held_def udp_own_def)

lemmas sys_ops = sys_connect sys_bind sys_udp_bind
lemmas sys_kept = sys_inv_kept [OF _ stream_ops_kinds(1)] sys_inv_kept [OF _ stream_ops_kinds(2)]
  sys_inv_kept [OF _ stream_ops_kinds(3)] sys_inv_kept [OF _ stream_ops_kinds(4)]
  sys_inv_kept [OF _ stream_ops_kinds(5)] sys_inv_kept [OF _ stream_ops_kinds(6)]
  sys_inv_kept [OF _ udp_ops_kinds(1)] sys_inv_kept [OF _ udp_ops_kinds(2)] sys_inv_kept [OF _ udp_ops_kinds(3)]

lemma sys_step_inv:
  assumes "sys_step F y y'" and inv: "sys_inv F y"
  shows "sys_inv F y'"
  using assms(1)
proof cases
  case drop_stream
  then show ?thesis using sys_drop_stream [OF inv] by fastforce
next
  case (accepted l cx s l' R)
  then show ?thesis using sys_accept [OF inv accepted(2), of cx] by simp
next
  case (accept_waits l cx r l' R)
  then show ?thesis using sys_accept [OF inv accept_waits(2), of cx] by (simp split: poll.splits sum.splits)
next
  case drop_listener
  then show ?thesis using sys_drop_listener [OF inv] by fastforce
next
  case udp_drop
  then show ?thesis using sys_udp_drop [OF inv] by fastforce
next
  case (turn n ts R)
  then show ?thesis using sys_turn [OF inv, of n ts] by auto
next
  case (connect addr port lport rx tx s R)
  then show ?thesis using sys_ops(1) [OF inv connect(2)] by simp
next
  case (connect_fails addr port lport rx tx e R)
  then show ?thesis using sys_ops(1) [OF inv connect_fails(2)] inv by simp
next
  case (bind_listener port rx tx n l R)
  then show ?thesis using sys_ops(2) [OF inv bind_listener(2)] by simp
next
  case (bind_fails port rx tx n e R)
  then show ?thesis using sys_ops(2) [OF inv bind_fails(2)] inv by simp
next
  case (udp_bind port rxn txn ps u R)
  then show ?thesis using sys_ops(3) [OF inv udp_bind(2)] by simp
next
  case (udp_bind_fails port rxn txn ps e R)
  then show ?thesis using sys_ops(3) [OF inv udp_bind_fails(2)] inv by simp
qed (simp_all, (blast intro: sys_kept [OF inv] stream_at [OF inv] udp_sock_at [OF inv])+)

lemma sys_start_inv: "sys_inv F (sys_start F d i)"
  by (simp add: sys_inv_def sys_start_def tcp_own_def udp_own_def Reactor_new_def tcp_at_def udp_at_def gets(1))

lemma sys_reachable_inv: "(sys_step F)\<^sup>*\<^sup>* (sys_start F d i) y \<Longrightarrow> sys_inv F y"
  by (induction rule: rtranclp_induct) (simp_all add: sys_start_inv sys_step_inv)

end

text \<open>A stream, a listener with two slots and a UDP socket on the reference stack.\<close>

definition ref_rt :: "nat \<Rightarrow> (nat, ref_event list, ref_set) reactor_inner" where
  "ref_rt k =
     (let R0 = Reactor_new ref_smol 0 [];
          R1 = snd (TcpStream_connect ref_smol (Ipv4Address (Ipv4 10 0 0 1)) 80 5000 4 4 R0);
          R2 = snd (TcpListener_bind_with_backlog ref_smol 80 4 4 2 R1);
          R3 = snd (UdpSocket_bind ref_smol 53 1 1 64 R2)
      in [R0, R1, R2, R3] ! k)"

definition ref_two_slots :: tcp_listener where
  "ref_two_slots = \<lparr>handles = [1, 2], l_port = 80, rx_buffer_size = 4, tx_buffer_size = 4\<rparr>"

definition ref_sys :: "(nat, ref_event list, ref_set) sock_sys" where
  "ref_sys = \<lparr>rt = ref_rt 3, streams = {#\<lparr>ts_handle = 0\<rparr>#}, listeners = {#ref_two_slots#}, udps = {#\<lparr>us_handle = 3\<rparr>#}\<rparr>"

lemma ref_add: "sockets_add ref_smol x S = (r_next S, \<lparr>r_next = Suc (r_next S),
    r_tab = (\<lambda>k. if k = r_next S then Some x else if k < r_next S then r_tab S k else None)\<rparr>)"
  by (simp add: ref_smol_def)

lemma ref_opens: "p \<noteq> 0 \<Longrightarrow> isl (tcp_listen ref_smol p (tcp_new ref_smol rx tx)) = False"
  "p \<noteq> 0 \<Longrightarrow> lp \<noteq> 0 \<Longrightarrow> isl (tcp_connect ref_smol i \<lparr>ep_addr = a, ep_port = p\<rparr> lp (tcp_new ref_smol rx tx)) = False"
  "p \<noteq> 0 \<Longrightarrow> isl (udp_bind ref_smol p (udp_new ref_smol a1 a2 a3 a4)) = False"
  by (simp_all add: ref_smol_def)

lemma ref_connect:
  assumes "p \<noteq> 0" "lp \<noteq> 0"
  shows "\<exists>R'. TcpStream_connect ref_smol a p lp rx tx R = (Inr \<lparr>ts_handle = r_next (sockets R)\<rparr>, R')
    \<and> r_next (sockets R') = Suc (r_next (sockets R)) \<and> orphaned_closing R' = orphaned_closing R"
  using ref_opens(2) [OF assms, of "iface R" a rx tx] by (auto simp: TcpStream_connect_def ref_add split: sum.splits)

lemma ref_listen:
  assumes "p \<noteq> 0"
  shows "\<exists>R'. create_listening_socket ref_smol p rx tx R = (Inr (r_next (sockets R)), R')
    \<and> r_next (sockets R') = Suc (r_next (sockets R)) \<and> orphaned_closing R' = orphaned_closing R"
  using ref_opens(1) [OF assms, of rx tx] by (auto simp: create_listening_socket_def ref_add split: sum.splits)

lemma ref_bind_two:
  assumes "p \<noteq> 0"
  shows "\<exists>R'. TcpListener_bind_with_backlog ref_smol p rx tx 2 R =
      (Inr \<lparr>handles = [r_next (sockets R), Suc (r_next (sockets R))], l_port = p, rx_buffer_size = rx, tx_buffer_size = tx\<rparr>, R')
    \<and> r_next (sockets R') = Suc (Suc (r_next (sockets R))) \<and> orphaned_closing R' = orphaned_closing R"
proof -
  obtain R1 where 1: "create_listening_socket ref_smol p rx tx R = (Inr (r_next (sockets R)), R1)"
      "r_next (sockets R1) = Suc (r_next (sockets R))" "orphaned_closing R1 = orphaned_closing R"
    using ref_listen [OF assms] by blast
  obtain R2 where "create_listening_socket ref_smol p rx tx R1 = (Inr (r_next (sockets R1)), R2)"
      "r_next (sockets R2) = Suc (r_next (sockets R1))" "orphaned_closing R2 = orphaned_closing R1"
    using ref_listen [OF assms] by blast
  with 1 show ?thesis by (simp add: TcpListener_bind_with_backlog_def numeral_2_eq_2)
qed

lemma ref_udp_bind:
  assumes "p \<noteq> 0"
  shows "\<exists>R'. UdpSocket_bind ref_smol p rxn txn ps R = (Inr \<lparr>us_handle = r_next (sockets R)\<rparr>, R')
    \<and> orphaned_closing R' = orphaned_closing R"
  using ref_opens(3) [OF assms, of rxn "rxn * ps" txn "txn * ps"]
  by (auto simp: UdpSocket_bind_def ref_add split: sum.splits)

lemma ref_rt_steps:
  "ref_rt 0 = Reactor_new ref_smol 0 []"
  "TcpStream_connect ref_smol (Ipv4Address (Ipv4 10 0 0 1)) 80 5000 4 4 (ref_rt 0) = (Inr \<lparr>ts_handle = 0\<rparr>, ref_rt 1)"
  "TcpListener_bind_with_backlog ref_smol 80 4 4 2 (ref_rt 1) = (Inr ref_two_slots, ref_rt 2)"
  "UdpSocket_bind ref_smol 53 1 1 64 (ref_rt 2) = (Inr \<lparr>us_handle = 3\<rparr>, ref_rt 3)"
  "orphaned_closing (ref_rt 3) = []"
proof -
  have start: "r_next (sockets (Reactor_new ref_smol 0 [])) = 0" "orphaned_closing (Reactor_new ref_smol 0 []) = []"
    by (simp_all add: Reactor_new_def ref_smol_def)
  obtain R1 where 1: "TcpStream_connect ref_smol (Ipv4Address (Ipv4 10 0 0 1)) 80 5000 4 4 (Reactor_new ref_smol 0 []) =
      (Inr \<lparr>ts_handle = 0\<rparr>, R1)" "r_next (sockets R1) = 1" "orphaned_closing R1 = []"
    using ref_connect [of 80 5000 "Ipv4Address (Ipv4 10 0 0 1)" 4 4 "Reactor_new ref_smol 0 []"] start by auto
  obtain R2 where 2: "TcpListener_bind_with_backlog ref_smol 80 4 4 2 R1 = (Inr ref_two_slots, R2)"
      "r_next (sockets R2) = 3" "orphaned_closing R2 = []"
    using ref_bind_two [of 80 4 4 R1] 1(2,3) by (auto simp: ref_two_slots_def)
  obtain R3 where 3: "UdpSocket_bind ref_smol 53 1 1 64 R2 = (Inr \<lparr>us_handle = 3\<rparr>, R3)" "orphaned_closing R3 = []"
    using ref_udp_bind [of 53 1 1 64 R2] 2(2,3) by auto
  have "ref_rt k = [Reactor_new ref_smol 0 [], R1, R2, R3] ! k" for k
    using 1(1) 2(1) 3(1) by (simp add: ref_rt_def)
  then have r: "ref_rt 0 = Reactor_new ref_smol 0 []" "ref_rt 1 = R1" "ref_rt 2 = R2" "ref_rt 3 = R3" by simp_all
  from 1 2 3 show "ref_rt 0 = Reactor_new ref_smol 0 []"
    "TcpStream_connect ref_smol (Ipv4Address (Ipv4 10 0 0 1)) 80 5000 4 4 (ref_rt 0) = (Inr \<lparr>ts_handle = 0\<rparr>, ref_rt 1)"
    "TcpListener_bind_with_backlog ref_smol 80 4 4 2 (ref_rt 1) = (Inr ref_two_slots, ref_rt 2)"
    "UdpSocket_bind ref_smol 53 1 1 64 (ref_rt 2) = (Inr \<lparr>us_handle = 3\<rparr>, ref_rt 3)"
    "orphaned_closing (ref_rt 3) = []"
    by (simp_all only: r)
qed

lemma ref_sys_reachable: "(sys_step ref_smol)\<^sup>*\<^sup>* (sys_start ref_smol 0 []) ref_sys"
proof -
  let ?s0 = "sys_start ref_smol 0 []"
  let ?s1 = "?s0\<lparr>rt := ref_rt 1, streams := add_mset \<lparr>ts_handle = 0\<rparr> (streams ?s0)\<rparr>"
  let ?s2 = "?s1\<lparr>rt := ref_rt 2, listeners := add_mset ref_two_slots (listeners ?s1)\<rparr>"
  let ?s3 = "?s2\<lparr>rt := ref_rt 3, udps := add_mset \<lparr>us_handle = 3\<rparr> (udps ?s2)\<rparr>"
  have r0: "rt ?s0 = ref_rt 0" by (simp add: sys_start_def ref_rt_steps(1))
  have "sys_step ref_smol ?s0 ?s1"
    by (rule sys_step.connect [OF ref_rt_steps(2) [folded r0]])
  moreover have "sys_step ref_smol ?s1 ?s2"
    using sys_step.bind_listener [of ref_smol 80 4 4 2 ?s1] ref_rt_steps(3) by simp
  moreover have "sys_step ref_smol ?s2 ?s3"
    using sys_step.udp_bind [of ref_smol 53 1 1 64 ?s2] ref_rt_steps(4) by simp
  moreover have "?s3 = ref_sys" by (simp add: ref_sys_def sys_start_def)
  ultimately show ?thesis by (metis (no_types) converse_rtranclp_into_rtranclp r_into_rtranclp)
qed

text \<open>
  C2. Whatever the tasks of a worker call, in whatever order and with turns of the reactor in between, every
  TCP socket of the set is owned exactly once, by one stream, one backlog slot of one listener or the list
  of closing orphans, and every UDP socket by exactly one wrapper. So no handle is used after its socket is
  gone, no socket is removed twice, and none is leaked: with all wrappers dropped the set holds the closing
  orphans and nothing else.
\<close>

theorem sockets_owned_once:
  assumes "set_law F" "poll_law F" "tcp_state_law F" "tcp_stream_law F sent got"
    and "(sys_step F)\<^sup>*\<^sup>* (sys_start F d i) y"
  shows "(\<forall>h. count (tcp_own y) h = (if tcp_at F (sockets (rt y)) h then 1 else 0))
    \<and> (\<forall>h. count (udp_own y) h = (if udp_at F (sockets (rt y)) h then 1 else 0))
    \<and> (streams y = {#} \<and> listeners y = {#} \<and> udps y = {#} \<longrightarrow>
        (\<forall>h. sockets_get F (sockets (rt y)) h \<noteq> None \<longleftrightarrow> h \<in> set (orphaned_closing (rt y))))"
proof -
  have inv: "sys_inv F y" by (rule tcp_stack.sys_reachable_inv [OF _ assms(5)]) (unfold_locales, fact+)
  have some: "sockets_get F S h \<noteq> None \<longleftrightarrow> tcp_at F S h \<or> udp_at F S h" for S h
    by (auto simp: tcp_at_def udp_at_def)
  have "h \<in># tcp_own y \<longleftrightarrow> tcp_at F (sockets (rt y)) h" "h \<in># udp_own y \<longleftrightarrow> udp_at F (sockets (rt y)) h" for h
    using owns_at inv by (simp_all add: sys_inv_owns)
  with inv show ?thesis unfolding sys_inv_def some by (auto simp: tcp_own_def udp_own_def)
qed

theorem sockets_owned_once_witness:
  "(sys_step ref_smol)\<^sup>*\<^sup>* (sys_start ref_smol 0 []) ref_sys \<and> tcp_own ref_sys = {#0, 1, 2#}
    \<and> tcp_at ref_smol (sockets (rt ref_sys)) 2 \<and> \<not> tcp_at ref_smol (sockets (rt ref_sys)) 3
    \<and> udp_at ref_smol (sockets (rt ref_sys)) 3"
proof -
  have own: "tcp_own ref_sys = {#0, 1, 2#}" "udp_own ref_sys = {#3#}"
    by (simp_all add: tcp_own_def udp_own_def ref_sys_def ref_two_slots_def ref_rt_steps)
  note once = sockets_owned_once [OF ref_set_law ref_poll_law ref_tcp_state_law ref_stream_law ref_sys_reachable]
  have iff: "n = (if a then 1 else 0) \<Longrightarrow> a \<longleftrightarrow> n = 1" for a and n :: nat by (cases a) simp_all
  have "tcp_at ref_smol (sockets (rt ref_sys)) 2" "\<not> tcp_at ref_smol (sockets (rt ref_sys)) 3"
    "udp_at ref_smol (sockets (rt ref_sys)) 3"
    unfolding iff [OF once [THEN conjunct1, THEN spec]] iff [OF once [THEN conjunct2, THEN conjunct1, THEN spec]] own
    by simp_all
  with own ref_sys_reachable show ?thesis by simp
qed

text \<open>
  C3. No call on a socket panics. In every reachable state the reads, writes, flushes, closes, aborts and
  drops of every stream, the accept and drop of every listener, the sends, receives, closes and drops of
  every UDP socket, and a turn of the reactor find the sockets they look up.
\<close>

theorem calls_never_panic:
  assumes "set_law F" "poll_law F" "tcp_state_law F" "tcp_stream_law F sent got"
    and "(sys_step F)\<^sup>*\<^sup>* (sys_start F d i) y"
  shows "(\<forall>s \<in># streams y. \<not> is_panic (poll_recv F s cx n (rt y)) \<and> \<not> is_panic (poll_send F s cx bs (rt y))
      \<and> \<not> is_panic (poll_flush_io F s cx (rt y)) \<and> \<not> is_panic (poll_close_io F s cx (rt y))
      \<and> \<not> is_panic (TcpStream_abort F s (rt y)) \<and> \<not> is_panic (WaitConnectedFuture_poll F s cx (rt y))
      \<and> \<not> is_panic (TcpStream_drop F s (rt y)))
    \<and> (\<forall>l \<in># listeners y. \<not> is_panic (AcceptFuture_poll F l cx (rt y)) \<and> \<not> is_panic (TcpListener_drop F l (rt y)))
    \<and> (\<forall>u \<in># udps y. \<not> is_panic (UdpSendFuture_poll F u bs ep cx (rt y)) \<and> \<not> is_panic (UdpRecvFuture_poll F u n cx (rt y))
      \<and> \<not> is_panic (UdpSocket_close F u (rt y)) \<and> \<not> is_panic (UdpSocket_drop F u (rt y)))
    \<and> \<not> is_panic (reactor_turn F batch_size ts (rt y))"
proof -
  have st: "tcp_stack F sent got" by unfold_locales fact+
  have inv: "sys_inv F y" by (rule tcp_stack.sys_reachable_inv [OF st assms(5)])
  note ops = tcp_stack.stream_ops_kinds [OF st stream_at [OF inv]] tcp_stack.udp_ops_kinds [OF st udp_sock_at [OF inv]]
  note drops = tcp_stack.sys_drop_stream [OF st inv] tcp_stack.sys_accept [OF st inv, of _ cx]
    tcp_stack.sys_drop_listener [OF st inv] tcp_stack.sys_udp_drop [OF st inv]
  have np: "\<exists>r R. c = Done (r, R) \<and> P R \<Longrightarrow> \<not> is_panic c" "\<exists>R. e = Done R \<and> Q R \<Longrightarrow> \<not> is_panic e"
    "\<exists>r l R. f = Done (r, l, R) \<and> W r l R \<Longrightarrow> \<not> is_panic f" for c e f P Q W by auto
  show ?thesis
    by (intro conjI ballI np(1) [OF ops(1)] np(1) [OF ops(2)] np(1) [OF ops(3)] np(1) [OF ops(4)] np(1) [OF ops(5)]
      np(1) [OF ops(6)] np(1) [OF ops(7)] np(1) [OF ops(8)] np(1) [OF ops(9)] np(2) [OF drops(1)] np(3) [OF drops(2)]
      np(2) [OF drops(3)] np(2) [OF drops(4)] np(2) [OF tcp_stack.sys_turn [OF st inv]]; assumption)
qed

theorem calls_never_panic_witness:
  "\<not> is_panic (poll_send ref_smol \<lparr>ts_handle = 0\<rparr> 7 [1, 2] (rt ref_sys))
    \<and> \<not> is_panic (UdpSocket_drop ref_smol \<lparr>us_handle = 3\<rparr> (rt ref_sys)) \<and> \<not> is_panic (reactor_turn ref_smol 32 0 (rt ref_sys))"
proof -
  have mem: "\<lparr>ts_handle = 0\<rparr> \<in># streams ref_sys" "\<lparr>us_handle = 3\<rparr> \<in># udps ref_sys"
    by (simp_all add: ref_sys_def)
  note safe = calls_never_panic [OF ref_set_law ref_poll_law ref_tcp_state_law ref_stream_law ref_sys_reachable,
    where cx = 7 and bs = "[1, 2]" and n = 1 and ep = "\<lparr>ep_addr = Ipv4Address (Ipv4 10 0 0 1), ep_port = 53\<rparr>"
      and batch_size = 32 and ts = 0]
  show ?thesis
    using safe [THEN conjunct1, THEN bspec, OF mem(1)]
      safe [THEN conjunct2, THEN conjunct2, THEN conjunct1, THEN bspec, OF mem(2)]
      safe [THEN conjunct2, THEN conjunct2, THEN conjunct2] by (intro conjI) (elim conjE, assumption)+
qed

end
