(* ===== verification/Eth_Conf.thy ===== *)
theory Eth_Conf
  imports Mem_Pool
begin

section \<open>Configuration of Ethernet devices (api/rte/eth.rs)\<close>

text \<open>
  The configuration structures of \<open>eth.rs\<close> with their builders, and the translation to the C structure
  that DPDK takes. The structure refers to the RSS key by a pointer into a buffer that the caller keeps
  alive; the pointer is modelled by the bytes it points to.
\<close>

unbundle bit_operations_syntax

datatype rx_mq_mode = RxMq_None | RxMq_Rss | RxMq_Dcb | RxMq_DcbRss | RxMq_Vmdq | RxMq_VmdqDcb | RxMq_VmdqRss
  | RxMq_VmdqDcbRss

primrec rx_mq_mode_u32 :: "rx_mq_mode \<Rightarrow> u32" where
  "rx_mq_mode_u32 RxMq_None = 0"
| "rx_mq_mode_u32 RxMq_Rss = 1"
| "rx_mq_mode_u32 RxMq_Dcb = 2"
| "rx_mq_mode_u32 RxMq_DcbRss = 3"
| "rx_mq_mode_u32 RxMq_Vmdq = 4"
| "rx_mq_mode_u32 RxMq_VmdqDcb = 5"
| "rx_mq_mode_u32 RxMq_VmdqRss = 6"
| "rx_mq_mode_u32 RxMq_VmdqDcbRss = 7"

datatype tx_mq_mode = TxMq_None | TxMq_Dcb | TxMq_Vmdq | TxMq_VmdqDcb

primrec tx_mq_mode_u32 :: "tx_mq_mode \<Rightarrow> u32" where
  "tx_mq_mode_u32 TxMq_None = 0"
| "tx_mq_mode_u32 TxMq_Dcb = 1"
| "tx_mq_mode_u32 TxMq_Vmdq = 2"
| "tx_mq_mode_u32 TxMq_VmdqDcb = 3"

record rx_mode =
  rxm_mq_mode :: rx_mq_mode
  rxm_mtu :: u32
  rxm_offloads :: u64
  rxm_max_lro_pkt_size :: u32

definition RxMode_default :: rx_mode where
  "RxMode_default = \<lparr>rxm_mq_mode = RxMq_None, rxm_mtu = 1500, rxm_offloads = 0, rxm_max_lro_pkt_size = 0\<rparr>"

record tx_mode =
  txm_mq_mode :: tx_mq_mode
  txm_offloads :: u64

definition TxMode_default :: tx_mode where
  "TxMode_default = \<lparr>txm_mq_mode = TxMq_None, txm_offloads = 0\<rparr>"

text \<open>The module \<open>rss_hf\<close>: its constants are those of the generated bindings.\<close>

record rss_hf_consts =
  HF_IPV4 :: u64
  HF_FRAG_IPV4 :: u64
  HF_NONFRAG_IPV4_TCP :: u64
  HF_NONFRAG_IPV4_UDP :: u64
  HF_NONFRAG_IPV4_SCTP :: u64
  HF_NONFRAG_IPV4_OTHER :: u64
  HF_IPV6 :: u64
  HF_FRAG_IPV6 :: u64
  HF_NONFRAG_IPV6_TCP :: u64
  HF_NONFRAG_IPV6_UDP :: u64
  HF_NONFRAG_IPV6_SCTP :: u64
  HF_NONFRAG_IPV6_OTHER :: u64
  HF_IPV6_EX :: u64
  HF_IPV6_TCP_EX :: u64
  HF_IPV6_UDP_EX :: u64
  HF_IP :: u64
  HF_TCP :: u64
  HF_UDP :: u64

definition RSS_KEY_40 :: "u8 list" where
  "RSS_KEY_40 =
    [0x6d, 0x5a, 0x56, 0xda, 0x25, 0x5b, 0x0e, 0xc2, 0x41, 0x67, 0x25, 0x3d, 0x43, 0xa3, 0x8f, 0xb0,
     0xd0, 0xca, 0x2b, 0xcb, 0xae, 0x7b, 0x30, 0xb4, 0x77, 0xcb, 0x2d, 0xa3, 0x80, 0x30, 0xf2, 0x0c,
     0x6a, 0x42, 0xb7, 0x3b, 0xbe, 0xac, 0x01, 0xfa]"

record eth_conf =
  ec_link_speeds :: u32
  ec_rx_mode :: rx_mode
  ec_tx_mode :: tx_mode
  ec_loopback_mode :: u32
  ec_rss_hf :: u64
  ec_rss_key :: "u8 list option"

definition EthConf_new :: eth_conf where
  "EthConf_new = \<lparr>ec_link_speeds = 0, ec_rx_mode = RxMode_default, ec_tx_mode = TxMode_default,
     ec_loopback_mode = 0, ec_rss_hf = 0, ec_rss_key = None\<rparr>"

definition EthConf_mtu :: "eth_conf \<Rightarrow> u32 \<Rightarrow> eth_conf" where
  "EthConf_mtu c mtu = c\<lparr>ec_rx_mode := (ec_rx_mode c)\<lparr>rxm_mtu := mtu\<rparr>\<rparr>"

definition EthConf_rx_offloads :: "eth_conf \<Rightarrow> u64 \<Rightarrow> eth_conf" where
  "EthConf_rx_offloads c offloads = c\<lparr>ec_rx_mode := (ec_rx_mode c)\<lparr>rxm_offloads := offloads\<rparr>\<rparr>"

definition EthConf_tx_offloads :: "eth_conf \<Rightarrow> u64 \<Rightarrow> eth_conf" where
  "EthConf_tx_offloads c offloads = c\<lparr>ec_tx_mode := (ec_tx_mode c)\<lparr>txm_offloads := offloads\<rparr>\<rparr>"

definition EthConf_rss :: "eth_conf \<Rightarrow> eth_conf" where
  "EthConf_rss c = c\<lparr>ec_rx_mode := (ec_rx_mode c)\<lparr>rxm_mq_mode := RxMq_Rss\<rparr>, ec_rss_hf := 0, ec_rss_key := None\<rparr>"

definition EthConf_rss_with_hash :: "eth_conf \<Rightarrow> u64 \<Rightarrow> eth_conf" where
  "EthConf_rss_with_hash c hf =
     c\<lparr>ec_rx_mode := (ec_rx_mode c)\<lparr>rxm_mq_mode := RxMq_Rss\<rparr>, ec_rss_hf := hf, ec_rss_key := None\<rparr>"

definition EthConf_rss_with_key :: "('k) rss_hf_consts_scheme \<Rightarrow> eth_conf \<Rightarrow> eth_conf" where
  "EthConf_rss_with_key k c =
     c\<lparr>ec_rx_mode := (ec_rx_mode c)\<lparr>rxm_mq_mode := RxMq_Rss\<rparr>, ec_rss_hf := HF_IP k OR HF_TCP k, ec_rss_key := Some RSS_KEY_40\<rparr>"

definition EthConf_rss_hf :: "eth_conf \<Rightarrow> u64 \<Rightarrow> eth_conf" where
  "EthConf_rss_hf c hf = c\<lparr>ec_rss_hf := hf\<rparr>"

definition EthConf_loopback :: "eth_conf \<Rightarrow> eth_conf" where
  "EthConf_loopback c = c\<lparr>ec_loopback_mode := 1\<rparr>"

text \<open>The fields of \<open>rte_eth_conf\<close> that the code writes; a null \<open>rss_key\<close> is \<open>None\<close>.\<close>

record rte_eth_conf =
  raw_link_speeds :: u32
  raw_rx_mq_mode :: u32
  raw_mtu :: u32
  raw_rx_offloads :: u64
  raw_max_lro_pkt_size :: u32
  raw_tx_mq_mode :: u32
  raw_tx_offloads :: u64
  raw_lpbk_mode :: u32
  raw_rss_hf :: u64
  raw_rss_key :: "u8 list option"
  raw_rss_key_len :: u8

definition rte_eth_conf_zeroed :: rte_eth_conf where
  "rte_eth_conf_zeroed = \<lparr>raw_link_speeds = 0, raw_rx_mq_mode = 0, raw_mtu = 0, raw_rx_offloads = 0,
     raw_max_lro_pkt_size = 0, raw_tx_mq_mode = 0, raw_tx_offloads = 0, raw_lpbk_mode = 0,
     raw_rss_hf = 0, raw_rss_key = None, raw_rss_key_len = 0\<rparr>"

definition EthConf_to_raw :: "eth_conf \<Rightarrow> rte_eth_conf \<times> u8 list option" where
  "EthConf_to_raw c =
     (let conf = rte_eth_conf_zeroed\<lparr>raw_link_speeds := ec_link_speeds c,
            raw_rx_mq_mode := rx_mq_mode_u32 (rxm_mq_mode (ec_rx_mode c)),
            raw_mtu := rxm_mtu (ec_rx_mode c),
            raw_rx_offloads := rxm_offloads (ec_rx_mode c),
            raw_max_lro_pkt_size := rxm_max_lro_pkt_size (ec_rx_mode c),
            raw_tx_mq_mode := tx_mq_mode_u32 (txm_mq_mode (ec_tx_mode c)),
            raw_tx_offloads := txm_offloads (ec_tx_mode c),
            raw_lpbk_mode := ec_loopback_mode c\<rparr>
      in if rxm_mq_mode (ec_rx_mode c) = RxMq_Rss \<and> ec_rss_hf c \<noteq> 0 then
           (case ec_rss_key c of
              Some key \<Rightarrow> (conf\<lparr>raw_rss_hf := ec_rss_hf c, raw_rss_key := Some key,
                               raw_rss_key_len := of_nat (length key)\<rparr>, Some key)
            | None \<Rightarrow> (conf\<lparr>raw_rss_hf := ec_rss_hf c, raw_rss_key := None, raw_rss_key_len := 0\<rparr>, None))
         else (conf, None))"

text \<open>Queue configurations; \<open>'r\<close> is the raw structure of DPDK.\<close>

record 'r queue_conf =
  qc_nb_desc :: u16
  qc_socket_id :: i32
  qc_conf :: "'r option"

definition RxQueueConf_default :: "'r queue_conf" where
  "RxQueueConf_default = \<lparr>qc_nb_desc = 1024, qc_socket_id = - 1, qc_conf = None\<rparr>"

definition RxQueueConf_nb_desc :: "'r queue_conf \<Rightarrow> u16 \<Rightarrow> 'r queue_conf" where
  "RxQueueConf_nb_desc c n = c\<lparr>qc_nb_desc := n\<rparr>"

definition RxQueueConf_socket_id :: "'r queue_conf \<Rightarrow> i32 \<Rightarrow> 'r queue_conf" where
  "RxQueueConf_socket_id c i = c\<lparr>qc_socket_id := i\<rparr>"

definition RxQueueConf_conf :: "'r queue_conf \<Rightarrow> 'r \<Rightarrow> 'r queue_conf" where
  "RxQueueConf_conf c r = c\<lparr>qc_conf := Some r\<rparr>"

definition TxQueueConf_default :: "'r queue_conf" where
  "TxQueueConf_default = \<lparr>qc_nb_desc = 1024, qc_socket_id = - 1, qc_conf = None\<rparr>"

definition TxQueueConf_nb_desc :: "'r queue_conf \<Rightarrow> u16 \<Rightarrow> 'r queue_conf" where
  "TxQueueConf_nb_desc c n = c\<lparr>qc_nb_desc := n\<rparr>"

definition TxQueueConf_socket_id :: "'r queue_conf \<Rightarrow> i32 \<Rightarrow> 'r queue_conf" where
  "TxQueueConf_socket_id c i = c\<lparr>qc_socket_id := i\<rparr>"

definition TxQueueConf_conf :: "'r queue_conf \<Rightarrow> 'r \<Rightarrow> 'r queue_conf" where
  "TxQueueConf_conf c r = c\<lparr>qc_conf := Some r\<rparr>"

subsection \<open>What DPDK is told about RSS\<close>

lemma length_RSS_KEY_40 [simp]: "length RSS_KEY_40 = 40"
  by (simp add: RSS_KEY_40_def)

lemma mq_mode_inj: "rx_mq_mode_u32 a = rx_mq_mode_u32 b \<longleftrightarrow> a = b" "tx_mq_mode_u32 s = tx_mq_mode_u32 t \<longleftrightarrow> s = t"
  by (cases a; cases b; simp) (cases s; cases t; simp)

lemma rx_mq_mode_rss: "rx_mq_mode_u32 m = 1 \<longleftrightarrow> m = RxMq_Rss"
  using mq_mode_inj(1) [of m RxMq_Rss] by simp

text \<open>
  The translation to the C structure keeps every setting, and the RSS part is filled in exactly when
  RSS is on and hash functions are chosen. The key pointer always refers to the buffer that is returned
  with the structure, so keeping that buffer keeps the pointer valid; the length written beside it is the
  length of the key as long as the key is shorter than 256 bytes, and is truncated to its low byte
  otherwise.
\<close>

theorem to_raw_keeps_settings:
  "case EthConf_to_raw c of (raw, buf) \<Rightarrow>
     raw_link_speeds raw = ec_link_speeds c \<and> raw_mtu raw = rxm_mtu (ec_rx_mode c)
     \<and> raw_rx_offloads raw = rxm_offloads (ec_rx_mode c) \<and> raw_max_lro_pkt_size raw = rxm_max_lro_pkt_size (ec_rx_mode c)
     \<and> raw_tx_offloads raw = txm_offloads (ec_tx_mode c) \<and> raw_lpbk_mode raw = ec_loopback_mode c
     \<and> (\<forall>m. raw_rx_mq_mode raw = rx_mq_mode_u32 m \<longleftrightarrow> m = rxm_mq_mode (ec_rx_mode c))
     \<and> (\<forall>m. raw_tx_mq_mode raw = tx_mq_mode_u32 m \<longleftrightarrow> m = txm_mq_mode (ec_tx_mode c))
     \<and> raw_rss_hf raw = (if rxm_mq_mode (ec_rx_mode c) = RxMq_Rss then ec_rss_hf c else 0)
     \<and> buf = raw_rss_key raw
     \<and> raw_rss_key raw = (if raw_rss_hf raw = 0 then None else ec_rss_key c)
     \<and> unat (raw_rss_key_len raw) = (case raw_rss_key raw of None \<Rightarrow> 0 | Some key \<Rightarrow> length key mod 256)"
  unfolding EthConf_to_raw_def rte_eth_conf_zeroed_def Let_def
  by (auto simp: mq_mode_inj rx_mq_mode_rss unat_of_nat take_bit_eq_mod split: option.splits if_splits)

end
