(* ===== verification/Eth_Dev.thy ===== *)
theory Eth_Dev
  imports Eth_Conf
begin

section \<open>Ethernet devices (api/rte/eth.rs)\<close>

text \<open>
  \<open>EthDev\<close> and \<open>EthDevBuilder\<close>. The functions of DPDK are the fields of \<open>eth_ffi\<close>: \<open>'i\<close> is the device
  information, \<open>'s\<close> the statistics, \<open>'r\<close> and \<open>'t\<close> the raw queue configurations. A structure that a call
  fills in is part of its result.
\<close>

record reta_entry64 =
  reta_mask :: u64
  reta_reta :: "u16 list"

record rte_rss_conf =
  rss_conf_hf :: u64
  rss_conf_key :: "u8 list option"
  rss_conf_key_len :: u8

datatype ether_addr = EtherAddr u8 u8 u8 u8 u8 u8

record ('w, 'i, 's, 'r, 't) eth_ffi = "'w err_ffi" +
  rte_eth_dev_count_avail :: "'w \<Rightarrow> u16"
  rte_eth_dev_info_get :: "u16 \<Rightarrow> 'w \<Rightarrow> i32 \<times> 'i"
  info_reta_size :: "'i \<Rightarrow> u16"
  rte_eth_dev_socket_id :: "u16 \<Rightarrow> 'w \<Rightarrow> i32"
  rte_eth_macaddr_get :: "u16 \<Rightarrow> 'w \<Rightarrow> i32 \<times> ether_addr"
  rte_eth_stats_get :: "u16 \<Rightarrow> 'w \<Rightarrow> i32 \<times> 's"
  rte_eth_dev_configure :: "u16 \<Rightarrow> u16 \<Rightarrow> u16 \<Rightarrow> rte_eth_conf \<Rightarrow> 'w \<Rightarrow> i32 \<times> 'w"
  rte_eth_rx_queue_setup :: "u16 \<Rightarrow> u16 \<Rightarrow> u16 \<Rightarrow> u32 \<Rightarrow> 'r option \<Rightarrow> ptr \<Rightarrow> 'w \<Rightarrow> i32 \<times> 'w"
  rte_eth_tx_queue_setup :: "u16 \<Rightarrow> u16 \<Rightarrow> u16 \<Rightarrow> u32 \<Rightarrow> 't option \<Rightarrow> 'w \<Rightarrow> i32 \<times> 'w"
  rte_eth_dev_start :: "u16 \<Rightarrow> 'w \<Rightarrow> i32 \<times> 'w"
  rte_eth_dev_stop :: "u16 \<Rightarrow> 'w \<Rightarrow> i32 \<times> 'w"
  rte_eth_dev_close :: "u16 \<Rightarrow> 'w \<Rightarrow> i32 \<times> 'w"
  rte_eth_promiscuous_enable :: "u16 \<Rightarrow> 'w \<Rightarrow> i32 \<times> 'w"
  rte_eth_promiscuous_disable :: "u16 \<Rightarrow> 'w \<Rightarrow> i32 \<times> 'w"
  rte_eth_dev_rss_hash_conf_get :: "u16 \<Rightarrow> rte_rss_conf \<Rightarrow> 'w \<Rightarrow> i32 \<times> rte_rss_conf"
  rte_eth_dev_rss_hash_update :: "u16 \<Rightarrow> rte_rss_conf \<Rightarrow> 'w \<Rightarrow> i32 \<times> 'w"
  rte_eth_dev_rss_reta_update :: "u16 \<Rightarrow> reta_entry64 list \<Rightarrow> u16 \<Rightarrow> 'w \<Rightarrow> i32 \<times> 'w"
  rte_eth_dev_rss_reta_query :: "u16 \<Rightarrow> reta_entry64 list \<Rightarrow> u16 \<Rightarrow> 'w \<Rightarrow> i32 \<times> reta_entry64 list"

datatype eth_dev = EthDev (dev_port_id: u16)

definition EthDev_new :: "u16 \<Rightarrow> eth_dev" where
  "EthDev_new port_id = EthDev port_id"

definition EthDev_count_avail :: "('w, 'i, 's, 'r, 't, 'z) eth_ffi_scheme \<Rightarrow> 'w \<Rightarrow> u16" where
  "EthDev_count_avail f w = rte_eth_dev_count_avail f w"

text \<open>A call that only fills in a structure: the structure is returned when the call succeeds.\<close>

definition filled :: "('w, 'z) err_ffi_scheme \<Rightarrow> i32 \<times> 'a \<Rightarrow> 'w \<Rightarrow> errno + 'a" where
  "filled f r w = (case check_rte_success f (fst r) w of Inl e \<Rightarrow> Inl e | Inr _ \<Rightarrow> Inr (snd r))"

text \<open>A call that changes the world and has no other result.\<close>

definition checked :: "('w, 'z) err_ffi_scheme \<Rightarrow> i32 \<times> 'w \<Rightarrow> (errno + unit) \<times> 'w" where
  "checked f r = (check_rte_success f (fst r) (snd r), snd r)"

definition EthDev_info :: "('w, 'i, 's, 'r, 't, 'z) eth_ffi_scheme \<Rightarrow> eth_dev \<Rightarrow> 'w \<Rightarrow> errno + 'i" where
  "EthDev_info f d w = filled f (rte_eth_dev_info_get f (dev_port_id d) w) w"

definition EthDev_socket_id :: "('w, 'i, 's, 'r, 't, 'z) eth_ffi_scheme \<Rightarrow> eth_dev \<Rightarrow> 'w \<Rightarrow> i32" where
  "EthDev_socket_id f d w = rte_eth_dev_socket_id f (dev_port_id d) w"

definition EthDev_mac_addr :: "('w, 'i, 's, 'r, 't, 'z) eth_ffi_scheme \<Rightarrow> eth_dev \<Rightarrow> 'w \<Rightarrow> errno + ether_addr" where
  "EthDev_mac_addr f d w = filled f (rte_eth_macaddr_get f (dev_port_id d) w) w"

definition EthDev_stats :: "('w, 'i, 's, 'r, 't, 'z) eth_ffi_scheme \<Rightarrow> eth_dev \<Rightarrow> 'w \<Rightarrow> errno + 's" where
  "EthDev_stats f d w = filled f (rte_eth_stats_get f (dev_port_id d) w) w"

definition EthDev_configure ::
  "('w, 'i, 's, 'r, 't, 'z) eth_ffi_scheme \<Rightarrow> eth_dev \<Rightarrow> u16 \<Rightarrow> u16 \<Rightarrow> eth_conf \<Rightarrow> 'w \<Rightarrow> (errno + unit) \<times> 'w" where
  "EthDev_configure f d nb_rx_queues nb_tx_queues conf w =
     (case EthConf_to_raw conf of
        (raw_conf, key_buffer) \<Rightarrow>
          checked f (rte_eth_dev_configure f (dev_port_id d) nb_rx_queues nb_tx_queues raw_conf w))"

text \<open>A negative socket id stands for the socket of the device; both are cast to \<open>u32\<close>.\<close>

definition EthDev_rx_queue_setup ::
  "('w, 'i, 's, 'r, 't, 'z) eth_ffi_scheme \<Rightarrow> eth_dev \<Rightarrow> u16 \<Rightarrow> mem_pool \<Rightarrow> 'r queue_conf \<Rightarrow> 'w
     \<Rightarrow> (errno + unit) \<times> 'w" where
  "EthDev_rx_queue_setup f d queue_id mempool conf w =
     (let socket_id = (if sint (qc_socket_id conf) < 0 then EthDev_socket_id f d w else qc_socket_id conf)
      in checked f (rte_eth_rx_queue_setup f (dev_port_id d) queue_id (qc_nb_desc conf) socket_id
           (qc_conf conf) (mem_pool_inner mempool) w))"

definition EthDev_tx_queue_setup ::
  "('w, 'i, 's, 'r, 't, 'z) eth_ffi_scheme \<Rightarrow> eth_dev \<Rightarrow> u16 \<Rightarrow> 't queue_conf \<Rightarrow> 'w \<Rightarrow> (errno + unit) \<times> 'w" where
  "EthDev_tx_queue_setup f d queue_id conf w =
     (let socket_id = (if sint (qc_socket_id conf) < 0 then EthDev_socket_id f d w else qc_socket_id conf)
      in checked f
           (rte_eth_tx_queue_setup f (dev_port_id d) queue_id (qc_nb_desc conf) socket_id (qc_conf conf) w))"

definition EthDev_start :: "('w, 'i, 's, 'r, 't, 'z) eth_ffi_scheme \<Rightarrow> eth_dev \<Rightarrow> 'w \<Rightarrow> (errno + unit) \<times> 'w" where
  "EthDev_start f d w = checked f (rte_eth_dev_start f (dev_port_id d) w)"

definition EthDev_stop :: "('w, 'i, 's, 'r, 't, 'z) eth_ffi_scheme \<Rightarrow> eth_dev \<Rightarrow> 'w \<Rightarrow> (errno + unit) \<times> 'w" where
  "EthDev_stop f d w = checked f (rte_eth_dev_stop f (dev_port_id d) w)"

definition EthDev_close :: "('w, 'i, 's, 'r, 't, 'z) eth_ffi_scheme \<Rightarrow> eth_dev \<Rightarrow> 'w \<Rightarrow> (errno + unit) \<times> 'w" where
  "EthDev_close f d w = checked f (rte_eth_dev_close f (dev_port_id d) w)"

definition EthDev_promiscuous_enable ::
  "('w, 'i, 's, 'r, 't, 'z) eth_ffi_scheme \<Rightarrow> eth_dev \<Rightarrow> 'w \<Rightarrow> (errno + unit) \<times> 'w" where
  "EthDev_promiscuous_enable f d w = checked f (rte_eth_promiscuous_enable f (dev_port_id d) w)"

definition EthDev_promiscuous_disable ::
  "('w, 'i, 's, 'r, 't, 'z) eth_ffi_scheme \<Rightarrow> eth_dev \<Rightarrow> 'w \<Rightarrow> (errno + unit) \<times> 'w" where
  "EthDev_promiscuous_disable f d w = checked f (rte_eth_promiscuous_disable f (dev_port_id d) w)"

subsection \<open>Receive side scaling\<close>

text \<open>\<open>truncate\<close> on a vector keeps it when it is shorter already.\<close>

definition EthDev_rss_hash_conf ::
  "('w, 'i, 's, 'r, 't, 'z) eth_ffi_scheme \<Rightarrow> eth_dev \<Rightarrow> 'w \<Rightarrow> errno + u64 \<times> u8 list" where
  "EthDev_rss_hash_conf f d w =
     (let key_buffer = replicate 52 0;
          rss_conf = \<lparr>rss_conf_hf = 0, rss_conf_key = Some key_buffer, rss_conf_key_len = of_nat (length key_buffer)\<rparr>
      in case filled f (rte_eth_dev_rss_hash_conf_get f (dev_port_id d) rss_conf w) w of
           Inl e \<Rightarrow> Inl e
         | Inr conf \<Rightarrow>
             Inr (rss_conf_hf conf,
                  take (unat (rss_conf_key_len conf)) (case rss_conf_key conf of Some k \<Rightarrow> k | None \<Rightarrow> key_buffer)))"

definition EthDev_has_tcp_rss ::
  "('w, 'i, 's, 'r, 't, 'z) eth_ffi_scheme \<Rightarrow> ('k) rss_hf_consts_scheme \<Rightarrow> eth_dev \<Rightarrow> 'w \<Rightarrow> errno + bool" where
  "EthDev_has_tcp_rss f k d w =
     (case EthDev_rss_hash_conf f d w of
        Inl e \<Rightarrow> Inl e
      | Inr (rss_hf, key) \<Rightarrow> Inr (rss_hf AND (HF_NONFRAG_IPV4_TCP k OR HF_NONFRAG_IPV6_TCP k) \<noteq> 0))"

text \<open>
  The redirection table in groups of 64 entries. \<open>div_ceil\<close> is the number of groups; the entries of the
  last group behind the table keep their zeros. The remainder by zero queues panics at the first entry.
\<close>

definition div_ceil :: "nat \<Rightarrow> nat \<Rightarrow> nat" where
  "div_ceil a b = (a + b - 1) div b"

definition reta_group :: "nat \<Rightarrow> nat \<Rightarrow> nat \<Rightarrow> reta_entry64" where
  "reta_group reta_size nb group_idx =
     \<lparr>reta_mask = - 1,
      reta_reta = map (\<lambda>i. let entry_idx = group_idx * 64 + i
                          in if entry_idx < reta_size then of_nat (entry_idx mod nb) else 0) [0..<64]\<rparr>"

definition EthDev_configure_rss_reta ::
  "('w, 'i, 's, 'r, 't, 'z) eth_ffi_scheme \<Rightarrow> eth_dev \<Rightarrow> u16 \<Rightarrow> 'w \<Rightarrow> ((errno + unit) \<times> 'w) outcome" where
  "EthDev_configure_rss_reta f d nb_rx_queues w =
     (case EthDev_info f d w of
        Inl e \<Rightarrow> Done (Inl e, w)
      | Inr info \<Rightarrow>
          (let reta_size = info_reta_size f info
           in if reta_size = 0 then Done (Inr (), w)
              else if nb_rx_queues = 0 then Panic ''attempt to calculate the remainder with a divisor of zero''
              else (let num_groups = div_ceil (unat reta_size) 64;
                        reta_conf = map (reta_group (unat reta_size) (unat nb_rx_queues)) [0..<num_groups]
                    in Done (checked f (rte_eth_dev_rss_reta_update f (dev_port_id d) reta_conf reta_size w)))))"

definition EthDev_update_rss_hash ::
  "('w, 'i, 's, 'r, 't, 'z) eth_ffi_scheme \<Rightarrow> eth_dev \<Rightarrow> u64 \<Rightarrow> u8 list option \<Rightarrow> 'w \<Rightarrow> (errno + unit) \<times> 'w" where
  "EthDev_update_rss_hash f d rss_hf key w =
     (let rss_conf = (case key of
            Some k \<Rightarrow> \<lparr>rss_conf_hf = rss_hf, rss_conf_key = Some k, rss_conf_key_len = of_nat (length k)\<rparr>
          | None \<Rightarrow> \<lparr>rss_conf_hf = rss_hf, rss_conf_key = None, rss_conf_key_len = 0\<rparr>)
      in checked f (rte_eth_dev_rss_hash_update f (dev_port_id d) rss_conf w))"

text \<open>The entries are read back group by group while they are inside the table.\<close>

definition collect_reta :: "nat \<Rightarrow> reta_entry64 list \<Rightarrow> u16 list" where
  "collect_reta reta_size groups =
     concat (map (\<lambda>(group_idx, group).
       map (\<lambda>i. reta_reta group ! i) (filter (\<lambda>i. group_idx * 64 + i < reta_size) [0..<64])) (enumerate 0 groups))"

definition EthDev_query_rss_reta ::
  "('w, 'i, 's, 'r, 't, 'z) eth_ffi_scheme \<Rightarrow> eth_dev \<Rightarrow> 'w \<Rightarrow> errno + u16 list" where
  "EthDev_query_rss_reta f d w =
     (case EthDev_info f d w of
        Inl e \<Rightarrow> Inl e
      | Inr info \<Rightarrow>
          (let reta_size = info_reta_size f info
           in if reta_size = 0 then Inr []
              else (let num_groups = div_ceil (unat reta_size) 64;
                        reta_conf = replicate num_groups \<lparr>reta_mask = - 1, reta_reta = replicate 64 0\<rparr>
                    in case filled f (rte_eth_dev_rss_reta_query f (dev_port_id d) reta_conf reta_size w) w of
                         Inl e \<Rightarrow> Inl e
                       | Inr groups \<Rightarrow> Inr (collect_reta (unat reta_size) groups))))"

subsection \<open>The builder\<close>

record ('r, 't) eth_dev_builder =
  b_port_id :: u16
  b_eth_conf :: eth_conf
  b_nb_rx_queues :: u16
  b_nb_tx_queues :: u16
  b_rx_queue_conf :: "'r queue_conf"
  b_tx_queue_conf :: "'t queue_conf"
  b_promiscuous :: bool

definition EthDevBuilder_new :: "u16 \<Rightarrow> ('r, 't) eth_dev_builder" where
  "EthDevBuilder_new port_id =
     \<lparr>b_port_id = port_id, b_eth_conf = EthConf_new, b_nb_rx_queues = 1, b_nb_tx_queues = 1,
      b_rx_queue_conf = RxQueueConf_default, b_tx_queue_conf = TxQueueConf_default, b_promiscuous = False\<rparr>"

definition EthDevBuilder_eth_conf :: "('r, 't) eth_dev_builder \<Rightarrow> eth_conf \<Rightarrow> ('r, 't) eth_dev_builder" where
  "EthDevBuilder_eth_conf b conf = b\<lparr>b_eth_conf := conf\<rparr>"

definition EthDevBuilder_nb_rx_queues :: "('r, 't) eth_dev_builder \<Rightarrow> u16 \<Rightarrow> ('r, 't) eth_dev_builder" where
  "EthDevBuilder_nb_rx_queues b n = b\<lparr>b_nb_rx_queues := n\<rparr>"

definition EthDevBuilder_nb_tx_queues :: "('r, 't) eth_dev_builder \<Rightarrow> u16 \<Rightarrow> ('r, 't) eth_dev_builder" where
  "EthDevBuilder_nb_tx_queues b n = b\<lparr>b_nb_tx_queues := n\<rparr>"

definition EthDevBuilder_rx_queue_conf :: "('r, 't) eth_dev_builder \<Rightarrow> 'r queue_conf \<Rightarrow> ('r, 't) eth_dev_builder" where
  "EthDevBuilder_rx_queue_conf b conf = b\<lparr>b_rx_queue_conf := conf\<rparr>"

definition EthDevBuilder_tx_queue_conf :: "('r, 't) eth_dev_builder \<Rightarrow> 't queue_conf \<Rightarrow> ('r, 't) eth_dev_builder" where
  "EthDevBuilder_tx_queue_conf b conf = b\<lparr>b_tx_queue_conf := conf\<rparr>"

definition EthDevBuilder_promiscuous :: "('r, 't) eth_dev_builder \<Rightarrow> ('r, 't) eth_dev_builder" where
  "EthDevBuilder_promiscuous b = b\<lparr>b_promiscuous := True\<rparr>"

text \<open>\<open>and_then r k\<close> is \<open>r?; k\<close> on calls that change the world.\<close>

definition and_then :: "(errno + unit) \<times> 'w \<Rightarrow> ('w \<Rightarrow> (errno + 'a) \<times> 'w) \<Rightarrow> (errno + 'a) \<times> 'w" where
  "and_then r k = (case r of (Inl e, w) \<Rightarrow> (Inl e, w) | (Inr _, w) \<Rightarrow> k w)"

fun rx_setup_loop ::
  "('w, 'i, 's, 'r, 't, 'z) eth_ffi_scheme \<Rightarrow> eth_dev \<Rightarrow> mem_pool \<Rightarrow> 'r queue_conf \<Rightarrow> nat list \<Rightarrow> 'w
     \<Rightarrow> (errno + unit) \<times> 'w" where
  "rx_setup_loop f d mempool conf [] w = (Inr (), w)"
| "rx_setup_loop f d mempool conf (q # qs) w =
     and_then (EthDev_rx_queue_setup f d (of_nat q) mempool conf w) (rx_setup_loop f d mempool conf qs)"

fun tx_setup_loop ::
  "('w, 'i, 's, 'r, 't, 'z) eth_ffi_scheme \<Rightarrow> eth_dev \<Rightarrow> 't queue_conf \<Rightarrow> nat list \<Rightarrow> 'w
     \<Rightarrow> (errno + unit) \<times> 'w" where
  "tx_setup_loop f d conf [] w = (Inr (), w)"
| "tx_setup_loop f d conf (q # qs) w =
     and_then (EthDev_tx_queue_setup f d (of_nat q) conf w) (tx_setup_loop f d conf qs)"

text \<open>The RSS part of \<open>build\<close>: failures of its two calls are logged and otherwise ignored.\<close>

definition build_rss ::
  "('w, 'i, 's, 'r, 't, 'z) eth_ffi_scheme \<Rightarrow> ('r, 't) eth_dev_builder \<Rightarrow> eth_dev \<Rightarrow> 'w \<Rightarrow> 'w outcome" where
  "build_rss f b dev w =
     (if 1 < unat (b_nb_rx_queues b)
      then outcome_bind (EthDev_configure_rss_reta f dev (b_nb_rx_queues b) w) (\<lambda>(_, w).
             (let rss_hf = ec_rss_hf (b_eth_conf b)
              in Done (if rss_hf \<noteq> 0 then snd (EthDev_update_rss_hash f dev rss_hf (Some RSS_KEY_40) w) else w)))
      else Done w)"

definition EthDevBuilder_build ::
  "('w, 'i, 's, 'r, 't, 'z) eth_ffi_scheme \<Rightarrow> ('r, 't) eth_dev_builder \<Rightarrow> mem_pool \<Rightarrow> 'w
     \<Rightarrow> ((errno + eth_dev) \<times> 'w) outcome" where
  "EthDevBuilder_build f b mempool w =
     (let dev = EthDev_new (b_port_id b)
      in case and_then (EthDev_configure f dev (b_nb_rx_queues b) (b_nb_tx_queues b) (b_eth_conf b) w) (\<lambda>w.
                and_then (rx_setup_loop f dev mempool (b_rx_queue_conf b) [0..<unat (b_nb_rx_queues b)] w)
                  (tx_setup_loop f dev (b_tx_queue_conf b) [0..<unat (b_nb_tx_queues b)])) of
           (Inl e, w) \<Rightarrow> Done (Inl e, w)
         | (Inr _, w) \<Rightarrow>
             outcome_bind (build_rss f b dev w) (\<lambda>w.
               Done (and_then (if b_promiscuous b then EthDev_promiscuous_enable f dev w else (Inr (), w)) (\<lambda>w.
                       and_then (EthDev_start f dev w) (\<lambda>w. (Inr dev, w))))))"

definition iter_ports :: "('w, 'i, 's, 'r, 't, 'z) eth_ffi_scheme \<Rightarrow> 'w \<Rightarrow> u16 list" where
  "iter_ports f w = map of_nat [0..<unat (EthDev_count_avail f w)]"

text \<open>\<open>{:02x}\<close> prints a byte as two lower case hexadecimal digits.\<close>

definition hex_digit :: "nat \<Rightarrow> char" where
  "hex_digit n = ''0123456789abcdef'' ! n"

definition hex02 :: "u8 \<Rightarrow> string" where
  "hex02 b = [hex_digit (unat b div 16), hex_digit (unat b mod 16)]"

primrec format_mac_addr :: "ether_addr \<Rightarrow> string" where
  "format_mac_addr (EtherAddr a b c d e f) =
     hex02 a @ '':'' @ hex02 b @ '':'' @ hex02 c @ '':'' @ hex02 d @ '':'' @ hex02 e @ '':'' @ hex02 f"

end
