(* ===== verification/Eth_Port.thy ===== *)
theory Eth_Port
  imports Eth_Dev
begin

section \<open>What configuring a port does\<close>

text \<open>
  The documented behaviour of the device functions as a law over a view of the ports, and what follows for
  the redirection table and for a device that \<open>EthDevBuilder::build\<close> has set up.
\<close>

subsection \<open>What DPDK documents about a port\<close>

text \<open>
  \<open>V w p\<close> is what the calls below make of port \<open>p\<close>: its configuration, the queues set up, the redirection
  table, the RSS hash, promiscuous mode and whether it is started. A call that succeeds has its documented
  effect on its own port only; a call that fails does not start or stop the port and touches no other, and
  the two RSS calls that \<open>build\<close> lets fail change at most the RSS state. Configuring a port may release
  its queues and reset the table, whose size stays that of the hardware.
\<close>

record ('r, 't) port_view =
  pv_socket :: i32
  pv_configured :: "(u16 \<times> u16 \<times> rte_eth_conf) option"
  pv_rxq :: "u16 \<Rightarrow> (u16 \<times> u32 \<times> 'r option \<times> ptr) option"
  pv_txq :: "u16 \<Rightarrow> (u16 \<times> u32 \<times> 't option) option"
  pv_reta :: "u16 list"
  pv_rss :: "rte_rss_conf option"
  pv_promisc :: bool
  pv_started :: bool

definition effect ::
  "('w \<Rightarrow> u16 \<Rightarrow> ('r, 't) port_view) \<Rightarrow> u16 \<Rightarrow> (('r, 't) port_view \<Rightarrow> ('r, 't) port_view) \<Rightarrow> 'w \<Rightarrow> i32 \<times> 'w \<Rightarrow> bool" where
  "effect V p upd w r \<longleftrightarrow>
     (if 0 \<le> sint (fst r) then V (snd r) = (V w)(p := upd (V w p))
      else (\<forall>q. q \<noteq> p \<longrightarrow> V (snd r) q = V w q) \<and> pv_started (V (snd r) p) = pv_started (V w p))"

definition rss_effect ::
  "('w \<Rightarrow> u16 \<Rightarrow> ('r, 't) port_view) \<Rightarrow> u16 \<Rightarrow> (('r, 't) port_view \<Rightarrow> ('r, 't) port_view) \<Rightarrow> 'w \<Rightarrow> i32 \<times> 'w \<Rightarrow> bool" where
  "rss_effect V p upd w r \<longleftrightarrow>
     (if 0 \<le> sint (fst r) then V (snd r) = (V w)(p := upd (V w p))
      else \<exists>t h. length t = length (pv_reta (V w p)) \<and> V (snd r) = (V w)(p := (V w p)\<lparr>pv_reta := t, pv_rss := h\<rparr>))"

definition apply_reta :: "reta_entry64 list \<Rightarrow> u16 list \<Rightarrow> u16 list" where
  "apply_reta conf t = map (\<lambda>i. if bit (reta_mask (conf ! (i div 64))) (i mod 64)
     then reta_reta (conf ! (i div 64)) ! (i mod 64) else t ! i) [0..<length t]"

definition reta_groups :: "u16 list \<Rightarrow> reta_entry64 list \<Rightarrow> bool" where
  "reta_groups t groups \<longleftrightarrow> length groups = div_ceil (length t) 64
     \<and> (\<forall>i < length t. reta_reta (groups ! (i div 64)) ! (i mod 64) = t ! i)"

definition eth_law ::
  "('w, 'i, 's, 'r, 't, 'z) eth_ffi_scheme \<Rightarrow> ('w \<Rightarrow> u16 \<Rightarrow> ('r, 't) port_view) \<Rightarrow> bool" where
  "eth_law f V \<longleftrightarrow>
     (\<forall>p w. rte_eth_dev_socket_id f p w = pv_socket (V w p))
     \<and> (\<forall>p w. 0 \<le> sint (fst (rte_eth_dev_info_get f p w)) \<longrightarrow>
          unat (info_reta_size f (snd (rte_eth_dev_info_get f p w))) = length (pv_reta (V w p)))
     \<and> (\<forall>p nrx ntx c w. \<exists>rq tq t. length t = length (pv_reta (V w p)) \<and>
          effect V p (\<lambda>v. v\<lparr>pv_configured := Some (nrx, ntx, c), pv_rxq := rq, pv_txq := tq, pv_reta := t\<rparr>) w
            (rte_eth_dev_configure f p nrx ntx c w))
     \<and> (\<forall>p q n s c m w. effect V p (\<lambda>v. v\<lparr>pv_rxq := (pv_rxq v)(q \<mapsto> (n, s, c, m))\<rparr>) w
          (rte_eth_rx_queue_setup f p q n s c m w))
     \<and> (\<forall>p q n s c w. effect V p (\<lambda>v. v\<lparr>pv_txq := (pv_txq v)(q \<mapsto> (n, s, c))\<rparr>) w (rte_eth_tx_queue_setup f p q n s c w))
     \<and> (\<forall>p w. effect V p (\<lambda>v. v\<lparr>pv_started := True\<rparr>) w (rte_eth_dev_start f p w))
     \<and> (\<forall>p w. effect V p (\<lambda>v. v\<lparr>pv_promisc := True\<rparr>) w (rte_eth_promiscuous_enable f p w))
     \<and> (\<forall>p c w. rss_effect V p (\<lambda>v. v\<lparr>pv_rss := Some c\<rparr>) w (rte_eth_dev_rss_hash_update f p c w))
     \<and> (\<forall>p conf n w. rss_effect V p (\<lambda>v. v\<lparr>pv_reta := apply_reta conf (pv_reta v)\<rparr>) w
          (rte_eth_dev_rss_reta_update f p conf n w))
     \<and> (\<forall>p conf w. (\<forall>g \<in> set conf. reta_mask g = - 1) \<longrightarrow> length conf = div_ceil (length (pv_reta (V w p))) 64 \<longrightarrow>
          0 \<le> sint (fst (rte_eth_dev_rss_reta_query f p conf (of_nat (length (pv_reta (V w p)))) w)) \<longrightarrow>
          reta_groups (pv_reta (V w p)) (snd (rte_eth_dev_rss_reta_query f p conf (of_nat (length (pv_reta (V w p)))) w)))"

subsection \<open>The redirection table\<close>

lemma div_ceil_64: "i < n \<Longrightarrow> i div 64 < div_ceil n 64"
proof -
  assume "i < n"
  then have "i div 64 \<le> (n - 1) div 64" by (intro div_le_mono) simp
  also have "\<dots> < (n + 63) div 64"
  proof -
    have "n + 63 = (n - 1) + 64" using \<open>i < n\<close> by simp
    then show ?thesis by simp
  qed
  finally show ?thesis by (simp add: div_ceil_def)
qed

lemma div_ceil_64_ge: "n \<le> div_ceil n 64 * 64"
  unfolding div_ceil_def by presburger

lemma reta_group_entry:
  assumes "i < n"
  shows "reta_reta (map (reta_group n nb) [0..<div_ceil n 64] ! (i div 64)) ! (i mod 64) = of_nat (i mod nb)"
  using assms div_ceil_64 [OF assms] by (simp add: reta_group_def Let_def mult.commute [of _ 64])

lemma apply_reta_round_robin:
  "apply_reta (map (reta_group (length t) nb) [0..<div_ceil (length t) 64]) t = map (\<lambda>i. of_nat (i mod nb)) [0..<length t]"
proof -
  have "bit (reta_mask (map (reta_group (length t) nb) [0..<div_ceil (length t) 64] ! (i div 64))) (i mod 64)"
    if "i < length t" for i
    using div_ceil_64 [OF that] by (simp add: reta_group_def)
  then show ?thesis
    unfolding apply_reta_def by (intro map_cong refl) (simp add: reta_group_entry)
qed

lemma filter_upt_below: "filter (\<lambda>i. a + i < b) [0..<n] = [0..<min n (b - a)]"
proof (induction n)
  case (Suc n)
  have "min (Suc n) (b - a) = (if a + n < b then Suc n else b - a)" "a + n < b \<Longrightarrow> min n (b - a) = n"
    "\<not> a + n < b \<Longrightarrow> min n (b - a) = b - a" by auto
  then show ?case using Suc by simp
qed simp

lemma concat_groups:
  assumes "0 < B"
  shows "concat (map (\<lambda>g. map (h g) (filter (\<lambda>i. g * B + i < n) [0..<B])) [0..<k])
    = map (\<lambda>e. h (e div B) (e mod B)) [0..<min n (k * B)]"
proof (induction k)
  case (Suc k)
  let ?m = "min B (n - k * B)"
  have split: "[0..<min n (Suc k * B)] = [0..<min n (k * B)] @ map (\<lambda>i. k * B + i) [0..<?m]"
  proof (cases "k * B \<le> n")
    case True
    then have "min n (Suc k * B) = k * B + ?m" "min n (k * B) = k * B" by auto
    moreover have "map (\<lambda>i. k * B + i) [0..<?m] = [k * B..<k * B + ?m]"
      by (rule nth_equalityI) simp_all
    ultimately show ?thesis using upt_add_eq_append [of 0 "k * B" ?m] by simp
  next
    case False
    then have "min n (Suc k * B) = n" "min n (k * B) = n" "?m = 0" by auto
    then show ?thesis by simp
  qed
  have "map (\<lambda>e. h (e div B) (e mod B)) (map (\<lambda>i. k * B + i) [0..<?m]) = map (h k) [0..<?m]"
    using assms by simp
  with Suc show ?case unfolding split by (simp add: filter_upt_below)
qed simp

lemma map_enumerate: "map (\<lambda>(i, x). f i x) (enumerate 0 xs) = map (\<lambda>i. f i (xs ! i)) [0..<length xs]"
  by (rule nth_equalityI) (auto simp: enumerate_eq_zip)

lemma collect_reta_eq:
  assumes "reta_groups t groups"
  shows "collect_reta (length t) groups = t"
proof -
  have "collect_reta (length t) groups = map (\<lambda>e. reta_reta (groups ! (e div 64)) ! (e mod 64)) [0..<length t]"
    using assms div_ceil_64_ge [of "length t"] unfolding collect_reta_def reta_groups_def map_enumerate
    by (subst concat_groups) (simp_all add: min_absorb1)
  also have "\<dots> = map ((!) t) [0..<length t]"
    using assms by (intro map_cong) (simp_all add: reta_groups_def)
  finally show ?thesis by (simp add: map_nth)
qed

lemma count_round_robin:
  assumes "q < n"
  shows "count_list (map (\<lambda>i. i mod n) [0..<s]) q = s div n + (if q < s mod n then 1 else 0)"
proof (induction s)
  case (Suc s)
  have "s mod n < n" using assms by simp
  then show ?case using Suc assms by (auto simp: mod_Suc div_Suc split: if_splits)
qed simp

subsection \<open>One call at a time\<close>

lemma checked_cases: "checked f r = (Inr u, w') \<longleftrightarrow> 0 \<le> sint (fst r) \<and> w' = snd r"
  "checked f r = (Inl e, w') \<longleftrightarrow> sint (fst r) < 0 \<and> w' = snd r \<and> e = rte_errno f w'"
  by (auto simp: checked_def)

lemma and_then_Inr: "and_then r k = (Inr x, w') \<longleftrightarrow> (\<exists>w. r = (Inr (), w) \<and> k w = (Inr x, w'))"
  by (auto simp: and_then_def split: prod.splits sum.splits)

lemma and_then_Inl: "and_then r k = (Inl e, w') \<longleftrightarrow> r = (Inl e, w') \<or> (\<exists>w. r = (Inr (), w) \<and> k w = (Inl e, w'))"
  by (auto simp: and_then_def split: prod.splits sum.splits)

lemma eth_lawD:
  assumes "eth_law f V"
  shows "rte_eth_dev_socket_id f p w = pv_socket (V w p)"
    "0 \<le> sint (fst (rte_eth_dev_info_get f p w)) \<Longrightarrow>
      unat (info_reta_size f (snd (rte_eth_dev_info_get f p w))) = length (pv_reta (V w p))"
    "\<exists>rq tq t. length t = length (pv_reta (V w p)) \<and>
      effect V p (\<lambda>v. v\<lparr>pv_configured := Some (nrx, ntx, c), pv_rxq := rq, pv_txq := tq, pv_reta := t\<rparr>) w
        (rte_eth_dev_configure f p nrx ntx c w)"
    "effect V p (\<lambda>v. v\<lparr>pv_rxq := (pv_rxq v)(q \<mapsto> (n, s, rc, m))\<rparr>) w (rte_eth_rx_queue_setup f p q n s rc m w)"
    "effect V p (\<lambda>v. v\<lparr>pv_txq := (pv_txq v)(q \<mapsto> (n, s, tc))\<rparr>) w (rte_eth_tx_queue_setup f p q n s tc w)"
    "effect V p (\<lambda>v. v\<lparr>pv_started := True\<rparr>) w (rte_eth_dev_start f p w)"
    "effect V p (\<lambda>v. v\<lparr>pv_promisc := True\<rparr>) w (rte_eth_promiscuous_enable f p w)"
    "rss_effect V p (\<lambda>v. v\<lparr>pv_rss := Some rss\<rparr>) w (rte_eth_dev_rss_hash_update f p rss w)"
    "rss_effect V p (\<lambda>v. v\<lparr>pv_reta := apply_reta conf (pv_reta v)\<rparr>) w (rte_eth_dev_rss_reta_update f p conf k w)"
  using assms unfolding eth_law_def by simp_all

text \<open>What a fallible step may do when it fails: nothing to other ports, and it does not start the port.\<close>

definition port_only :: "('w \<Rightarrow> u16 \<Rightarrow> ('r, 't) port_view) \<Rightarrow> u16 \<Rightarrow> 'w \<Rightarrow> 'w \<Rightarrow> bool" where
  "port_only V p w w' \<longleftrightarrow> (\<forall>q. q \<noteq> p \<longrightarrow> V w' q = V w q) \<and> pv_started (V w' p) = pv_started (V w p)"

lemma port_only_trans: "port_only V p w1 w2 \<Longrightarrow> port_only V p w2 w3 \<Longrightarrow> port_only V p w1 w3"
  by (simp add: port_only_def)

lemma effect_ok: "effect V p upd w r \<Longrightarrow> checked f r = (Inr u, w') \<Longrightarrow> V w' = (V w)(p := upd (V w p))"
  by (simp add: effect_def checked_cases)

lemma effect_err: "effect V p upd w r \<Longrightarrow> checked f r = (Inl e, w') \<Longrightarrow> port_only V p w w'"
  by (simp add: effect_def checked_cases port_only_def)

abbreviation queue_socket :: "i32 \<Rightarrow> 'q queue_conf \<Rightarrow> i32" where
  "queue_socket dev c \<equiv> (if sint (qc_socket_id c) < 0 then dev else qc_socket_id c)"

lemma rx_queue_setup_spec:
  assumes "eth_law f V" and "EthDev_rx_queue_setup f (EthDev p) q mp c w = (r, w')"
  shows "case r of Inr _ \<Rightarrow> V w' = (V w)(p := (V w p)\<lparr>pv_rxq := (pv_rxq (V w p))(q \<mapsto>
        (qc_nb_desc c, queue_socket (pv_socket (V w p)) c, qc_conf c, mem_pool_inner mp))\<rparr>)
    | Inl e \<Rightarrow> port_only V p w w'"
  using assms(2) effect_ok [OF eth_lawD(4) [OF assms(1)]] effect_err [OF eth_lawD(4) [OF assms(1)]]
  unfolding EthDev_rx_queue_setup_def EthDev_socket_id_def eth_lawD(1) [OF assms(1)] Let_def
  by (cases r) auto

lemma tx_queue_setup_spec:
  assumes "eth_law f V" and "EthDev_tx_queue_setup f (EthDev p) q c w = (r, w')"
  shows "case r of Inr _ \<Rightarrow> V w' = (V w)(p := (V w p)\<lparr>pv_txq := (pv_txq (V w p))(q \<mapsto>
        (qc_nb_desc c, queue_socket (pv_socket (V w p)) c, qc_conf c))\<rparr>)
    | Inl e \<Rightarrow> port_only V p w w'"
  using assms(2) effect_ok [OF eth_lawD(5) [OF assms(1)]] effect_err [OF eth_lawD(5) [OF assms(1)]]
  unfolding EthDev_tx_queue_setup_def EthDev_socket_id_def eth_lawD(1) [OF assms(1)] Let_def
  by (cases r) auto

subsection \<open>The loops of the builder\<close>

lemma rx_setup_loop_spec:
  assumes "eth_law f V" and "rx_setup_loop f (EthDev p) mp c qs w = (r, w')"
  shows "case r of Inr _ \<Rightarrow> V w' = (V w)(p := (V w p)\<lparr>pv_rxq := (\<lambda>q. if q \<in> of_nat ` set qs then
        Some (qc_nb_desc c, queue_socket (pv_socket (V w p)) c, qc_conf c, mem_pool_inner mp) else pv_rxq (V w p) q)\<rparr>)
    | Inl e \<Rightarrow> port_only V p w w'"
  using assms(2)
proof (induction qs arbitrary: w)
  case (Cons q qs)
  obtain r1 w1 where s: "EthDev_rx_queue_setup f (EthDev p) (of_nat q) mp c w = (r1, w1)" by fastforce
  note one = rx_queue_setup_spec [OF assms(1) s]
  show ?case
  proof (cases r1)
    case (Inl e)
    with Cons.prems s one show ?thesis by (auto simp: and_then_def)
  next
    case (Inr u)
    with Cons.prems s have l: "rx_setup_loop f (EthDev p) mp c qs w1 = (r, w')" by (simp add: and_then_def)
    have v1: "V w1 = (V w)(p := (V w p)\<lparr>pv_rxq := (pv_rxq (V w p))(of_nat q \<mapsto>
        (qc_nb_desc c, queue_socket (pv_socket (V w p)) c, qc_conf c, mem_pool_inner mp))\<rparr>)"
      using one Inr by simp
    have po: "port_only V p w w1" using v1 by (simp add: port_only_def)
    from Cons.IH [OF l] show ?thesis
      unfolding v1 using po port_only_trans [OF po] by (cases r) (auto simp: fun_eq_iff)
  qed
qed (auto simp: fun_eq_iff)

lemma tx_setup_loop_spec:
  assumes "eth_law f V" and "tx_setup_loop f (EthDev p) c qs w = (r, w')"
  shows "case r of Inr _ \<Rightarrow> V w' = (V w)(p := (V w p)\<lparr>pv_txq := (\<lambda>q. if q \<in> of_nat ` set qs then
        Some (qc_nb_desc c, queue_socket (pv_socket (V w p)) c, qc_conf c) else pv_txq (V w p) q)\<rparr>)
    | Inl e \<Rightarrow> port_only V p w w'"
  using assms(2)
proof (induction qs arbitrary: w)
  case (Cons q qs)
  obtain r1 w1 where s: "EthDev_tx_queue_setup f (EthDev p) (of_nat q) c w = (r1, w1)" by fastforce
  note one = tx_queue_setup_spec [OF assms(1) s]
  show ?case
  proof (cases r1)
    case (Inl e)
    with Cons.prems s one show ?thesis by (auto simp: and_then_def)
  next
    case (Inr u)
    with Cons.prems s have l: "tx_setup_loop f (EthDev p) c qs w1 = (r, w')" by (simp add: and_then_def)
    have v1: "V w1 = (V w)(p := (V w p)\<lparr>pv_txq := (pv_txq (V w p))(of_nat q \<mapsto>
        (qc_nb_desc c, queue_socket (pv_socket (V w p)) c, qc_conf c))\<rparr>)"
      using one Inr by simp
    have po: "port_only V p w w1" using v1 by (simp add: port_only_def)
    from Cons.IH [OF l] show ?thesis
      unfolding v1 using po port_only_trans [OF po] by (cases r) (auto simp: fun_eq_iff)
  qed
qed (auto simp: fun_eq_iff)

text \<open>All queue numbers below the count, as the loops produce them.\<close>

lemma queues_below: "of_nat ` set [0..<unat n] = {q :: u16. q < n}"
proof -
  have "q \<in> of_nat ` set [0..<unat n] \<longleftrightarrow> q < n" for q :: u16
  proof
    assume "q < n"
    then have "unat q \<in> set [0..<unat n]" "q = of_nat (unat q)" by (simp_all add: word_less_nat_alt)
    then show "q \<in> of_nat ` set [0..<unat n]" by (rule rev_image_eqI)
  qed (auto simp: word_less_nat_alt unat_of_nat_u16_mod intro: le_less_trans [OF mod_less_eq_dividend])
  then show ?thesis by blast
qed

subsection \<open>RSS and the whole builder\<close>

definition round_robin :: "u16 \<Rightarrow> nat \<Rightarrow> u16 list" where
  "round_robin nb n = map (\<lambda>i. of_nat (i mod unat nb)) [0..<n]"

lemma length_round_robin [simp]: "length (round_robin nb n) = n"
  by (simp add: round_robin_def)

lemma info_reta_size_spec:
  assumes "eth_law f V" and "EthDev_info f (EthDev p) w = Inr info"
  shows "unat (info_reta_size f info) = length (pv_reta (V w p))"
proof -
  from assms(2) have ok: "0 \<le> sint (fst (rte_eth_dev_info_get f p w))" and i: "info = snd (rte_eth_dev_info_get f p w)"
    by (auto simp: EthDev_info_def filled_def split: sum.splits)
  show ?thesis unfolding i by (rule eth_lawD(2) [OF assms(1) ok])
qed

definition rss_only :: "('w \<Rightarrow> u16 \<Rightarrow> ('r, 't) port_view) \<Rightarrow> u16 \<Rightarrow> 'w \<Rightarrow> 'w \<Rightarrow> bool" where
  "rss_only V p w w' \<longleftrightarrow>
     (\<exists>t h. length t = length (pv_reta (V w p)) \<and> V w' = (V w)(p := (V w p)\<lparr>pv_reta := t, pv_rss := h\<rparr>))"

lemma rss_onlyI: "length t = length (pv_reta (V w p)) \<Longrightarrow> V w' = (V w)(p := (V w p)\<lparr>pv_reta := t, pv_rss := h\<rparr>) \<Longrightarrow> rss_only V p w w'"
  unfolding rss_only_def by blast

lemma rss_only_same: "V w' = V w \<Longrightarrow> rss_only V p w w'"
  by (rule rss_onlyI [where t = "pv_reta (V w p)" and h = "pv_rss (V w p)"]) (simp_all add: fun_eq_iff)

lemma rss_only_reta: "length t = length (pv_reta (V w p)) \<Longrightarrow> V w' = (V w)(p := (V w p)\<lparr>pv_reta := t\<rparr>) \<Longrightarrow> rss_only V p w w'"
  by (rule rss_onlyI [where t = t and h = "pv_rss (V w p)"]) simp_all

lemma rss_only_hash: "V w' = (V w)(p := (V w p)\<lparr>pv_rss := h\<rparr>) \<Longrightarrow> rss_only V p w w'"
  by (rule rss_onlyI [where t = "pv_reta (V w p)" and h = h]) simp_all

lemma rss_only_trans:
  assumes "rss_only V p w1 w2" and "rss_only V p w2 w3"
  shows "rss_only V p w1 w3"
proof -
  from assms(1) obtain t h where 1: "length t = length (pv_reta (V w1 p))" "V w2 = (V w1)(p := (V w1 p)\<lparr>pv_reta := t, pv_rss := h\<rparr>)"
    by (auto simp: rss_only_def)
  from assms(2) obtain t' h' where 2: "length t' = length (pv_reta (V w2 p))" "V w3 = (V w2)(p := (V w2 p)\<lparr>pv_reta := t', pv_rss := h'\<rparr>)"
    by (auto simp: rss_only_def)
  show ?thesis by (rule rss_onlyI [of t' _ _ _ _ h']) (use 1 2 in simp_all)
qed

lemma rss_only_err: "rss_effect V p upd w r \<Longrightarrow> \<not> 0 \<le> sint (fst r) \<Longrightarrow> rss_only V p w (snd r)"
  by (simp add: rss_effect_def rss_only_def)

lemma configure_rss_reta_spec:
  assumes law: "eth_law f V" and nb: "nb \<noteq> 0"
  shows "\<exists>r w'. EthDev_configure_rss_reta f (EthDev p) nb w = Done (r, w') \<and> rss_only V p w w' \<and>
    (r = Inr () \<longrightarrow> V w' = (V w)(p := (V w p)\<lparr>pv_reta := round_robin nb (length (pv_reta (V w p)))\<rparr>))"
proof (cases "EthDev_info f (EthDev p) w")
  case (Inl e)
  then show ?thesis by (simp add: EthDev_configure_rss_reta_def rss_only_same)
next
  case (Inr info)
  note n = info_reta_size_spec [OF law Inr]
  show ?thesis
  proof (cases "info_reta_size f info = 0")
    case True
    with n have "pv_reta (V w p) = []" by simp
    then have "V w = (V w)(p := (V w p)\<lparr>pv_reta := round_robin nb (length (pv_reta (V w p)))\<rparr>)"
      by (simp add: fun_eq_iff round_robin_def)
    with Inr True show ?thesis by (simp add: EthDev_configure_rss_reta_def rss_only_same)
  next
    case False
    let ?t = "pv_reta (V w p)"
    let ?g = "map (reta_group (length ?t) (unat nb)) [0..<div_ceil (length ?t) 64]"
    let ?c = "rte_eth_dev_rss_reta_update f p ?g (info_reta_size f info) w"
    have c: "EthDev_configure_rss_reta f (EthDev p) nb w = Done (checked f ?c)"
      using Inr False nb by (simp add: EthDev_configure_rss_reta_def n Let_def)
    note e = eth_lawD(9) [OF law, where p = p and w = w and conf = ?g and k = "info_reta_size f info"]
    show ?thesis
    proof (cases "0 \<le> sint (fst ?c)")
      case True
      with e have v: "V (snd ?c) = (V w)(p := (V w p)\<lparr>pv_reta := round_robin nb (length ?t)\<rparr>)"
        by (simp add: rss_effect_def apply_reta_round_robin round_robin_def)
      show ?thesis unfolding c using True v rss_only_reta [OF _ v] by (simp add: checked_def)
    next
      case False
      then show ?thesis unfolding c using rss_only_err [OF e False] by (simp add: checked_def)
    qed
  qed
qed

lemma build_rss_spec:
  assumes law: "eth_law f V"
  shows "\<exists>w'. build_rss f b (EthDev p) w = Done w' \<and> rss_only V p w w'"
proof (cases "1 < unat (b_nb_rx_queues b)")
  case True
  then have "b_nb_rx_queues b \<noteq> 0" by auto
  from configure_rss_reta_spec [OF law this, of p w] obtain r w1
    where c: "EthDev_configure_rss_reta f (EthDev p) (b_nb_rx_queues b) w = Done (r, w1)" and o1: "rss_only V p w w1" by blast
  have "rss_only V p w1 (snd (EthDev_update_rss_hash f (EthDev p) hf k w1))" for hf k
  proof -
    obtain c where c: "snd (EthDev_update_rss_hash f (EthDev p) hf k w1) = snd (rte_eth_dev_rss_hash_update f p c w1)"
      by (cases k) (auto simp: EthDev_update_rss_hash_def checked_def Let_def)
    note e = eth_lawD(8) [OF law, where p = p and rss = c and w = w1]
    show ?thesis unfolding c
      by (cases "0 \<le> sint (fst (rte_eth_dev_rss_hash_update f p c w1))")
        (use e rss_only_err [OF e] in \<open>auto simp: rss_effect_def intro: rss_only_hash\<close>)
  qed
  from rss_only_trans [OF o1 this] True c o1 show ?thesis by (simp add: build_rss_def Let_def)
next
  case False
  then show ?thesis by (simp add: build_rss_def rss_only_same)
qed

lemma configure_spec:
  assumes "eth_law f V" and "EthDev_configure f (EthDev p) nrx ntx conf w = (r, w')"
  shows "case r of Inr _ \<Rightarrow> \<exists>rq tq t. length t = length (pv_reta (V w p)) \<and> V w' = (V w)(p := (V w p)\<lparr>
        pv_configured := Some (nrx, ntx, fst (EthConf_to_raw conf)), pv_rxq := rq, pv_txq := tq, pv_reta := t\<rparr>)
    | Inl e \<Rightarrow> port_only V p w w'"
proof -
  obtain rq tq t where l: "length t = length (pv_reta (V w p))"
    and e: "effect V p (\<lambda>v. v\<lparr>pv_configured := Some (nrx, ntx, fst (EthConf_to_raw conf)), pv_rxq := rq, pv_txq := tq, pv_reta := t\<rparr>) w
      (rte_eth_dev_configure f p nrx ntx (fst (EthConf_to_raw conf)) w)"
    using eth_lawD(3) [OF assms(1)] by blast
  have c: "checked f (rte_eth_dev_configure f p nrx ntx (fst (EthConf_to_raw conf)) w) = (r, w')"
    using assms(2) by (simp add: EthDev_configure_def split: prod.splits)
  show ?thesis
  proof (cases r)
    case (Inl x)
    with effect_err [OF e c [unfolded Inl]] show ?thesis by simp
  next
    case (Inr x)
    from l effect_ok [OF e c [unfolded Inr]] show ?thesis
      unfolding Inr sum.case by (intro exI [of _ rq] exI [of _ tq] exI [of _ t] conjI)
  qed
qed

text \<open>The states of the builder after each of its stages, for a build that gets that far.\<close>

lemma build_stages:
  assumes law: "eth_law f V" and q: "and_then (EthDev_configure f (EthDev p) nrx ntx conf w) (\<lambda>w.
      and_then (rx_setup_loop f (EthDev p) mp rc [0..<unat nrx] w) (tx_setup_loop f (EthDev p) tc [0..<unat ntx])) = (r, w')"
  shows "case r of
      Inr _ \<Rightarrow> (\<forall>p'. p' \<noteq> p \<longrightarrow> V w' p' = V w p') \<and> pv_started (V w' p) = pv_started (V w p)
        \<and> pv_configured (V w' p) = Some (nrx, ntx, fst (EthConf_to_raw conf))
        \<and> (\<forall>i < nrx. pv_rxq (V w' p) i =
              Some (qc_nb_desc rc, queue_socket (pv_socket (V w p)) rc, qc_conf rc, mem_pool_inner mp))
        \<and> (\<forall>i < ntx. pv_txq (V w' p) i = Some (qc_nb_desc tc, queue_socket (pv_socket (V w p)) tc, qc_conf tc))
    | Inl e \<Rightarrow> port_only V p w w'"
proof -
  obtain r1 w1 where c: "EthDev_configure f (EthDev p) nrx ntx conf w = (r1, w1)" by fastforce
  obtain r2 w2 where rx: "rx_setup_loop f (EthDev p) mp rc [0..<unat nrx] w1 = (r2, w2)" by fastforce
  obtain r3 w3 where tx: "tx_setup_loop f (EthDev p) tc [0..<unat ntx] w2 = (r3, w3)" by fastforce
  note cs = configure_spec [OF law c] and rs = rx_setup_loop_spec [OF law rx, unfolded queues_below]
    and ts = tx_setup_loop_spec [OF law tx, unfolded queues_below]
  have po1: "r1 = Inr () \<Longrightarrow> port_only V p w w1" using cs by (auto simp: port_only_def)
  have po2: "r2 = Inr () \<Longrightarrow> port_only V p w1 w2" using rs by (auto simp: port_only_def)
  show ?thesis
  proof (cases r1)
    case (Inl e)
    with q c cs show ?thesis by (auto simp: and_then_def)
  next
    case 1: (Inr u1)
    show ?thesis
    proof (cases r2)
      case (Inl e)
      with q c rx rs 1 port_only_trans [OF po1] show ?thesis by (auto simp: and_then_def)
    next
      case 2: (Inr u2)
      have r: "r3 = r" "w3 = w'" using q c rx tx 1 2 by (auto simp: and_then_def)
      show ?thesis
      proof (cases r)
        case (Inl e)
        with ts r 1 2 port_only_trans [OF port_only_trans [OF po1 po2]] show ?thesis by simp
      next
        case (Inr u)
        with cs rs ts 1 2 r show ?thesis by auto
      qed
    qed
  qed
qed

lemma query_rss_reta_spec:
  assumes law: "eth_law f V" and "EthDev_query_rss_reta f (EthDev p) w = Inr t"
  shows "t = pv_reta (V w p)"
proof -
  from assms(2) obtain info where i: "EthDev_info f (EthDev p) w = Inr info"
    by (auto simp: EthDev_query_rss_reta_def split: sum.splits)
  note n = info_reta_size_spec [OF law i]
  show ?thesis
  proof (cases "info_reta_size f info = 0")
    case True
    with assms(2) i n show ?thesis by (simp add: EthDev_query_rss_reta_def)
  next
    case False
    let ?c = "replicate (div_ceil (length (pv_reta (V w p))) 64) \<lparr>reta_mask = - 1, reta_reta = replicate 64 0\<rparr>"
    have s: "info_reta_size f info = of_nat (length (pv_reta (V w p)))" by (simp flip: n)
    let ?q = "rte_eth_dev_rss_reta_query f p ?c (of_nat (length (pv_reta (V w p)))) w"
    have "0 \<le> sint (fst ?q)" "t = collect_reta (length (pv_reta (V w p))) (snd ?q)"
      using assms(2) i False n s
      by (auto simp: EthDev_query_rss_reta_def Let_def filled_def check_rte_success_def split: sum.splits if_splits)
    moreover have "reta_groups (pv_reta (V w p)) (snd ?q)"
      using law calculation(1) unfolding eth_law_def by simp
    ultimately show ?thesis by (simp add: collect_reta_eq)
  qed
qed

subsection \<open>A port in memory\<close>

text \<open>The device functions over an explicit table of ports, of which only port 0 exists.\<close>

type_synonym sim_ports = "u16 \<Rightarrow> (unit, unit) port_view"

definition sim_call :: "u16 \<Rightarrow> ((unit, unit) port_view \<Rightarrow> (unit, unit) port_view) \<Rightarrow> sim_ports \<Rightarrow> i32 \<times> sim_ports" where
  "sim_call p upd w = (if p = 0 then (0, w(p := upd (w p))) else (- 19, w))"

definition sim_query :: "u16 list \<Rightarrow> reta_entry64 list" where
  "sim_query t = map (\<lambda>g. \<lparr>reta_mask = - 1, reta_reta = map (\<lambda>i. if g * 64 + i < length t then t ! (g * 64 + i) else 0) [0..<64]\<rparr>)
     [0..<div_ceil (length t) 64]"

definition sim_eth :: "(sim_ports, u16, unit, unit, unit) eth_ffi" where
  "sim_eth = \<lparr>rust_get_rte_errno = (\<lambda>_. 19), nix_from_raw = id,
     rte_eth_dev_count_avail = (\<lambda>_. 1),
     rte_eth_dev_info_get = (\<lambda>p w. (if p = 0 \<and> length (pv_reta (w p)) < 65536 then 0 else - 19, of_nat (length (pv_reta (w p))))),
     info_reta_size = id,
     rte_eth_dev_socket_id = (\<lambda>p w. pv_socket (w p)),
     rte_eth_macaddr_get = (\<lambda>p w. (0, EtherAddr 2 0 0 0 0 1)),
     rte_eth_stats_get = (\<lambda>p w. (0, ())),
     rte_eth_dev_configure = (\<lambda>p nrx ntx c. sim_call p (\<lambda>v. v\<lparr>pv_configured := Some (nrx, ntx, c)\<rparr>)),
     rte_eth_rx_queue_setup = (\<lambda>p q n s c m. sim_call p (\<lambda>v. v\<lparr>pv_rxq := (pv_rxq v)(q \<mapsto> (n, s, c, m))\<rparr>)),
     rte_eth_tx_queue_setup = (\<lambda>p q n s c. sim_call p (\<lambda>v. v\<lparr>pv_txq := (pv_txq v)(q \<mapsto> (n, s, c))\<rparr>)),
     rte_eth_dev_start = (\<lambda>p. sim_call p (\<lambda>v. v\<lparr>pv_started := True\<rparr>)),
     rte_eth_dev_stop = (\<lambda>p. sim_call p (\<lambda>v. v\<lparr>pv_started := False\<rparr>)),
     rte_eth_dev_close = (\<lambda>p. sim_call p (\<lambda>v. v\<lparr>pv_configured := None\<rparr>)),
     rte_eth_promiscuous_enable = (\<lambda>p. sim_call p (\<lambda>v. v\<lparr>pv_promisc := True\<rparr>)),
     rte_eth_promiscuous_disable = (\<lambda>p. sim_call p (\<lambda>v. v\<lparr>pv_promisc := False\<rparr>)),
     rte_eth_dev_rss_hash_conf_get = (\<lambda>p c w. (0, case pv_rss (w p) of Some c' \<Rightarrow> c' | None \<Rightarrow> c)),
     rte_eth_dev_rss_hash_update = (\<lambda>p c. sim_call p (\<lambda>v. v\<lparr>pv_rss := Some c\<rparr>)),
     rte_eth_dev_rss_reta_update = (\<lambda>p conf n. sim_call p (\<lambda>v. v\<lparr>pv_reta := apply_reta conf (pv_reta v)\<rparr>)),
     rte_eth_dev_rss_reta_query = (\<lambda>p conf n w. (0, sim_query (pv_reta (w p))))\<rparr>"

lemma sim_call_effect: "effect (\<lambda>w. w) p upd w (sim_call p upd w)"
  by (simp add: effect_def sim_call_def)

lemma sim_call_rss_effect: "rss_effect (\<lambda>w. w) p upd w (sim_call p upd w)"
  using rss_only_same [of "\<lambda>w. w" w w p] by (simp add: rss_effect_def rss_only_def sim_call_def)

lemma sim_query_groups: "reta_groups t (sim_query t)"
  unfolding reta_groups_def
proof (intro conjI allI impI)
  fix i
  assume i: "i < length t"
  have "i div 64 * 64 + i mod 64 = i" by simp
  then show "reta_reta (sim_query t ! (i div 64)) ! (i mod 64) = t ! i"
    using i div_ceil_64 [OF i] by (simp add: sim_query_def)
qed (simp add: sim_query_def)

lemma sim_eth_law: "eth_law sim_eth (\<lambda>w. w)"
proof -
  have conf: "\<exists>rq tq t. length t = length (pv_reta (w p)) \<and>
      effect (\<lambda>w. w) p (\<lambda>v. v\<lparr>pv_configured := Some (nrx, ntx, c), pv_rxq := rq, pv_txq := tq, pv_reta := t\<rparr>) w
        (rte_eth_dev_configure sim_eth p nrx ntx c w)" for p nrx ntx c and w :: sim_ports
    by (rule exI [of _ "pv_rxq (w p)"], rule exI [of _ "pv_txq (w p)"], rule exI [of _ "pv_reta (w p)"])
      (simp add: sim_eth_def effect_def sim_call_def)
  show ?thesis
    unfolding eth_law_def
    by (intro conjI allI conf)
      (auto simp: sim_eth_def sim_call_effect sim_call_rss_effect sim_query_groups)
qed

subsection \<open>A build\<close>

lemma builder_starts:
  assumes "eth_law f V" and "p = b_port_id b" and "rc = b_rx_queue_conf b" and "tc = b_tx_queue_conf b"
  shows "\<exists>r w'. EthDevBuilder_build f b mp w = Done (r, w') \<and> (\<forall>p'. p' \<noteq> p \<longrightarrow> V w' p' = V w p') \<and>
    (case r of
       Inr d \<Rightarrow> d = EthDev p \<and> pv_started (V w' p)
         \<and> pv_configured (V w' p) = Some (b_nb_rx_queues b, b_nb_tx_queues b, fst (EthConf_to_raw (b_eth_conf b)))
         \<and> (\<forall>i < b_nb_rx_queues b. pv_rxq (V w' p) i =
               Some (qc_nb_desc rc, queue_socket (pv_socket (V w p)) rc, qc_conf rc, mem_pool_inner mp))
         \<and> (\<forall>i < b_nb_tx_queues b. pv_txq (V w' p) i = Some (qc_nb_desc tc, queue_socket (pv_socket (V w p)) tc, qc_conf tc))
         \<and> (b_promiscuous b \<longrightarrow> pv_promisc (V w' p))
     | Inl e \<Rightarrow> pv_started (V w' p) = pv_started (V w p))"
proof -
  obtain r1 w1 where q: "and_then (EthDev_configure f (EthDev p) (b_nb_rx_queues b) (b_nb_tx_queues b) (b_eth_conf b) w) (\<lambda>w.
      and_then (rx_setup_loop f (EthDev p) mp rc [0..<unat (b_nb_rx_queues b)] w)
        (tx_setup_loop f (EthDev p) tc [0..<unat (b_nb_tx_queues b)])) = (r1, w1)" by fastforce
  note st = build_stages [OF assms(1) q]
  show ?thesis
  proof (cases r1)
    case (Inl e)
    with st q show ?thesis by (simp add: EthDevBuilder_build_def EthDev_new_def assms(2-4) port_only_def)
  next
    case (Inr u)
    obtain w2 where b2: "build_rss f b (EthDev p) w1 = Done w2" and o2: "rss_only V p w1 w2"
      using build_rss_spec [OF assms(1)] by blast
    let ?pr = "if b_promiscuous b then EthDev_promiscuous_enable f (EthDev p) w2 else (Inr (), w2)"
    obtain r3 w3 where pr: "?pr = (r3, w3)" by fastforce
    obtain r4 w4 where s4: "EthDev_start f (EthDev p) w3 = (r4, w4)" by fastforce
    have b: "EthDevBuilder_build f b mp w =
        Done (case r3 of Inl e \<Rightarrow> (Inl e, w3) | Inr _ \<Rightarrow> (case r4 of Inl e \<Rightarrow> (Inl e, w4) | Inr _ \<Rightarrow> (Inr (EthDev p), w4)))"
      unfolding EthDevBuilder_build_def Let_def EthDev_new_def assms(2-4) [symmetric] q Inr prod.case sum.case b2
        outcome_bind.simps pr
      using s4 by (cases r3; cases r4) (simp_all add: and_then_def)
    have v3: "case r3 of Inr _ \<Rightarrow> V w3 = (V w2)(p := (V w2 p)\<lparr>pv_promisc := b_promiscuous b \<or> pv_promisc (V w2 p)\<rparr>)
        | Inl e \<Rightarrow> port_only V p w2 w3"
      using pr effect_ok [OF eth_lawD(7) [OF assms(1)], of f p w2] effect_err [OF eth_lawD(7) [OF assms(1)], of f p w2]
      by (cases "b_promiscuous b") (auto simp: EthDev_promiscuous_enable_def fun_eq_iff split: sum.splits)
    have v4: "case r4 of Inr _ \<Rightarrow> V w4 = (V w3)(p := (V w3 p)\<lparr>pv_started := True\<rparr>) | Inl e \<Rightarrow> port_only V p w3 w4"
      using s4 effect_ok [OF eth_lawD(6) [OF assms(1)], of f p w3] effect_err [OF eth_lawD(6) [OF assms(1)], of f p w3]
      by (cases r4) (auto simp: EthDev_start_def)
    from o2 obtain t h where v2: "V w2 = (V w1)(p := (V w1 p)\<lparr>pv_reta := t, pv_rss := h\<rparr>)" by (auto simp: rss_only_def)
    show ?thesis
      unfolding b using st [unfolded Inr] v2 v3 v4
      by (cases r3; cases r4) (simp_all add: port_only_def)
  qed
qed

subsection \<open>Properties\<close>

text \<open>
  C15. A build that returns a device has configured exactly the port asked for, set up all its receive and
  transmit queues with the given descriptors, the given memory pool and the socket of the configuration
  (that of the device when it is negative), switched promiscuous mode on if it was asked for, and started
  the port; no other port is touched. A build that fails has not started the port. No build panics.
\<close>

theorem build_starts_device:
  assumes "eth_law f V" and "p = b_port_id b" and "rc = b_rx_queue_conf b" and "tc = b_tx_queue_conf b"
  shows "\<exists>r w'. EthDevBuilder_build f b mp w = Done (r, w') \<and> (\<forall>p'. p' \<noteq> p \<longrightarrow> V w' p' = V w p') \<and>
    (case r of
       Inr d \<Rightarrow> d = EthDev p \<and> pv_started (V w' p)
         \<and> pv_configured (V w' p) = Some (b_nb_rx_queues b, b_nb_tx_queues b, fst (EthConf_to_raw (b_eth_conf b)))
         \<and> (\<forall>i < b_nb_rx_queues b. pv_rxq (V w' p) i =
               Some (qc_nb_desc rc, queue_socket (pv_socket (V w p)) rc, qc_conf rc, mem_pool_inner mp))
         \<and> (\<forall>i < b_nb_tx_queues b. pv_txq (V w' p) i = Some (qc_nb_desc tc, queue_socket (pv_socket (V w p)) tc, qc_conf tc))
         \<and> (b_promiscuous b \<longrightarrow> pv_promisc (V w' p))
     | Inl e \<Rightarrow> pv_started (V w' p) = pv_started (V w p))"
  by (rule builder_starts [OF assms])

definition sim_port0 :: sim_ports where
  "sim_port0 p = \<lparr>pv_socket = 1, pv_configured = None, pv_rxq = (\<lambda>_. None), pv_txq = (\<lambda>_. None),
     pv_reta = [7, 7, 7, 7, 7], pv_rss = None, pv_promisc = False, pv_started = False\<rparr>"

definition sim_builder :: "(unit, unit) eth_dev_builder" where
  "sim_builder = EthDevBuilder_promiscuous (EthDevBuilder_nb_rx_queues (EthDevBuilder_new 0) 2)"

lemma sim_checked: "checked sim_eth (sim_call 0 upd w) = (Inr (), w(0 := upd (w 0)))"
  by (simp add: checked_def sim_call_def check_rte_success_def)

lemma sim_eth_calls:
  "rte_eth_dev_configure sim_eth p nrx ntx c = sim_call p (\<lambda>v. v\<lparr>pv_configured := Some (nrx, ntx, c)\<rparr>)"
  "rte_eth_rx_queue_setup sim_eth p q n s rc m = sim_call p (\<lambda>v. v\<lparr>pv_rxq := (pv_rxq v)(q \<mapsto> (n, s, rc, m))\<rparr>)"
  "rte_eth_tx_queue_setup sim_eth p q n s tc = sim_call p (\<lambda>v. v\<lparr>pv_txq := (pv_txq v)(q \<mapsto> (n, s, tc))\<rparr>)"
  "rte_eth_dev_start sim_eth p = sim_call p (\<lambda>v. v\<lparr>pv_started := True\<rparr>)"
  "rte_eth_promiscuous_enable sim_eth p = sim_call p (\<lambda>v. v\<lparr>pv_promisc := True\<rparr>)"
  "rte_eth_dev_rss_reta_update sim_eth p conf k = sim_call p (\<lambda>v. v\<lparr>pv_reta := apply_reta conf (pv_reta v)\<rparr>)"
  by (simp_all add: sim_eth_def)

lemma sim_rx_loop: "fst (rx_setup_loop sim_eth (EthDev 0) mp c qs w) = Inr ()"
  by (induction qs arbitrary: w)
    (simp_all add: EthDev_rx_queue_setup_def Let_def sim_eth_calls sim_checked and_then_def)

lemma sim_tx_loop: "fst (tx_setup_loop sim_eth (EthDev 0) c qs w) = Inr ()"
  by (induction qs arbitrary: w)
    (simp_all add: EthDev_tx_queue_setup_def Let_def sim_eth_calls sim_checked and_then_def)

lemma sim_build_ok:
  assumes "b_port_id b = 0"
  shows "\<exists>d w'. EthDevBuilder_build sim_eth b mp w = Done (Inr d, w')"
proof -
  obtain w1 where c: "EthDev_configure sim_eth (EthDev 0) (b_nb_rx_queues b) (b_nb_tx_queues b) (b_eth_conf b) w = (Inr (), w1)"
    by (cases "EthConf_to_raw (b_eth_conf b)") (auto simp: EthDev_configure_def sim_eth_calls sim_checked)
  obtain w2 where r: "rx_setup_loop sim_eth (EthDev 0) mp (b_rx_queue_conf b) [0..<unat (b_nb_rx_queues b)] w1 = (Inr (), w2)"
    using sim_rx_loop by (metis eq_fst_iff)
  obtain w3 where t: "tx_setup_loop sim_eth (EthDev 0) (b_tx_queue_conf b) [0..<unat (b_nb_tx_queues b)] w2 = (Inr (), w3)"
    using sim_tx_loop by (metis eq_fst_iff)
  obtain w4 where "build_rss sim_eth b (EthDev 0) w3 = Done w4" using build_rss_spec [OF sim_eth_law] by blast
  with c r t assms show ?thesis
    by (simp add: EthDevBuilder_build_def EthDev_new_def and_then_def EthDev_promiscuous_enable_def EthDev_start_def
      sim_eth_calls sim_checked Let_def)
qed

theorem build_starts_device_witness:
  "\<exists>w'. EthDevBuilder_build sim_eth sim_builder (MemPool 9) sim_port0 = Done (Inr (EthDev 0), w')
    \<and> pv_started (w' 0) \<and> pv_promisc (w' 0) \<and> pv_rxq (w' 0) 1 = Some (1024, 1, None, 9) \<and> w' 5 = sim_port0 5"
proof -
  let ?b = sim_builder
  have f: "b_port_id ?b = 0" "b_nb_rx_queues ?b = 2" "b_promiscuous ?b"
    "b_rx_queue_conf ?b = \<lparr>qc_nb_desc = 1024, qc_socket_id = - 1, qc_conf = None\<rparr>"
    by (simp_all add: sim_builder_def EthDevBuilder_promiscuous_def EthDevBuilder_nb_rx_queues_def EthDevBuilder_new_def
      RxQueueConf_default_def)
  obtain d w' where b: "EthDevBuilder_build sim_eth ?b (MemPool 9) sim_port0 = Done (Inr d, w')"
    using sim_build_ok [OF f(1)] by blast
  have "(1 :: u16) < 2" by simp
  with build_starts_device [OF sim_eth_law refl refl refl, of ?b "MemPool 9" sim_port0] b f
  show ?thesis by (simp add: sim_port0_def)
qed

lemma count_list_map_eq: "(\<And>x. f x = y \<longleftrightarrow> g x = z) \<Longrightarrow> count_list (map f xs) y = count_list (map g xs) z"
  by (induction xs) simp_all

text \<open>
  C31. The redirection table spreads the traffic evenly. After \<open>configure_rss_reta\<close> has succeeded for \<open>n\<close>
  queues, \<open>query_rss_reta\<close> reads back a table of the size of the hardware table whose entry \<open>i\<close> is queue
  \<open>i mod n\<close>; so every queue below \<open>n\<close> has the same number of entries up to one, and no entry names a
  queue that does not exist.
\<close>

theorem reta_round_trip:
  assumes "eth_law f V" and "n \<noteq> 0" and "EthDev_configure_rss_reta f (EthDev p) n w = Done (Inr (), w1)"
    and "EthDev_query_rss_reta f (EthDev p) w1 = Inr t"
  shows "length t = length (pv_reta (V w p)) \<and> t = round_robin n (length t) \<and> (\<forall>q \<in> set t. q < n)
    \<and> (\<forall>q < n. count_list t q \<in> {length t div unat n, length t div unat n + 1})"
proof -
  have "V w1 = (V w)(p := (V w p)\<lparr>pv_reta := round_robin n (length (pv_reta (V w p)))\<rparr>)"
    using configure_rss_reta_spec [OF assms(1,2), of p w] assms(3) by auto
  with query_rss_reta_spec [OF assms(1,4)] have t: "t = round_robin n (length (pv_reta (V w p)))" by simp
  have n: "0 < unat n" using assms(2) by (simp add: unat_gt_0)
  have lt: "of_nat (i mod unat n) < n" for i
  proof -
    have "i mod unat n < unat n" using n by simp
    moreover from this have "i mod unat n < 65536" using unat_u16_bound [of n] by (rule less_trans)
    ultimately show ?thesis by (simp add: word_less_nat_alt)
  qed
  have cnt: "count_list t q = length t div unat n + (if unat q < length t mod unat n then 1 else 0)" if "q < n" for q
  proof -
    have q: "unat q < unat n" using that by (simp add: word_less_nat_alt)
    have inj: "of_nat (i mod unat n) = q \<longleftrightarrow> i mod unat n = unat q" for i
    proof -
      have "i mod unat n < 65536" using mod_less_divisor [OF n] unat_u16_bound [of n] by (rule less_trans)
      then have "unat (of_nat (i mod unat n) :: u16) = i mod unat n" by simp
      then show ?thesis by (auto simp del: unat_of_nat_u16)
    qed
    have "count_list t q = count_list (map (\<lambda>i. i mod unat n) [0..<length t]) (unat q)"
      unfolding t round_robin_def length_map length_upt by (simp add: count_list_map_eq [OF inj])
    with count_round_robin [OF q] show ?thesis by simp
  qed
  show ?thesis
    using lt cnt by (auto simp: t round_robin_def)
qed

lemma sim_info: "length (pv_reta (w 0)) < 65536 \<Longrightarrow> EthDev_info sim_eth (EthDev 0) w = Inr (of_nat (length (pv_reta (w 0))))"
  by (simp add: EthDev_info_def filled_def check_rte_success_def sim_eth_def)

lemma sim_configure_reta:
  assumes "length (pv_reta (w 0)) < 65536" and "n \<noteq> 0"
  shows "\<exists>w1. EthDev_configure_rss_reta sim_eth (EthDev 0) n w = Done (Inr (), w1)"
proof -
  have "info_reta_size sim_eth = id" by (simp add: sim_eth_def)
  then show ?thesis
    using sim_info [of w, OF assms(1)] assms(2) by (simp add: EthDev_configure_rss_reta_def Let_def sim_eth_calls sim_checked)
qed

lemma sim_query_reta:
  assumes "length (pv_reta (w 0)) < 65536"
  shows "EthDev_query_rss_reta sim_eth (EthDev 0) w = Inr (pv_reta (w 0))"
proof -
  have q: "info_reta_size sim_eth = id" "rte_eth_dev_rss_reta_query sim_eth p conf k w = (0, sim_query (pv_reta (w p)))" for p conf k
    by (simp_all add: sim_eth_def)
  have u: "unat (of_nat (length (pv_reta (w 0))) :: u16) = length (pv_reta (w 0))" using assms by simp
  have z: "pv_reta (w 0) = []" if "(of_nat (length (pv_reta (w 0))) :: u16) = 0"
    using u that by simp
  show ?thesis
    unfolding EthDev_query_rss_reta_def sim_info [of w, OF assms] sum.case q id_apply Let_def
    by (auto simp: u filled_def check_rte_success_def collect_reta_eq [OF sim_query_groups] dest: z)
qed

theorem reta_round_trip_witness:
  "\<exists>w1 t. EthDev_configure_rss_reta sim_eth (EthDev 0) 2 sim_port0 = Done (Inr (), w1)
    \<and> EthDev_query_rss_reta sim_eth (EthDev 0) w1 = Inr t \<and> t = [0, 1, 0, 1, 0]"
proof -
  have l: "length (pv_reta (sim_port0 0)) = 5" by (simp add: sim_port0_def)
  obtain w1 where c: "EthDev_configure_rss_reta sim_eth (EthDev 0) 2 sim_port0 = Done (Inr (), w1)"
    using sim_configure_reta [of sim_port0 2] l by auto
  have "length (pv_reta (w1 0)) = 5"
    using configure_rss_reta_spec [OF sim_eth_law, of 2 0 sim_port0] c l by auto
  then have q: "EthDev_query_rss_reta sim_eth (EthDev 0) w1 = Inr (pv_reta (w1 0))"
    by (simp add: sim_query_reta)
  have "(2 :: u16) \<noteq> 0" by simp
  note rt = reta_round_trip [OF sim_eth_law this c q]
  from rt [THEN conjunct1] rt [THEN conjunct2, THEN conjunct1] have "pv_reta (w1 0) = round_robin 2 5" using l by metis
  moreover have "round_robin 2 5 = [0, 1, 0, 1, 0]" by (simp add: round_robin_def upt_rec)
  ultimately show ?thesis using c q by simp
qed

lemma hex_digit_inj: "a < 16 \<Longrightarrow> b < 16 \<Longrightarrow> hex_digit a = hex_digit b \<longleftrightarrow> a = b"
  unfolding hex_digit_def by (subst nth_eq_iff_index_eq) simp_all

lemma hex02_inj: "hex02 x = hex02 y \<longleftrightarrow> x = y"
proof
  assume h: "hex02 x = hex02 y"
  have b: "unat z div 16 < 16" "unat z mod 16 < 16" for z :: u8
    using unsigned_less [of z, where 'a = nat] by (simp_all add: less_mult_imp_div_less)
  from h have "unat x div 16 = unat y div 16" "unat x mod 16 = unat y mod 16"
    by (simp_all add: hex02_def hex_digit_inj b)
  then have "unat x = unat y" by (metis div_mult_mod_eq)
  then show "x = y" by (simp add: word_unat_eq_iff)
qed simp

text \<open>
  A printed hardware address names exactly one address: two addresses print the same only when they are
  equal, and the text always has the 17 characters of six two-digit groups.
\<close>

theorem format_mac_addr_inj:
  "length (format_mac_addr a) = 17 \<and> (format_mac_addr a = format_mac_addr b \<longleftrightarrow> a = b)"
proof (cases a; cases b)
  have l: "length (hex02 x) = 2" for x by (simp add: hex02_def)
  fix a1 a2 a3 a4 a5 a6 b1 b2 b3 b4 b5 b6
  assume "a = EtherAddr a1 a2 a3 a4 a5 a6" "b = EtherAddr b1 b2 b3 b4 b5 b6"
  then show ?thesis by (simp add: l hex02_inj)
qed

end
