(* ===== verification/Eal_Env.thy ===== *)
theory Eal_Env
  imports Api_Error
begin

section \<open>The environment layer (api/rte/eal.rs, api/rte/thread.rs)\<close>

text \<open>
  The typed options of EAL and their command line, the guard \<open>Eal\<close> with the process-wide flag
  \<open>EAL_INITIALIZED\<close>, and the registration of threads. The flag is an atomic that any thread may reach, so
  \<open>Eal::init\<close> and the drop of the guard are also given as steps of many threads.
\<close>

datatype process_type = Primary | Secondary | Auto

primrec ProcessType_as_str :: "process_type \<Rightarrow> string" where
  "ProcessType_as_str Primary = ''primary''"
| "ProcessType_as_str Secondary = ''secondary''"
| "ProcessType_as_str Auto = ''auto''"

datatype log_level = Emergency | Alert | Critical | Error | Warning | Notice | Info | Debug | Level u8

primrec LogLevel_as_str :: "log_level \<Rightarrow> string" where
  "LogLevel_as_str Emergency = ''1''"
| "LogLevel_as_str Alert = ''2''"
| "LogLevel_as_str Critical = ''3''"
| "LogLevel_as_str Error = ''4''"
| "LogLevel_as_str Warning = ''5''"
| "LogLevel_as_str Notice = ''6''"
| "LogLevel_as_str Info = ''7''"
| "LogLevel_as_str Debug = ''8''"
| "LogLevel_as_str (Level n) = show_nat (unat n)"

datatype eal_option = ProgramName string | NoHuge | NoPci | Vdev string | CoreMask string | CoreList string
  | MemoryChannels u32 | ProcessType process_type | FilePrefix string | SocketMem string | LogLevel log_level
  | InMemory | BaseVirtAddr string | Allow string | Custom string

primrec EalOption_to_args :: "eal_option \<Rightarrow> string list" where
  "EalOption_to_args (ProgramName name) = [name]"
| "EalOption_to_args NoHuge = [''--no-huge'']"
| "EalOption_to_args NoPci = [''--no-pci'']"
| "EalOption_to_args (Vdev dev) = [''--vdev='' @ dev]"
| "EalOption_to_args (CoreMask m) = [''-c'', m]"
| "EalOption_to_args (CoreList list) = [''-l'', list]"
| "EalOption_to_args (MemoryChannels n) = [''-n'', show_nat (unat n)]"
| "EalOption_to_args (ProcessType pt) = [''--proc-type='' @ ProcessType_as_str pt]"
| "EalOption_to_args (FilePrefix prefix) = [''--file-prefix='' @ prefix]"
| "EalOption_to_args (SocketMem mem) = [''--socket-mem='' @ mem]"
| "EalOption_to_args (LogLevel level) = [''--log-level='' @ LogLevel_as_str level]"
| "EalOption_to_args InMemory = [''--in-memory'']"
| "EalOption_to_args (BaseVirtAddr addr) = [''--base-virtaddr='' @ addr]"
| "EalOption_to_args (Allow pci_addr) = [''-a'', pci_addr]"
| "EalOption_to_args (Custom arg) = [arg]"

record eal_builder =
  program_name :: "string option"
  options :: "eal_option list"

definition EalBuilder_new :: eal_builder where
  "EalBuilder_new = \<lparr>program_name = None, options = []\<rparr>"

definition EalBuilder_program_name :: "eal_builder \<Rightarrow> string \<Rightarrow> eal_builder" where
  "EalBuilder_program_name b name = b\<lparr>program_name := Some name\<rparr>"

definition EalBuilder_option :: "eal_builder \<Rightarrow> eal_option \<Rightarrow> eal_builder" where
  "EalBuilder_option b opt = b\<lparr>options := options b @ [opt]\<rparr>"

definition EalBuilder_no_huge :: "eal_builder \<Rightarrow> eal_builder" where
  "EalBuilder_no_huge b = b\<lparr>options := options b @ [NoHuge]\<rparr>"

definition EalBuilder_no_pci :: "eal_builder \<Rightarrow> eal_builder" where
  "EalBuilder_no_pci b = b\<lparr>options := options b @ [NoPci]\<rparr>"

definition EalBuilder_vdev :: "eal_builder \<Rightarrow> string \<Rightarrow> eal_builder" where
  "EalBuilder_vdev b device = b\<lparr>options := options b @ [Vdev device]\<rparr>"

definition EalBuilder_core_mask :: "eal_builder \<Rightarrow> string \<Rightarrow> eal_builder" where
  "EalBuilder_core_mask b m = b\<lparr>options := options b @ [CoreMask m]\<rparr>"

definition EalBuilder_core_list :: "eal_builder \<Rightarrow> string \<Rightarrow> eal_builder" where
  "EalBuilder_core_list b list = b\<lparr>options := options b @ [CoreList list]\<rparr>"

definition EalBuilder_memory_channels :: "eal_builder \<Rightarrow> u32 \<Rightarrow> eal_builder" where
  "EalBuilder_memory_channels b n = b\<lparr>options := options b @ [MemoryChannels n]\<rparr>"

definition EalBuilder_process_type :: "eal_builder \<Rightarrow> process_type \<Rightarrow> eal_builder" where
  "EalBuilder_process_type b pt = b\<lparr>options := options b @ [ProcessType pt]\<rparr>"

definition EalBuilder_file_prefix :: "eal_builder \<Rightarrow> string \<Rightarrow> eal_builder" where
  "EalBuilder_file_prefix b prefix = b\<lparr>options := options b @ [FilePrefix prefix]\<rparr>"

definition EalBuilder_socket_mem :: "eal_builder \<Rightarrow> string \<Rightarrow> eal_builder" where
  "EalBuilder_socket_mem b mem = b\<lparr>options := options b @ [SocketMem mem]\<rparr>"

definition EalBuilder_log_level :: "eal_builder \<Rightarrow> log_level \<Rightarrow> eal_builder" where
  "EalBuilder_log_level b level = b\<lparr>options := options b @ [LogLevel level]\<rparr>"

definition EalBuilder_in_memory :: "eal_builder \<Rightarrow> eal_builder" where
  "EalBuilder_in_memory b = b\<lparr>options := options b @ [InMemory]\<rparr>"

definition EalBuilder_allow :: "eal_builder \<Rightarrow> string \<Rightarrow> eal_builder" where
  "EalBuilder_allow b pci_addr = b\<lparr>options := options b @ [Allow pci_addr]\<rparr>"

definition EalBuilder_arg :: "eal_builder \<Rightarrow> string \<Rightarrow> eal_builder" where
  "EalBuilder_arg b arg = b\<lparr>options := options b @ [Custom arg]\<rparr>"

text \<open>\<open>env_args\<close> are the arguments of the process.\<close>

definition EalBuilder_build_args :: "string list \<Rightarrow> eal_builder \<Rightarrow> string list" where
  "EalBuilder_build_args env_args b =
     (let name = (case program_name b of
            Some n \<Rightarrow> n
          | None \<Rightarrow> (case env_args of [] \<Rightarrow> ''dpdk-app'' | a # _ \<Rightarrow> a))
      in [name] @ concat (map EalOption_to_args (options b)))"

record 'w eal_ffi = "'w err_ffi" +
  rte_eal_init :: "i32 \<Rightarrow> string list \<Rightarrow> 'w \<Rightarrow> i32 \<times> 'w"
  rte_eal_cleanup :: "'w \<Rightarrow> i32 \<times> 'w"
  rte_thread_register :: "'w \<Rightarrow> i32 \<times> 'w"
  rte_thread_unregister :: "'w \<Rightarrow> 'w"

definition has_nul :: "string \<Rightarrow> bool" where
  "has_nul s = (CHR 0x00 \<in> set s)"

text \<open>
  The state is the flag with the world. \<open>expect\<close> on an argument with a NUL byte panics after the flag has
  been set; the result and the state are returned separately so that the state after a panic is visible.
\<close>

definition Eal_init ::
  "('w, 'z) eal_ffi_scheme \<Rightarrow> string list \<Rightarrow> bool \<times> 'w \<Rightarrow> (errno + unit) outcome \<times> bool \<times> 'w" where
  "Eal_init f args st =
     (case st of (initialized, w) \<Rightarrow>
        if initialized then (Done (Inl EALREADY), True, w)
        else if \<exists>s \<in> set args. has_nul s then (Panic ''argument contains null byte'', True, w)
        else (case rte_eal_init f (of_nat (length args)) args w of
                (ret, w) \<Rightarrow> if sint ret < 0 then (Done (Inl (rte_errno f w)), False, w) else (Done (Inr ()), True, w)))"

definition EalBuilder_init ::
  "('w, 'z) eal_ffi_scheme \<Rightarrow> string list \<Rightarrow> eal_builder \<Rightarrow> bool \<times> 'w \<Rightarrow> (errno + unit) outcome \<times> bool \<times> 'w" where
  "EalBuilder_init f env_args b st = Eal_init f (EalBuilder_build_args env_args b) st"

definition Eal_is_initialized :: "bool \<times> 'w \<Rightarrow> bool" where
  "Eal_is_initialized st = fst st"

definition Eal_drop :: "('w, 'z) eal_ffi_scheme \<Rightarrow> bool \<times> 'w \<Rightarrow> bool \<times> 'w" where
  "Eal_drop f st = (case st of (initialized, w) \<Rightarrow> (False, snd (rte_eal_cleanup f w)))"

text \<open>The two functions without a guard, which do not look at the flag.\<close>

definition eal_init :: "('w, 'z) eal_ffi_scheme \<Rightarrow> string list \<Rightarrow> 'w \<Rightarrow> ((errno + unit) \<times> 'w) outcome" where
  "eal_init f args w =
     (if \<exists>s \<in> set args. has_nul s then Panic ''argument contains null byte''
      else (case rte_eal_init f (of_nat (length args)) args w of (ret, w) \<Rightarrow> Done (check_rte_success f ret w, w)))"

definition eal_cleanup :: "('w, 'z) eal_ffi_scheme \<Rightarrow> 'w \<Rightarrow> (errno + unit) \<times> 'w" where
  "eal_cleanup f w = (case rte_eal_cleanup f w of (ret, w) \<Rightarrow> (check_rte_success f ret w, w))"

subsection \<open>Threads\<close>

text \<open>\<open>CpuSet::set\<close> and \<open>sched_setaffinity\<close> are the \<open>nix\<close> crate's; the latter is called on the current thread.\<close>

definition set_cpu_affinity ::
  "'c \<Rightarrow> (nat \<Rightarrow> 'c \<Rightarrow> errno + 'c) \<Rightarrow> (nat \<Rightarrow> 'c \<Rightarrow> 'w \<Rightarrow> (errno + unit) \<times> 'w) \<Rightarrow> nat \<Rightarrow> 'w \<Rightarrow> (errno + unit) \<times> 'w" where
  "set_cpu_affinity cpu_set_new cpu_set_set sched_setaffinity cpu_id w =
     (case cpu_set_set cpu_id cpu_set_new of
        Inl e \<Rightarrow> (Inl e, w)
      | Inr cpu_set \<Rightarrow> sched_setaffinity 0 cpu_set w)"

definition ThreadRegistration_new :: "('w, 'z) eal_ffi_scheme \<Rightarrow> 'w \<Rightarrow> (errno + unit) \<times> 'w" where
  "ThreadRegistration_new f w = (case rte_thread_register f w of (ret, w) \<Rightarrow> (check_rte_success f ret w, w))"

definition ThreadRegistration_try_new :: "('w, 'z) eal_ffi_scheme \<Rightarrow> 'w \<Rightarrow> unit option \<times> 'w" where
  "ThreadRegistration_try_new f w = (case rte_thread_register f w of (ret, w) \<Rightarrow> (if ret = 0 then Some () else None, w))"

definition ThreadRegistration_drop :: "('w, 'z) eal_ffi_scheme \<Rightarrow> 'w \<Rightarrow> 'w" where
  "ThreadRegistration_drop f w = rte_thread_unregister f w"

subsection \<open>Initialisation by many threads\<close>

text \<open>
  One step is one atomic access of the flag or one call of DPDK. \<open>Died\<close> is a thread that panicked between
  taking the flag and calling DPDK. The log keeps the calls in order.
\<close>

datatype eal_pc = Idle | Entered "string list" | Failed | Holding | Cleaned | Died

datatype eal_call = Called_init bool | Called_cleanup

record 'w eal_sys =
  e_flag :: bool
  e_world :: 'w
  e_pc :: "nat \<Rightarrow> eal_pc"
  e_log :: "eal_call list"

inductive eal_step :: "('w, 'z) eal_ffi_scheme \<Rightarrow> 'w eal_sys \<Rightarrow> 'w eal_sys \<Rightarrow> bool" for f where
  swap_taken: "e_pc s i = Idle \<Longrightarrow> e_flag s \<Longrightarrow> eal_step f s s"
| swap_won: "e_pc s i = Idle \<Longrightarrow> \<not> e_flag s \<Longrightarrow> eal_step f s (s\<lparr>e_flag := True, e_pc := (e_pc s)(i := Entered args)\<rparr>)"
| panics: "e_pc s i = Entered args \<Longrightarrow> \<exists>a \<in> set args. has_nul a \<Longrightarrow> eal_step f s (s\<lparr>e_pc := (e_pc s)(i := Died)\<rparr>)"
| init_fails: "e_pc s i = Entered args \<Longrightarrow> \<not> (\<exists>a \<in> set args. has_nul a) \<Longrightarrow>
    rte_eal_init f (of_nat (length args)) args (e_world s) = (ret, w) \<Longrightarrow> sint ret < 0 \<Longrightarrow>
    eal_step f s (s\<lparr>e_world := w, e_pc := (e_pc s)(i := Failed), e_log := e_log s @ [Called_init False]\<rparr>)"
| init_works: "e_pc s i = Entered args \<Longrightarrow> \<not> (\<exists>a \<in> set args. has_nul a) \<Longrightarrow>
    rte_eal_init f (of_nat (length args)) args (e_world s) = (ret, w) \<Longrightarrow> \<not> sint ret < 0 \<Longrightarrow>
    eal_step f s (s\<lparr>e_world := w, e_pc := (e_pc s)(i := Holding), e_log := e_log s @ [Called_init True]\<rparr>)"
| reset: "e_pc s i = Failed \<Longrightarrow> eal_step f s (s\<lparr>e_flag := False, e_pc := (e_pc s)(i := Idle)\<rparr>)"
| cleans: "e_pc s i = Holding \<Longrightarrow>
    eal_step f s (s\<lparr>e_world := snd (rte_eal_cleanup f (e_world s)), e_pc := (e_pc s)(i := Cleaned),
      e_log := e_log s @ [Called_cleanup]\<rparr>)"
| released: "e_pc s i = Cleaned \<Longrightarrow> eal_step f s (s\<lparr>e_flag := False, e_pc := (e_pc s)(i := Idle)\<rparr>)"

definition eal_start :: "'w \<Rightarrow> 'w eal_sys" where
  "eal_start w = \<lparr>e_flag = False, e_world = w, e_pc = (\<lambda>_. Idle), e_log = []\<rparr>"

text \<open>
  What EAL asks of its caller: no initialisation while it is initialised, no cleanup while it is not. The
  result is whether EAL is initialised after the calls, \<open>None\<close> when the order was broken.
\<close>

fun run_calls :: "bool \<Rightarrow> eal_call list \<Rightarrow> bool option" where
  "run_calls b [] = Some b"
| "run_calls b (Called_init ok # cs) = (if b then None else run_calls ok cs)"
| "run_calls b (Called_cleanup # cs) = (if b then run_calls False cs else None)"

lemma run_calls_append: "run_calls b (xs @ ys) = (case run_calls b xs of None \<Rightarrow> None | Some b' \<Rightarrow> run_calls b' ys)"
  by (induction b xs rule: run_calls.induct) auto

text \<open>At most one thread is between taking the flag and giving it back, and the flag says whether one is.\<close>

definition eal_inv :: "'w eal_sys \<Rightarrow> bool" where
  "eal_inv s \<longleftrightarrow>
     (if e_flag s then \<exists>i. e_pc s i \<noteq> Idle \<and> (\<forall>j. j \<noteq> i \<longrightarrow> e_pc s j = Idle) \<and> run_calls False (e_log s) = Some (e_pc s i = Holding)
      else (\<forall>j. e_pc s j = Idle) \<and> run_calls False (e_log s) = Some False)"

lemma eal_inv_in:
  assumes "eal_inv s" and "e_pc s i \<noteq> Idle"
  shows "e_flag s \<and> (\<forall>j. j \<noteq> i \<longrightarrow> e_pc s j = Idle) \<and> run_calls False (e_log s) = Some (e_pc s i = Holding)"
proof -
  from assms have flag: "e_flag s" by (auto simp: eal_inv_def split: if_splits)
  with assms(1) obtain k where k: "\<forall>j. j \<noteq> k \<longrightarrow> e_pc s j = Idle" "run_calls False (e_log s) = Some (e_pc s k = Holding)"
    by (auto simp: eal_inv_def)
  with assms(2) have "k = i" by auto
  with flag k show ?thesis by simp
qed

lemma eal_inv_at: "e_flag s \<Longrightarrow> e_pc s i \<noteq> Idle \<Longrightarrow> \<forall>j. j \<noteq> i \<longrightarrow> e_pc s j = Idle \<Longrightarrow>
  run_calls False (e_log s) = Some (e_pc s i = Holding) \<Longrightarrow> eal_inv s"
  unfolding eal_inv_def by auto

lemma eal_inv_idle: "\<not> e_flag s \<Longrightarrow> \<forall>j. e_pc s j = Idle \<Longrightarrow> run_calls False (e_log s) = Some False \<Longrightarrow> eal_inv s"
  unfolding eal_inv_def by simp

lemma eal_give_back:
  assumes "eal_inv s" and "e_pc s i \<noteq> Idle" and "e_pc s i \<noteq> Holding"
  shows "eal_inv (s\<lparr>e_flag := False, e_pc := (e_pc s)(i := Idle)\<rparr>)"
proof (rule eal_inv_idle)
  note inv = eal_inv_in [OF assms(1,2)]
  show "\<forall>j. e_pc (s\<lparr>e_flag := False, e_pc := (e_pc s)(i := Idle)\<rparr>) j = Idle" using inv by auto
  show "run_calls False (e_log (s\<lparr>e_flag := False, e_pc := (e_pc s)(i := Idle)\<rparr>)) = Some False" using inv assms(3) by simp
qed simp

lemma eal_step_inv: "eal_step f s s' \<Longrightarrow> eal_inv s \<Longrightarrow> eal_inv s'"
proof (induction rule: eal_step.induct)
  case (swap_won s i args)
  then show ?case by (intro eal_inv_at [where i = i]) (simp_all add: eal_inv_def)
next
  case (panics s i args)
  with eal_inv_in [of s i] show ?case by (intro eal_inv_at [where i = i]) simp_all
next
  case (init_fails s i args ret w)
  with eal_inv_in [of s i] show ?case by (intro eal_inv_at [where i = i]) (simp_all add: run_calls_append)
next
  case (init_works s i args ret w)
  with eal_inv_in [of s i] show ?case by (intro eal_inv_at [where i = i]) (simp_all add: run_calls_append)
next
  case (reset s i)
  then show ?case by (intro eal_give_back) simp_all
next
  case (cleans s i)
  with eal_inv_in [of s i] show ?case by (intro eal_inv_at [where i = i]) (simp_all add: run_calls_append)
next
  case (released s i)
  then show ?case by (intro eal_give_back) simp_all
qed

lemma eal_start_inv: "eal_inv (eal_start w)"
  by (simp add: eal_start_def eal_inv_def)

lemma eal_reachable_inv: "(eal_step f)\<^sup>*\<^sup>* (eal_start w) s \<Longrightarrow> eal_inv s"
  by (induction rule: rtranclp_induct) (rule eal_start_inv, rule eal_step_inv)

text \<open>
  C14. The guard is exclusive. Whatever threads initialise EAL and drop their guards, in any interleaving of
  the accesses of \<open>EAL_INITIALIZED\<close>, at most one thread is between taking the flag and giving it back, the
  flag is set exactly then, and the calls reach DPDK in the order it asks for: no \<open>rte_eal_init\<close> while EAL is
  initialised and no \<open>rte_eal_cleanup\<close> while it is not.
\<close>

theorem eal_guard_exclusive:
  assumes "(eal_step f)\<^sup>*\<^sup>* (eal_start w) s"
  shows "(\<forall>i j. e_pc s i \<noteq> Idle \<longrightarrow> e_pc s j \<noteq> Idle \<longrightarrow> i = j) \<and> (e_flag s \<longleftrightarrow> (\<exists>i. e_pc s i \<noteq> Idle))
    \<and> run_calls False (e_log s) = Some (\<exists>i. e_pc s i = Holding)"
proof (cases "\<exists>i. e_pc s i \<noteq> Idle")
  case True
  then obtain i where i: "e_pc s i \<noteq> Idle" by blast
  note inv = eal_inv_in [OF eal_reachable_inv [OF assms] i]
  then have only: "j = i" if "e_pc s j \<noteq> Idle" for j using that by blast
  have "j = i" if "e_pc s j = Holding" for j using only [of j] that by simp
  then have "(\<exists>j. e_pc s j = Holding) \<longleftrightarrow> e_pc s i = Holding" by blast
  with inv have "run_calls False (e_log s) = Some (\<exists>j. e_pc s j = Holding)" by simp
  moreover have "\<forall>i j. e_pc s i \<noteq> Idle \<longrightarrow> e_pc s j \<noteq> Idle \<longrightarrow> i = j" using only by blast
  ultimately show ?thesis using inv True by blast
next
  case False
  then show ?thesis using eal_reachable_inv [OF assms] by (auto simp: eal_inv_def split: if_splits)
qed

definition sim_eal :: "nat eal_ffi" where
  "sim_eal = \<lparr>rust_get_rte_errno = (\<lambda>_. 22), nix_from_raw = id, rte_eal_init = (\<lambda>n args w. (0, Suc w)),
     rte_eal_cleanup = (\<lambda>w. (0, w)), rte_thread_register = (\<lambda>w. (0, w)), rte_thread_unregister = id\<rparr>"

lemma sim_eal_held: "\<exists>s. (eal_step sim_eal)\<^sup>*\<^sup>* (eal_start 0) s \<and> e_pc s 3 = Holding"
proof -
  let ?s0 = "eal_start (0 :: nat)"
  let ?s1 = "?s0\<lparr>e_flag := True, e_pc := (e_pc ?s0)(3 := Entered [''prog''])\<rparr>"
  let ?s2 = "?s1\<lparr>e_world := 1, e_pc := (e_pc ?s1)(3 := Holding), e_log := e_log ?s1 @ [Called_init True]\<rparr>"
  have "eal_step sim_eal ?s0 ?s1" by (rule eal_step.swap_won) (simp_all add: eal_start_def)
  moreover have "eal_step sim_eal ?s1 ?s2"
    by (rule eal_step.init_works [where args = "[''prog'']" and ret = 0]) (simp_all add: eal_start_def sim_eal_def has_nul_def)
  ultimately have "(eal_step sim_eal)\<^sup>*\<^sup>* ?s0 ?s2" by (rule converse_rtranclp_into_rtranclp [OF _ r_into_rtranclp])
  moreover have "e_pc ?s2 3 = Holding" by simp
  ultimately show ?thesis by (intro exI [of _ ?s2] conjI)
qed

theorem eal_guard_exclusive_witness:
  "\<exists>s. (eal_step sim_eal)\<^sup>*\<^sup>* (eal_start 0) s \<and> e_pc s 3 = Holding \<and> e_flag s \<and> run_calls False (e_log s) = Some True"
proof -
  obtain s where r: "(eal_step sim_eal)\<^sup>*\<^sup>* (eal_start 0) s" and h: "e_pc s 3 = Holding" using sim_eal_held by blast
  have "e_pc s 3 \<noteq> Idle" by (simp add: h)
  with eal_guard_exclusive [OF r] h have "e_flag s" "run_calls False (e_log s) = Some True" by auto
  with r h show ?thesis by blast
qed

text \<open>
  C35. A panic between taking the flag and calling DPDK leaves the flag set for ever. An argument with a NUL
  byte makes \<open>Eal::init\<close> panic; although no call has reached DPDK, every later attempt is refused with
  \<open>EALREADY\<close> and \<open>is_initialized\<close> claims that EAL is initialised.
\<close>

theorem eal_flag_stuck_after_panic:
  assumes "a \<in> set args" and "has_nul a"
  shows "\<exists>m st. Eal_init f args (False, w) = (Panic m, st) \<and> snd st = w \<and> Eal_is_initialized st
    \<and> (\<forall>args'. Eal_init f args' st = (Done (Inl EALREADY), st))"
  using assms by (auto simp: Eal_init_def Eal_is_initialized_def)

theorem eal_flag_stuck_after_panic_witness:
  "has_nul [CHR 0x00] \<and> (\<exists>m st. Eal_init sim_eal [''prog'', [CHR 0x00]] (False, 0) = (Panic m, st) \<and> snd st = 0
    \<and> Eal_is_initialized st \<and> (\<forall>args'. Eal_init sim_eal args' st = (Done (Inl EALREADY), st)))"
  using eal_flag_stuck_after_panic [of "[CHR 0x00]" "[''prog'', [CHR 0x00]]" sim_eal 0] by (simp add: has_nul_def)

text \<open>
  C32. The functions are runs of the steps. A call of \<open>Eal::init\<close> by an idle thread, without interference, is
  a sequence of the atomic steps with the same flag and world; it ends with the guard held, with the thread
  idle again, or with the thread dead, as the result says. The drop of the guard gives the flag back.
\<close>

theorem eal_functions_are_steps:
  assumes "e_pc s i = Idle" and "Eal_init f args (e_flag s, e_world s) = (r, fl, w)"
  shows "\<exists>s'. (eal_step f)\<^sup>*\<^sup>* s s' \<and> e_flag s' = fl \<and> e_world s' = w
    \<and> e_pc s' i = (case r of Panic _ \<Rightarrow> Died | Done (Inl _) \<Rightarrow> Idle | Done (Inr _) \<Rightarrow> Holding)
    \<and> (e_pc s' i = Holding \<longrightarrow> (\<exists>s''. (eal_step f)\<^sup>*\<^sup>* s' s'' \<and> e_pc s'' i = Idle \<and> (e_flag s'', e_world s'') = Eal_drop f (fl, w)))"
proof (cases "e_flag s")
  case True
  then show ?thesis using assms by (intro exI [of _ s]) (auto simp: Eal_init_def)
next
  case False
  let ?s1 = "s\<lparr>e_flag := True, e_pc := (e_pc s)(i := Entered args)\<rparr>"
  have one: "eal_step f s ?s1" using assms(1) False by (rule eal_step.swap_won)
  have e: "e_pc ?s1 i = Entered args" "e_world ?s1 = e_world s" by simp_all
  show ?thesis
  proof (cases "\<exists>a \<in> set args. has_nul a")
    case True
    let ?s2 = "?s1\<lparr>e_pc := (e_pc ?s1)(i := Died)\<rparr>"
    have "eal_step f ?s1 ?s2" by (rule eal_step.panics [OF e(1) True])
    with one have "(eal_step f)\<^sup>*\<^sup>* s ?s2" by (meson converse_rtranclp_into_rtranclp r_into_rtranclp)
    then show ?thesis using assms(2) False True by (intro exI [of _ ?s2]) (auto simp: Eal_init_def)
  next
    case clean: False
    obtain ret w1 where c: "rte_eal_init f (of_nat (length args)) args (e_world s) = (ret, w1)" by fastforce
    show ?thesis
    proof (cases "sint ret < 0")
      case True
      let ?s2 = "?s1\<lparr>e_world := w1, e_pc := (e_pc ?s1)(i := Failed), e_log := e_log ?s1 @ [Called_init False]\<rparr>"
      let ?s3 = "?s2\<lparr>e_flag := False, e_pc := (e_pc ?s2)(i := Idle)\<rparr>"
      have "eal_step f ?s1 ?s2" by (rule eal_step.init_fails [OF e(1) clean _ True]) (simp add: c)
      moreover have "eal_step f ?s2 ?s3" by (rule eal_step.reset) simp
      ultimately have "(eal_step f)\<^sup>*\<^sup>* s ?s3"
        using one by (meson converse_rtranclp_into_rtranclp r_into_rtranclp)
      moreover have "r = Done (Inl (rte_errno f w1))" "fl = False" "w = w1"
        using assms(2) False clean c True by (auto simp: Eal_init_def)
      ultimately show ?thesis by (intro exI [of _ ?s3]) simp
    next
      case ok: False
      let ?s2 = "?s1\<lparr>e_world := w1, e_pc := (e_pc ?s1)(i := Holding), e_log := e_log ?s1 @ [Called_init True]\<rparr>"
      let ?s3 = "?s2\<lparr>e_world := snd (rte_eal_cleanup f (e_world ?s2)), e_pc := (e_pc ?s2)(i := Cleaned), e_log := e_log ?s2 @ [Called_cleanup]\<rparr>"
      let ?s4 = "?s3\<lparr>e_flag := False, e_pc := (e_pc ?s3)(i := Idle)\<rparr>"
      have "eal_step f ?s1 ?s2" by (rule eal_step.init_works [OF e(1) clean _ ok]) (simp add: c)
      with one have 2: "(eal_step f)\<^sup>*\<^sup>* s ?s2" by (meson converse_rtranclp_into_rtranclp r_into_rtranclp)
      have "eal_step f ?s2 ?s3" by (rule eal_step.cleans) simp
      moreover have "eal_step f ?s3 ?s4" by (rule eal_step.released) simp
      ultimately have 4: "(eal_step f)\<^sup>*\<^sup>* ?s2 ?s4" by (meson converse_rtranclp_into_rtranclp r_into_rtranclp)
      have "r = Done (Inr ())" "fl = True" "w = w1" using assms(2) False clean c ok by (auto simp: Eal_init_def)
      then show ?thesis using 2 4 by (intro exI [of _ ?s2] conjI impI exI [of _ ?s4]) (simp_all add: Eal_drop_def)
    qed
  qed
qed

theorem eal_functions_are_steps_witness:
  "\<exists>s'. (eal_step sim_eal)\<^sup>*\<^sup>* (eal_start 0) s' \<and> e_flag s' \<and> e_world s' = 1 \<and> e_pc s' 3 = Holding"
proof -
  have "Eal_init sim_eal [''prog''] (e_flag (eal_start 0), e_world (eal_start 0)) = (Done (Inr ()), True, 1)"
    by (simp add: Eal_init_def sim_eal_def eal_start_def has_nul_def)
  from eal_functions_are_steps [where i = 3, OF _ this] show ?thesis by (auto simp: eal_start_def)
qed

end
