(* ===== verification/Lcore.thy ===== *)
theory Lcore
  imports Api_Error "HOL-Library.Monad_Syntax"
begin

section \<open>Logical cores (api/rte/lcore.rs)\<close>

text \<open>
  Handles to lcores, the iterators over them, and launching closures. A closure is represented by the value
  it returns; launching boxes it on the heap and hands the raw pointer to DPDK, whose thread turns it back
  into a box when it runs it, so the heap of boxes is part of the state that the calls of \<open>lcore_ffi\<close> change.
\<close>

datatype lc_role = Rte | Off | Service | NonEal

definition Role_try_from :: "u32 \<Rightarrow> lc_role option" where
  "Role_try_from v = (if v = 0 then Some Rte else if v = 1 then Some Off else if v = 2 then Some Service
     else if v = 3 then Some NonEal else None)"

datatype lc_state = St_Wait | St_Running | St_Finished

definition State_from :: "i32 \<Rightarrow> lc_state" where
  "State_from v = (if v = 0 then St_Wait else if v = 1 then St_Running else if v = 2 then St_Finished else St_Wait)"

definition LCORE_ID_ANY :: u32 where
  "LCORE_ID_ANY = - 1"

record 'w lcore_rt =
  lc_world :: 'w
  boxes :: "ptr \<Rightarrow> i32 option"
  next_box :: ptr

record 'w lcore_ffi =
  rte_max_lcore :: u32
  rte_lcore_is_enabled :: "u32 \<Rightarrow> 'w \<Rightarrow> i32"
  rust_rte_lcore_id :: "'w \<Rightarrow> u32"
  rust_rte_get_main_lcore :: "'w \<Rightarrow> u32"
  rte_get_next_lcore :: "u32 \<Rightarrow> bool \<Rightarrow> 'w \<Rightarrow> u32"
  rte_lcore_count :: "'w \<Rightarrow> u32"
  rte_eal_lcore_role :: "u32 \<Rightarrow> 'w \<Rightarrow> u32"
  rte_lcore_to_socket_id :: "u32 \<Rightarrow> 'w \<Rightarrow> u32"
  rte_lcore_to_cpu_id :: "i32 \<Rightarrow> 'w \<Rightarrow> i32"
  rte_eal_get_lcore_state :: "u32 \<Rightarrow> 'w \<Rightarrow> i32"
  rte_eal_remote_launch :: "ptr \<Rightarrow> u32 \<Rightarrow> 'w lcore_rt \<Rightarrow> i32 \<times> 'w lcore_rt"
  rte_eal_wait_lcore :: "u32 \<Rightarrow> 'w lcore_rt \<Rightarrow> i32 \<times> 'w lcore_rt"
  rte_eal_mp_wait_lcore :: "'w lcore_rt \<Rightarrow> 'w lcore_rt"

datatype lcore = Lcore (lcore_id: u32)

definition Lcore_from_id :: "('w, 'z) lcore_ffi_scheme \<Rightarrow> u32 \<Rightarrow> 'w \<Rightarrow> lcore option" where
  "Lcore_from_id f i w = (if i < rte_max_lcore f \<and> rte_lcore_is_enabled f i w \<noteq> 0 then Some (Lcore i) else None)"

definition Lcore_current :: "('w, 'z) lcore_ffi_scheme \<Rightarrow> 'w \<Rightarrow> lcore option" where
  "Lcore_current f w = (let i = rust_rte_lcore_id f w in if i = LCORE_ID_ANY then None else Some (Lcore i))"

definition Lcore_main :: "('w, 'z) lcore_ffi_scheme \<Rightarrow> 'w \<Rightarrow> lcore" where
  "Lcore_main f w = Lcore (rust_rte_get_main_lcore f w)"

record lcore_iter =
  it_current :: u32
  it_skip_main :: bool

definition Lcore_all :: lcore_iter where
  "Lcore_all = \<lparr>it_current = - 1, it_skip_main = False\<rparr>"

definition Lcore_workers :: lcore_iter where
  "Lcore_workers = \<lparr>it_current = - 1, it_skip_main = True\<rparr>"

definition Lcore_count :: "('w, 'z) lcore_ffi_scheme \<Rightarrow> 'w \<Rightarrow> u32" where
  "Lcore_count f w = rte_lcore_count f w"

definition Lcore_is_main :: "('w, 'z) lcore_ffi_scheme \<Rightarrow> lcore \<Rightarrow> 'w \<Rightarrow> bool" where
  "Lcore_is_main f l w = (lcore_id l = rust_rte_get_main_lcore f w)"

definition Lcore_role :: "('w, 'z) lcore_ffi_scheme \<Rightarrow> lcore \<Rightarrow> 'w \<Rightarrow> lc_role" where
  "Lcore_role f l w = (case Role_try_from (rte_eal_lcore_role f (lcore_id l) w) of Some r \<Rightarrow> r | None \<Rightarrow> Off)"

definition Lcore_socket_id :: "('w, 'z) lcore_ffi_scheme \<Rightarrow> lcore \<Rightarrow> 'w \<Rightarrow> u32" where
  "Lcore_socket_id f l w = rte_lcore_to_socket_id f (lcore_id l) w"

definition Lcore_cpu_id :: "('w, 'z) lcore_ffi_scheme \<Rightarrow> lcore \<Rightarrow> 'w \<Rightarrow> i32 option" where
  "Lcore_cpu_id f l w = (let cpu = rte_lcore_to_cpu_id f (lcore_id l) w in if sint cpu < 0 then None else Some cpu)"

definition Lcore_state :: "('w, 'z) lcore_ffi_scheme \<Rightarrow> lcore \<Rightarrow> 'w \<Rightarrow> lc_state" where
  "Lcore_state f l w = State_from (rte_eal_get_lcore_state f (lcore_id l) w)"

definition Lcore_is_available :: "('w, 'z) lcore_ffi_scheme \<Rightarrow> lcore \<Rightarrow> 'w \<Rightarrow> bool" where
  "Lcore_is_available f l w = (Lcore_state f l w = St_Wait)"

text \<open>\<open>LcoreIter\<close> and the loops that exhaust it. A loop that does not end has the value \<open>None\<close>.\<close>

definition LcoreIter_next :: "('w, 'z) lcore_ffi_scheme \<Rightarrow> lcore_iter \<Rightarrow> 'w \<Rightarrow> lcore option \<times> lcore_iter" where
  "LcoreIter_next f it w =
     (let nxt = rte_get_next_lcore f (it_current it) (it_skip_main it) w
      in if rte_max_lcore f \<le> nxt then (None, it) else (Some (Lcore nxt), it\<lparr>it_current := nxt\<rparr>))"

partial_function (option) LcoreIter_len :: "('w, 'z) lcore_ffi_scheme \<Rightarrow> bool \<Rightarrow> u32 \<Rightarrow> nat \<Rightarrow> 'w \<Rightarrow> nat option" where
  "LcoreIter_len f skip_main current count w =
     (let nxt = rte_get_next_lcore f current skip_main w
      in if rte_max_lcore f \<le> nxt then Some count else LcoreIter_len f skip_main nxt (count + 1) w)"

partial_function (option) LcoreIter_collect :: "('w, 'z) lcore_ffi_scheme \<Rightarrow> lcore_iter \<Rightarrow> 'w \<Rightarrow> lcore list option" where
  "LcoreIter_collect f it w =
     (case LcoreIter_next f it w of
        (None, it') \<Rightarrow> Some []
      | (Some l, it') \<Rightarrow> LcoreIter_collect f it' w \<bind> (\<lambda>ls. Some (l # ls)))"

text \<open>Launching: \<open>Box::into_raw\<close> allocates, \<open>Box::from_raw\<close> and its drop free.\<close>

definition show_int :: "int \<Rightarrow> string" where
  "show_int i = (if i < 0 then ''-'' @ show_nat (nat (- i)) else show_nat (nat i))"

definition box_new :: "i32 \<Rightarrow> 'w lcore_rt \<Rightarrow> ptr \<times> 'w lcore_rt" where
  "box_new v rt = (next_box rt, rt\<lparr>boxes := (boxes rt)(next_box rt \<mapsto> v), next_box := Suc (next_box rt)\<rparr>)"

definition box_free :: "ptr \<Rightarrow> 'w lcore_rt \<Rightarrow> 'w lcore_rt" where
  "box_free p rt = rt\<lparr>boxes := (boxes rt)(p := None)\<rparr>"

definition trampoline :: "ptr \<Rightarrow> 'w lcore_rt \<Rightarrow> i32 option \<times> 'w lcore_rt" where
  "trampoline p rt = (boxes rt p, box_free p rt)"

definition Lcore_launch ::
  "('w, 'z) lcore_ffi_scheme \<Rightarrow> lcore \<Rightarrow> i32 \<Rightarrow> 'w lcore_rt \<Rightarrow> (string + unit) \<times> 'w lcore_rt" where
  "Lcore_launch f l v rt =
     (case box_new v rt of
        (arg, rt) \<Rightarrow>
          (case rte_eal_remote_launch f arg (lcore_id l) rt of
             (ret, rt) \<Rightarrow>
               if ret = 0 then (Inr (), rt)
               else (Inl (''Failed to launch on lcore '' @ show_nat (unat (lcore_id l)) @ '': error '' @ show_int (sint ret)),
                     box_free arg rt)))"

definition Lcore_wait :: "('w, 'z) lcore_ffi_scheme \<Rightarrow> lcore \<Rightarrow> 'w lcore_rt \<Rightarrow> i32 \<times> 'w lcore_rt" where
  "Lcore_wait f l rt = rte_eal_wait_lcore f (lcore_id l) rt"

definition Lcore_run ::
  "('w, 'z) lcore_ffi_scheme \<Rightarrow> lcore \<Rightarrow> i32 \<Rightarrow> 'w lcore_rt \<Rightarrow> (string + i32) \<times> 'w lcore_rt" where
  "Lcore_run f l v rt =
     (case Lcore_launch f l v rt of
        (Inl e, rt) \<Rightarrow> (Inl e, rt)
      | (Inr _, rt) \<Rightarrow> (case Lcore_wait f l rt of (r, rt) \<Rightarrow> (Inr r, rt)))"

definition Lcore_wait_all_workers :: "('w, 'z) lcore_ffi_scheme \<Rightarrow> 'w lcore_rt \<Rightarrow> 'w lcore_rt" where
  "Lcore_wait_all_workers f rt = rte_eal_mp_wait_lcore f rt"

text \<open>\<open>g\<close> is the closure over lcores. The workers are enumerated while they are being launched.\<close>

partial_function (option) launch_loop ::
  "('w, 'z) lcore_ffi_scheme \<Rightarrow> (lcore \<Rightarrow> i32) \<Rightarrow> lcore_iter \<Rightarrow> 'w lcore_rt \<Rightarrow> ((string + unit) \<times> 'w lcore_rt) option" where
  "launch_loop f g it rt =
     (case LcoreIter_next f it (lc_world rt) of
        (None, it') \<Rightarrow> Some (Inr (), rt)
      | (Some l, it') \<Rightarrow>
          (case Lcore_launch f l (g l) rt of
             (Inl e, rt') \<Rightarrow> Some (Inl e, rt')
           | (Inr _, rt') \<Rightarrow> launch_loop f g it' rt'))"

definition Lcore_launch_on_workers where
  "Lcore_launch_on_workers f g rt = launch_loop f g Lcore_workers rt"

text \<open>\<open>foreach_worker\<close> calls its argument, here a state transformer, on each worker in turn.\<close>

definition Lcore_foreach_worker ::
  "('w, 'z) lcore_ffi_scheme \<Rightarrow> (lcore \<Rightarrow> 'a \<Rightarrow> 'a) \<Rightarrow> 'w \<Rightarrow> 'a \<Rightarrow> 'a option" where
  "Lcore_foreach_worker f g w a = LcoreIter_collect f Lcore_workers w \<bind> (\<lambda>ls. Some (fold g ls a))"

subsection \<open>The launch builder\<close>

type_synonym launch_builder = "lcore list"

definition LaunchBuilder_workers :: "('w, 'z) lcore_ffi_scheme \<Rightarrow> 'w \<Rightarrow> launch_builder option" where
  "LaunchBuilder_workers f w = LcoreIter_collect f Lcore_workers w"

definition LaunchBuilder_all :: "('w, 'z) lcore_ffi_scheme \<Rightarrow> 'w \<Rightarrow> launch_builder option" where
  "LaunchBuilder_all f w = LcoreIter_collect f Lcore_all w"

definition LaunchBuilder_with_lcores :: "lcore list \<Rightarrow> launch_builder" where
  "LaunchBuilder_with_lcores lcores = lcores"

definition LaunchBuilder_on_socket :: "('w, 'z) lcore_ffi_scheme \<Rightarrow> launch_builder \<Rightarrow> u32 \<Rightarrow> 'w \<Rightarrow> launch_builder" where
  "LaunchBuilder_on_socket f b socket_id w = List.filter (\<lambda>l. Lcore_socket_id f l w = socket_id) b"

definition LaunchBuilder_filter :: "launch_builder \<Rightarrow> (lcore \<Rightarrow> bool) \<Rightarrow> launch_builder" where
  "LaunchBuilder_filter b predicate = List.filter predicate b"

definition LaunchBuilder_take :: "launch_builder \<Rightarrow> nat \<Rightarrow> launch_builder" where
  "LaunchBuilder_take b n = List.take n b"

fun LaunchBuilder_launch ::
  "('w, 'z) lcore_ffi_scheme \<Rightarrow> (lcore \<Rightarrow> i32) \<Rightarrow> launch_builder \<Rightarrow> 'w lcore_rt \<Rightarrow> (string + unit) \<times> 'w lcore_rt" where
  "LaunchBuilder_launch f g [] rt = (Inr (), rt)"
| "LaunchBuilder_launch f g (l # ls) rt =
     (case Lcore_launch f l (g l) rt of
        (Inl e, rt) \<Rightarrow> (Inl e, rt)
      | (Inr _, rt) \<Rightarrow> LaunchBuilder_launch f g ls rt)"

fun LaunchHandle_wait ::
  "('w, 'z) lcore_ffi_scheme \<Rightarrow> lcore list \<Rightarrow> 'w lcore_rt \<Rightarrow> (lcore \<times> i32) list \<times> 'w lcore_rt" where
  "LaunchHandle_wait f [] rt = ([], rt)"
| "LaunchHandle_wait f (l # ls) rt =
     (case Lcore_wait f l rt of
        (r, rt) \<Rightarrow> (case LaunchHandle_wait f ls rt of (rs, rt) \<Rightarrow> ((l, r) # rs, rt)))"

definition LaunchBuilder_run ::
  "('w, 'z) lcore_ffi_scheme \<Rightarrow> (lcore \<Rightarrow> i32) \<Rightarrow> launch_builder \<Rightarrow> 'w lcore_rt
     \<Rightarrow> (string + (lcore \<times> i32) list) \<times> 'w lcore_rt" where
  "LaunchBuilder_run f g b rt =
     (case LaunchBuilder_launch f g b rt of
        (Inl e, rt) \<Rightarrow> (Inl e, rt)
      | (Inr _, rt) \<Rightarrow> (case LaunchHandle_wait f b rt of (rs, rt) \<Rightarrow> (Inr rs, rt)))"

definition LaunchHandle_is_done :: "('w, 'z) lcore_ffi_scheme \<Rightarrow> lcore list \<Rightarrow> 'w \<Rightarrow> bool" where
  "LaunchHandle_is_done f lcores w = list_all (\<lambda>l. Lcore_state f l w \<noteq> St_Running) lcores"

end
