(* ===== verification/Lcore_Launch.thy ===== *)
theory Lcore_Launch
  imports Lcore
begin

section \<open>Enumerating lcores and running closures on them\<close>

text \<open>
  The documented behaviour of the lcore functions as laws, and what follows for the iterators and for the
  launch builder: the right lcores, every closure run exactly once, and no box leaked or freed twice.
\<close>

subsection \<open>Iterators\<close>

text \<open>
  \<open>rte_get_next_lcore\<close> without wrap-around: the first enabled lcore after the given one, other than the
  main one when it is to be skipped, or \<open>RTE_MAX_LCORE\<close>. The number after \<open>u32::MAX\<close> is 0.
\<close>

definition wanted :: "(nat \<Rightarrow> bool) \<Rightarrow> nat \<Rightarrow> bool \<Rightarrow> nat \<Rightarrow> bool" where
  "wanted en mn skip j \<longleftrightarrow> en j \<and> (skip \<longrightarrow> j \<noteq> mn)"

definition next_law :: "('w, 'z) lcore_ffi_scheme \<Rightarrow> (nat \<Rightarrow> bool) \<Rightarrow> nat \<Rightarrow> bool" where
  "next_law f en mn \<longleftrightarrow> (\<forall>i skip w. rte_get_next_lcore f i skip w =
     (case find (wanted en mn skip) [unat (i + 1)..<unat (rte_max_lcore f)] of
        Some j \<Rightarrow> of_nat j | None \<Rightarrow> rte_max_lcore f))"

lemma find_upt_Some:
  "find P [s..<m] = Some j \<Longrightarrow> s \<le> j \<and> j < m \<and> P j \<and> filter P [s..<m] = j # filter P [Suc j..<m]"
proof (induction "m - s" arbitrary: s)
  case (Suc n)
  then have "s < m" by auto
  then show ?case using Suc upt_conv_Cons [of s m] by (cases "P s") force+
qed auto

lemma find_upt_None: "find P [s..<m] = None \<Longrightarrow> filter P [s..<m] = []"
  by (simp add: find_None_iff filter_empty_conv)

lemma unat_u32_bound: "unat (x :: u32) < 4294967296"
proof -
  have "unat x < 2 ^ LENGTH(32)" by (rule unsigned_less)
  then show ?thesis by simp
qed

lemma next_lcore_id:
  assumes "j < unat (m :: u32)"
  shows "of_nat j < m" and "unat (of_nat j + 1 :: u32) = Suc j" and "unat (of_nat j :: u32) = j"
proof -
  have j: "Suc j < 4294967296" using assms unat_u32_bound [of m] by simp
  show u: "unat (of_nat j :: u32) = j" using j by simp
  then show "of_nat j < m" using assms by (simp add: word_less_nat_alt)
  have "(of_nat j + 1 :: u32) = of_nat (Suc j)" by simp
  then show "unat (of_nat j + 1 :: u32) = Suc j" using j by (metis unat_of_nat_u32)
qed

lemma iter_next:
  assumes law: "next_law f en mn"
  shows "LcoreIter_next f \<lparr>it_current = i, it_skip_main = skip\<rparr> w =
    (case find (wanted en mn skip) [unat (i + 1)..<unat (rte_max_lcore f)] of
       None \<Rightarrow> (None, \<lparr>it_current = i, it_skip_main = skip\<rparr>)
     | Some j \<Rightarrow> (Some (Lcore (of_nat j)), \<lparr>it_current = of_nat j, it_skip_main = skip\<rparr>))"
proof (cases "find (wanted en mn skip) [unat (i + 1)..<unat (rte_max_lcore f)]")
  case (Some j)
  with find_upt_Some have "j < unat (rte_max_lcore f)" by fast
  from next_lcore_id(1) [OF this] Some law show ?thesis by (simp add: LcoreIter_next_def next_law_def Let_def)
qed (use law in \<open>simp add: LcoreIter_next_def next_law_def Let_def\<close>)

lemma collect_eq:
  assumes law: "next_law f en mn"
  shows "LcoreIter_collect f \<lparr>it_current = i, it_skip_main = skip\<rparr> w =
    Some (map (\<lambda>j. Lcore (of_nat j)) (filter (wanted en mn skip) [unat (i + 1)..<unat (rte_max_lcore f)]))"
proof (induction "unat (rte_max_lcore f) - unat (i + 1)" arbitrary: i rule: less_induct)
  case less
  show ?case
  proof (cases "find (wanted en mn skip) [unat (i + 1)..<unat (rte_max_lcore f)]")
    case None
    then show ?thesis
      by (subst LcoreIter_collect.simps) (simp add: iter_next [OF law] find_upt_None)
  next
    case (Some j)
    note j = find_upt_Some [OF Some]
    then have m: "j < unat (rte_max_lcore f)" by simp
    have "unat (rte_max_lcore f) - unat (of_nat j + 1 :: u32) < unat (rte_max_lcore f) - unat (i + 1)"
      using j next_lcore_id(2) [OF m] by linarith
    from less [OF this] show ?thesis
      using Some j next_lcore_id(2) [OF m] by (subst LcoreIter_collect.simps) (simp add: iter_next [OF law])
  qed
qed

lemma len_eq:
  assumes law: "next_law f en mn"
  shows "LcoreIter_len f skip i c w = Some (c + length (filter (wanted en mn skip) [unat (i + 1)..<unat (rte_max_lcore f)]))"
proof (induction "unat (rte_max_lcore f) - unat (i + 1)" arbitrary: i c rule: less_induct)
  case less
  show ?case
  proof (cases "find (wanted en mn skip) [unat (i + 1)..<unat (rte_max_lcore f)]")
    case None
    with law show ?thesis by (subst LcoreIter_len.simps) (simp add: next_law_def Let_def find_upt_None)
  next
    case (Some j)
    note j = find_upt_Some [OF Some]
    then have m: "j < unat (rte_max_lcore f)" by simp
    have "unat (rte_max_lcore f) - unat (of_nat j + 1 :: u32) < unat (rte_max_lcore f) - unat (i + 1)"
      using j next_lcore_id(2) [OF m] by linarith
    from less [OF this] show ?thesis
      using Some j next_lcore_id [OF m] law by (subst LcoreIter_len.simps) (simp add: next_law_def Let_def not_le)
  qed
qed

text \<open>
  The iterators end, and they yield exactly the right lcores. With \<open>RTE_MAX_LCORE\<close> as DPDK defines it,
  collecting \<open>Lcore::all\<close> gives every enabled lcore and \<open>Lcore::workers\<close> every enabled one but the main, in
  ascending order and each once; \<open>len\<close> returns the number of lcores that are still to come.
\<close>

theorem lcore_iter_complete:
  assumes "next_law f en mn"
  shows "\<exists>ids. LcoreIter_collect f \<lparr>it_current = i, it_skip_main = skip\<rparr> w = Some (map Lcore ids)
    \<and> sorted_wrt (<) ids
    \<and> (\<forall>k. k \<in> set ids \<longleftrightarrow> unat (i + 1) \<le> unat k \<and> k < rte_max_lcore f \<and> en (unat k) \<and> (skip \<longrightarrow> unat k \<noteq> mn))
    \<and> LcoreIter_len f skip i 0 w = Some (length ids)"
proof -
  let ?js = "filter (wanted en mn skip) [unat (i + 1)..<unat (rte_max_lcore f)]"
  let ?ids = "map of_nat ?js :: u32 list"
  have u: "unat (of_nat j :: u32) = j" if "j \<in> set ?js" for j
    using that next_lcore_id(3) [of j "rte_max_lcore f"] by simp
  have "sorted_wrt (<) ?js" using strict_sorted_iff sorted_wrt_filter sorted_wrt_upt by blast
  then have "sorted_wrt (<) ?ids"
    unfolding sorted_wrt_map by (rule sorted_wrt_mono_rel [rotated]) (use u in \<open>simp add: word_less_nat_alt\<close>)
  moreover have "k \<in> set ?ids \<longleftrightarrow> unat (i + 1) \<le> unat k \<and> k < rte_max_lcore f \<and> en (unat k) \<and> (skip \<longrightarrow> unat k \<noteq> mn)" for k
  proof
    assume "k \<in> set ?ids"
    then obtain j where j: "j \<in> set ?js" "k = of_nat j" by auto
    with u [OF j(1)] show "unat (i + 1) \<le> unat k \<and> k < rte_max_lcore f \<and> en (unat k) \<and> (skip \<longrightarrow> unat k \<noteq> mn)"
      by (auto simp: wanted_def word_less_nat_alt)
  next
    assume a: "unat (i + 1) \<le> unat k \<and> k < rte_max_lcore f \<and> en (unat k) \<and> (skip \<longrightarrow> unat k \<noteq> mn)"
    then have "unat k \<in> set ?js" by (simp add: wanted_def word_less_nat_alt)
    then show "k \<in> set ?ids" by (metis image_eqI list.set_map of_nat_unat ucast_id)
  qed
  ultimately show ?thesis
    using collect_eq [OF assms, of i skip w] len_eq [OF assms, of skip i 0 w]
    by (intro exI [of _ ?ids]) (simp add: o_def)
qed

subsection \<open>Running closures\<close>

text \<open>
  \<open>V w i\<close> is the state of lcore \<open>i\<close>: waiting, busy with the function and argument it was launched with, or
  finished with a return value. While a call is in progress other lcores may run: a busy one passes its
  argument to the trampoline and finishes with what that returns.
\<close>

datatype lcore_view = L_wait | L_busy ptr | L_finished i32

inductive progress :: "('w \<Rightarrow> u32 \<Rightarrow> lcore_view) \<Rightarrow> 'w lcore_rt \<Rightarrow> 'w lcore_rt \<Rightarrow> bool" for V where
  still: "progress V rt rt"
| runs: "V (lc_world rt) i = L_busy p \<Longrightarrow> trampoline p rt = (Some v, rt1) \<Longrightarrow>
    V w' = (V (lc_world rt))(i := L_finished v) \<Longrightarrow> progress V (rt1\<lparr>lc_world := w'\<rparr>) rt2 \<Longrightarrow> progress V rt rt2"

definition launch_law :: "('w, 'z) lcore_ffi_scheme \<Rightarrow> ('w \<Rightarrow> u32 \<Rightarrow> lcore_view) \<Rightarrow> bool" where
  "launch_law f V \<longleftrightarrow> (\<forall>p i rt ret rt'. rte_eal_remote_launch f p i rt = (ret, rt') \<longrightarrow>
     (\<exists>rt1. progress V rt rt1 \<and>
       (if ret = 0 then V (lc_world rt1) i = L_wait \<and> V (lc_world rt') = (V (lc_world rt1))(i := L_busy p)
            \<and> rt' = rt1\<lparr>lc_world := lc_world rt'\<rparr>
        else V (lc_world rt1) i \<noteq> L_wait \<and> rt' = rt1)))"

text \<open>
  The heap of boxes: those that lcores are busy with, each by one lcore, and the set \<open>X\<close> that the caller
  still owns. With \<open>X\<close> empty nothing is leaked and nothing is used after it was freed.
\<close>

definition box_inv :: "('w \<Rightarrow> u32 \<Rightarrow> lcore_view) \<Rightarrow> ptr set \<Rightarrow> 'w lcore_rt \<Rightarrow> bool" where
  "box_inv V X rt \<longleftrightarrow>
     (\<forall>p. boxes rt p \<noteq> None \<longleftrightarrow> p \<in> X \<or> (\<exists>i. V (lc_world rt) i = L_busy p))
     \<and> (\<forall>i p. V (lc_world rt) i = L_busy p \<longrightarrow> p \<notin> X)
     \<and> (\<forall>i j p. V (lc_world rt) i = L_busy p \<longrightarrow> V (lc_world rt) j = L_busy p \<longrightarrow> i = j)
     \<and> (\<forall>p. next_box rt \<le> p \<longrightarrow> boxes rt p = None)"

definition wait_law :: "('w, 'z) lcore_ffi_scheme \<Rightarrow> ('w \<Rightarrow> u32 \<Rightarrow> lcore_view) \<Rightarrow> bool" where
  "wait_law f V \<longleftrightarrow> (\<forall>X i rt ret rt'. box_inv V X rt \<longrightarrow> rte_eal_wait_lcore f i rt = (ret, rt') \<longrightarrow>
     (\<exists>rt1. progress V rt rt1 \<and>
       (case V (lc_world rt1) i of
          L_wait \<Rightarrow> ret = 0 \<and> rt' = rt1
        | L_busy p \<Rightarrow> False
        | L_finished v \<Rightarrow> ret = v \<and> V (lc_world rt') = (V (lc_world rt1))(i := L_wait)
            \<and> rt' = rt1\<lparr>lc_world := lc_world rt'\<rparr>)))"

definition has_job :: "('w \<Rightarrow> u32 \<Rightarrow> lcore_view) \<Rightarrow> 'w lcore_rt \<Rightarrow> u32 \<Rightarrow> i32 \<Rightarrow> bool" where
  "has_job V rt i v \<longleftrightarrow> V (lc_world rt) i = L_finished v \<or> (\<exists>p. V (lc_world rt) i = L_busy p \<and> boxes rt p = Some v)"

lemma progress_inv: "progress V rt rt' \<Longrightarrow> box_inv V X rt \<Longrightarrow> box_inv V X rt'"
proof (induction rule: progress.induct)
  case (runs rt i p v rt1 w' rt2)
  have t: "boxes rt p = Some v" "rt1 = box_free p rt" using runs.hyps(2) by (auto simp: trampoline_def)
  have w: "V w' j = L_busy q \<longleftrightarrow> V (lc_world rt) j = L_busy q \<and> q \<noteq> p" for j q
    using runs.prems runs.hyps(1,3) by (auto simp: box_inv_def)
  have "box_inv V X (rt1\<lparr>lc_world := w'\<rparr>)"
    using runs.prems runs.hyps(1) unfolding box_inv_def t(2) box_free_def by (auto simp: w)
  with runs.IH show ?case .
qed

lemma progress_wait: "progress V rt rt' \<Longrightarrow> V (lc_world rt) i = L_wait \<Longrightarrow> V (lc_world rt') i = L_wait"
proof (induction rule: progress.induct)
  case (runs rt k p v rt1 w' rt2)
  then have "i \<noteq> k" by auto
  with runs show ?case by simp
qed

lemma progress_busy_not_wait: "progress V rt rt' \<Longrightarrow> V (lc_world rt) i \<noteq> L_wait \<Longrightarrow> V (lc_world rt') i \<noteq> L_wait"
  by (induction rule: progress.induct) (auto simp: trampoline_def)

lemma progress_job:
  "progress V rt rt' \<Longrightarrow> box_inv V X rt \<Longrightarrow> has_job V rt i v \<Longrightarrow> has_job V rt' i v"
proof (induction rule: progress.induct)
  case (runs rt k p u rt1 w' rt2)
  have t: "boxes rt p = Some u" "rt1 = box_free p rt" using runs.hyps(2) by (auto simp: trampoline_def)
  have "progress V rt (rt1\<lparr>lc_world := w'\<rparr>)" by (rule progress.runs [OF runs.hyps(1-3) progress.still])
  from progress_inv [OF this runs.prems(1)] have inv: "box_inv V X (rt1\<lparr>lc_world := w'\<rparr>)" .
  have "i = k" if "V (lc_world rt) i = L_busy p" using runs.prems(1) runs.hyps(1) that by (auto simp: box_inv_def)
  then have "has_job V (rt1\<lparr>lc_world := w'\<rparr>) i v"
    using runs.prems(2) runs.hyps(1,3) t by (cases "i = k"; fastforce simp: has_job_def box_free_def)
  with runs.IH [OF inv] show ?case .
qed

lemma progress_next: "progress V rt rt' \<Longrightarrow> next_box rt' = next_box rt"
  by (induction rule: progress.induct) (auto simp: trampoline_def box_free_def)

text \<open>A box of the caller stays as it is while others run.\<close>

lemma progress_own: "progress V rt rt' \<Longrightarrow> box_inv V X rt \<Longrightarrow> p \<in> X \<Longrightarrow> boxes rt' p = boxes rt p"
proof (induction rule: progress.induct)
  case (runs rt k q u rt1 w' rt2)
  have "progress V rt (rt1\<lparr>lc_world := w'\<rparr>)" by (rule progress.runs [OF runs.hyps(1-3) progress.still])
  note inv = progress_inv [OF this runs.prems(1)]
  have "q \<noteq> p" using runs.prems runs.hyps(1) by (auto simp: box_inv_def)
  then have "boxes rt1 p = boxes rt p" using runs.hyps(2) by (auto simp: trampoline_def box_free_def)
  then show ?case using runs.IH [OF inv runs.prems(2)] by simp
qed simp

lemma box_new_inv: "box_inv V X rt \<Longrightarrow> box_new v rt = (p, rt') \<Longrightarrow> box_inv V (insert p X) rt' \<and> boxes rt' p = Some v
    \<and> p \<notin> X \<and> lc_world rt' = lc_world rt \<and> (\<forall>i u. has_job V rt i u \<longrightarrow> has_job V rt' i u)"
proof -
  assume inv: "box_inv V X rt" and new: "box_new v rt = (p, rt')"
  then have "boxes rt (next_box rt) = None" by (simp add: box_inv_def)
  moreover from this inv have "next_box rt \<notin> X \<and> (\<forall>i. V (lc_world rt) i \<noteq> L_busy (next_box rt))"
    unfolding box_inv_def by (metis (no_types, lifting))
  ultimately show ?thesis using inv new by (auto simp: box_new_def box_inv_def has_job_def split: if_splits)
qed

lemma box_free_inv: "box_inv V (insert p X) rt \<Longrightarrow> p \<notin> X \<Longrightarrow> box_inv V X (box_free p rt)"
  by (auto simp: box_free_def box_inv_def)

lemma box_free_job: "box_inv V (insert p X) rt \<Longrightarrow> has_job V (box_free p rt) i v \<longleftrightarrow> has_job V rt i v"
  by (cases "V (lc_world rt) i") (auto simp: box_free_def box_inv_def has_job_def)

text \<open>What one launch does: the box is handed to the lcore, or freed again with nothing else changed.\<close>

lemma launch_cases:
  assumes law: "launch_law f V" and inv: "box_inv V X rt" and L: "Lcore_launch f l v rt = (r, rt')"
  shows "box_inv V X rt'"
    and "has_job V rt i u \<Longrightarrow> has_job V rt' i u"
    and "V (lc_world rt) i = L_wait \<Longrightarrow> i \<noteq> lcore_id l \<Longrightarrow> V (lc_world rt') i = L_wait"
    and "isl r \<longleftrightarrow> V (lc_world rt) (lcore_id l) \<noteq> L_wait"
    and "\<not> isl r \<Longrightarrow> has_job V rt' (lcore_id l) v"
proof -
  obtain p rt0 where new: "box_new v rt = (p, rt0)" by fastforce
  from box_new_inv [OF inv new]
  have b: "box_inv V (insert p X) rt0" "boxes rt0 p = Some v" "p \<notin> X" "lc_world rt0 = lc_world rt"
    and jobs: "\<And>i u. has_job V rt i u \<Longrightarrow> has_job V rt0 i u" by auto
  obtain ret rt2 where rem: "rte_eal_remote_launch f p (lcore_id l) rt0 = (ret, rt2)" by fastforce
  from law [unfolded launch_law_def, rule_format, OF rem] obtain rt1
    where pr: "progress V rt0 rt1" and c: "if ret = 0 then V (lc_world rt1) (lcore_id l) = L_wait
        \<and> V (lc_world rt2) = (V (lc_world rt1))(lcore_id l := L_busy p) \<and> rt2 = rt1\<lparr>lc_world := lc_world rt2\<rparr>
        else V (lc_world rt1) (lcore_id l) \<noteq> L_wait \<and> rt2 = rt1" by blast
  note b1 = progress_inv [OF pr b(1)]
  note j1 = progress_job [OF pr b(1)]
  note w1 = progress_wait [OF pr, unfolded b(4)]
  note n1 = progress_busy_not_wait [OF pr, unfolded b(4)]
  have own: "boxes rt1 p = Some v" using progress_own [OF pr b(1)] b(2) by simp
  have goal: "box_inv V X rt' \<and> (has_job V rt i u \<longrightarrow> has_job V rt' i u)
      \<and> (V (lc_world rt) i = L_wait \<longrightarrow> i \<noteq> lcore_id l \<longrightarrow> V (lc_world rt') i = L_wait)
      \<and> (isl r \<longleftrightarrow> V (lc_world rt) (lcore_id l) \<noteq> L_wait) \<and> (\<not> isl r \<longrightarrow> has_job V rt' (lcore_id l) v)"
  proof (cases "ret = 0")
    case True
    with c L new rem have e: "V (lc_world rt1) (lcore_id l) = L_wait" "rt' = rt2" "r = Inr ()"
      and V2: "V (lc_world rt2) = (V (lc_world rt1))(lcore_id l := L_busy p)" and r2: "boxes rt2 = boxes rt1" "next_box rt2 = next_box rt1"
      by (auto simp: Lcore_launch_def) (metis lcore_rt.select_convs lcore_rt.surjective lcore_rt.update_convs)+
    have "has_job V rt2 i u" if "has_job V rt1 i u" using that e(1) by (auto simp: has_job_def V2 r2)
    moreover have "V (lc_world rt2) j = L_busy q \<longleftrightarrow> j = lcore_id l \<and> q = p \<or> V (lc_world rt1) j = L_busy q" for j q
      using e(1) by (auto simp: V2)
    then have "box_inv V X rt2" using b1 b(3) own unfolding box_inv_def r2 by auto
    moreover have "has_job V rt2 (lcore_id l) v" using own by (simp add: has_job_def V2 r2)
    moreover have "V (lc_world rt) (lcore_id l) = L_wait" using e(1) n1 by blast
    ultimately show ?thesis using e(2,3) jobs j1 w1 V2 by auto
  next
    case False
    with c L new rem have e: "V (lc_world rt1) (lcore_id l) \<noteq> L_wait" "rt' = box_free p rt1" "isl r"
      by (auto simp: Lcore_launch_def)
    moreover have "lc_world (box_free p rt1) = lc_world rt1" by (simp add: box_free_def)
    ultimately show ?thesis using box_free_inv [OF b1 b(3)] box_free_job [OF b1] jobs j1 w1 n1 by auto
  qed
  then show "box_inv V X rt'" and "has_job V rt i u \<Longrightarrow> has_job V rt' i u"
    and "V (lc_world rt) i = L_wait \<Longrightarrow> i \<noteq> lcore_id l \<Longrightarrow> V (lc_world rt') i = L_wait"
    and "isl r \<longleftrightarrow> V (lc_world rt) (lcore_id l) \<noteq> L_wait"
    and "\<not> isl r \<Longrightarrow> has_job V rt' (lcore_id l) v" by blast+
qed

text \<open>Waiting for an lcore that has a job returns the job's value and leaves the lcore waiting.\<close>

lemma wait_job:
  assumes law: "wait_law f V" and inv: "box_inv V X rt" and job: "has_job V rt (lcore_id l) v"
    and L: "Lcore_wait f l rt = (r, rt')"
  shows "r = v" and "box_inv V X rt'" and "V (lc_world rt') (lcore_id l) = L_wait"
    and "has_job V rt i u \<Longrightarrow> i \<noteq> lcore_id l \<Longrightarrow> has_job V rt' i u"
    and "V (lc_world rt) i = L_wait \<Longrightarrow> V (lc_world rt') i = L_wait"
proof -
  from law [unfolded wait_law_def, rule_format, OF inv L [unfolded Lcore_wait_def]] obtain rt1
    where pr: "progress V rt rt1" and c: "case V (lc_world rt1) (lcore_id l) of L_wait \<Rightarrow> r = 0 \<and> rt' = rt1 | L_busy p \<Rightarrow> False
        | L_finished v \<Rightarrow> r = v \<and> V (lc_world rt') = (V (lc_world rt1))(lcore_id l := L_wait) \<and> rt' = rt1\<lparr>lc_world := lc_world rt'\<rparr>"
    by blast
  note b1 = progress_inv [OF pr inv]
  note j1 = progress_job [OF pr inv]
  from j1 [OF job] c have fin: "V (lc_world rt1) (lcore_id l) = L_finished v"
    by (auto simp: has_job_def split: lcore_view.splits)
  with c have V2: "V (lc_world rt') = (V (lc_world rt1))(lcore_id l := L_wait)" and "r = v"
    and "rt' = rt1\<lparr>lc_world := lc_world rt'\<rparr>" by auto
  then have r2: "boxes rt' = boxes rt1" "next_box rt' = next_box rt1"
    by (metis lcore_rt.select_convs lcore_rt.surjective lcore_rt.update_convs)+
  show "r = v" by fact
  have "V (lc_world rt') j = L_busy q \<longleftrightarrow> V (lc_world rt1) j = L_busy q" for j q using fin by (auto simp: V2)
  then show "box_inv V X rt'" using b1 unfolding box_inv_def r2 by simp
  show "V (lc_world rt') (lcore_id l) = L_wait" by (simp add: V2)
  show "has_job V rt i u \<Longrightarrow> i \<noteq> lcore_id l \<Longrightarrow> has_job V rt' i u" using j1 by (auto simp: has_job_def V2 r2)
  show "V (lc_world rt) i = L_wait \<Longrightarrow> V (lc_world rt') i = L_wait" using progress_wait [OF pr] by (simp add: V2)
qed

subsection \<open>The launch builder\<close>

lemma launch_all:
  assumes law: "launch_law f V"
  shows "box_inv V X rt \<Longrightarrow> distinct b \<Longrightarrow> \<forall>l \<in> set b. V (lc_world rt) (lcore_id l) = L_wait \<Longrightarrow>
    LaunchBuilder_launch f g b rt = (r, rt') \<Longrightarrow>
    r = Inr () \<and> box_inv V X rt' \<and> (\<forall>l \<in> set b. has_job V rt' (lcore_id l) (g l)) \<and> (\<forall>i u. has_job V rt i u \<longrightarrow> has_job V rt' i u)"
proof (induction b arbitrary: rt)
  case (Cons l ls)
  obtain r1 rt1 where L: "Lcore_launch f l (g l) rt = (r1, rt1)" by fastforce
  note one = launch_cases [OF law Cons.prems(1) L]
  have r1: "r1 = Inr ()" using one(4) Cons.prems(3) by (cases r1) auto
  then have job: "has_job V rt1 (lcore_id l) (g l)" using one(5) by simp
  have "lcore_id k \<noteq> lcore_id l" if "k \<in> set ls" for k using Cons.prems(2) that by (auto dest: lcore.expand)
  then have w: "\<forall>k \<in> set ls. V (lc_world rt1) (lcore_id k) = L_wait" using Cons.prems(3) one(3) by simp
  have "LaunchBuilder_launch f g ls rt1 = (r, rt')" using Cons.prems(4) L r1 by simp
  from Cons.IH [OF one(1) _ w this] Cons.prems(2) show ?case using job one(2) by auto
qed simp

lemma launch_keeps_jobs:
  assumes law: "launch_law f V"
  shows "box_inv V X rt \<Longrightarrow> LaunchBuilder_launch f g b rt = (r, rt') \<Longrightarrow> has_job V rt i u \<Longrightarrow> has_job V rt' i u"
proof (induction b arbitrary: rt)
  case (Cons l ls)
  obtain r1 rt1 where L: "Lcore_launch f l (g l) rt = (r1, rt1)" by fastforce
  note one = launch_cases [OF law Cons.prems(1) L]
  show ?case using Cons.IH [OF one(1)] Cons.prems(2) L one(2) [OF Cons.prems(3)] by (cases r1) auto
qed simp

lemma wait_all:
  assumes law: "wait_law f V"
  shows "box_inv V X rt \<Longrightarrow> distinct b \<Longrightarrow> \<forall>l \<in> set b. has_job V rt (lcore_id l) (g l) \<Longrightarrow>
    LaunchHandle_wait f b rt = (rs, rt') \<Longrightarrow>
    rs = map (\<lambda>l. (l, g l)) b \<and> box_inv V X rt' \<and> (\<forall>l \<in> set b. V (lc_world rt') (lcore_id l) = L_wait)
    \<and> (\<forall>i. V (lc_world rt) i = L_wait \<longrightarrow> V (lc_world rt') i = L_wait)"
proof (induction b arbitrary: rt rs)
  case (Cons l ls)
  obtain v rt1 where L: "Lcore_wait f l rt = (v, rt1)" by fastforce
  obtain rs1 where rest: "LaunchHandle_wait f ls rt1 = (rs1, rt')" and rs: "rs = (l, v) # rs1"
    using Cons.prems(4) L by (auto split: prod.splits)
  have "has_job V rt (lcore_id l) (g l)" using Cons.prems(3) by simp
  note one = wait_job [OF law Cons.prems(1) this L]
  have "lcore_id k \<noteq> lcore_id l" if "k \<in> set ls" for k using Cons.prems(2) that by (auto dest: lcore.expand)
  then have "\<forall>k \<in> set ls. has_job V rt1 (lcore_id k) (g k)" using Cons.prems(3) one(4) by simp
  from Cons.IH [OF one(2) _ this rest] Cons.prems(2) show ?case using one(1,3,5) rs by auto
qed simp

text \<open>
  C33. \<open>LaunchBuilder::run\<close> on distinct waiting lcores succeeds and returns each lcore with the value its closure
  computed, in the builder's order. Afterwards every lcore is waiting again and each box that was made for a
  closure has been freed once, whatever other lcores did in the meantime.
\<close>

theorem launch_run_returns_all:
  assumes "launch_law f V" and "wait_law f V" and "box_inv V X rt" and "distinct b"
    and "\<forall>l \<in> set b. V (lc_world rt) (lcore_id l) = L_wait"
    and "LaunchBuilder_run f g b rt = (r, rt')"
  shows "r = Inr (map (\<lambda>l. (l, g l)) b) \<and> box_inv V X rt' \<and> (\<forall>l \<in> set b. V (lc_world rt') (lcore_id l) = L_wait)"
proof -
  obtain r1 rt1 where L: "LaunchBuilder_launch f g b rt = (r1, rt1)" by fastforce
  from launch_all [OF assms(1) assms(3-5) L]
  have one: "r1 = Inr ()" "box_inv V X rt1" "\<forall>l \<in> set b. has_job V rt1 (lcore_id l) (g l)" by simp_all
  obtain rs rt2 where W: "LaunchHandle_wait f b rt1 = (rs, rt2)" by fastforce
  from wait_all [OF assms(2) one(2) assms(4) one(3) W] show ?thesis
    using assms(6) L W one(1) by (auto simp: LaunchBuilder_run_def)
qed


subsection \<open>An instance of the laws\<close>

text \<open>Four lcores of which 0 is the main one; a busy lcore runs when it is waited for.\<close>

type_synonym sim_lcores = "u32 \<Rightarrow> lcore_view"

definition sim_enabled :: "nat \<Rightarrow> bool" where
  "sim_enabled j \<longleftrightarrow> j < 4"

definition sim_launch :: "ptr \<Rightarrow> u32 \<Rightarrow> sim_lcores lcore_rt \<Rightarrow> i32 \<times> sim_lcores lcore_rt" where
  "sim_launch p i rt = (if lc_world rt i = L_wait then (0, rt\<lparr>lc_world := (lc_world rt)(i := L_busy p)\<rparr>) else (- 16, rt))"

definition sim_wait :: "u32 \<Rightarrow> sim_lcores lcore_rt \<Rightarrow> i32 \<times> sim_lcores lcore_rt" where
  "sim_wait i rt =
     (case lc_world rt i of
        L_wait \<Rightarrow> (0, rt)
      | L_finished v \<Rightarrow> (v, rt\<lparr>lc_world := (lc_world rt)(i := L_wait)\<rparr>)
      | L_busy p \<Rightarrow> (case trampoline p rt of
            (Some v, rt) \<Rightarrow> (v, rt\<lparr>lc_world := (lc_world rt)(i := L_wait)\<rparr>)
          | (None, rt) \<Rightarrow> (0, rt)))"

definition sim_lcore :: "sim_lcores lcore_ffi" where
  "sim_lcore = \<lparr>rte_max_lcore = 128,
     rte_lcore_is_enabled = (\<lambda>i w. if i < 4 then 1 else 0),
     rust_rte_lcore_id = (\<lambda>w. 0),
     rust_rte_get_main_lcore = (\<lambda>w. 0),
     rte_get_next_lcore = (\<lambda>i skip w. case find (wanted sim_enabled 0 skip) [unat (i + 1)..<128] of Some j \<Rightarrow> of_nat j | None \<Rightarrow> 128),
     rte_lcore_count = (\<lambda>w. 4),
     rte_eal_lcore_role = (\<lambda>i w. if i < 4 then 0 else 1),
     rte_lcore_to_socket_id = (\<lambda>i w. 0),
     rte_lcore_to_cpu_id = (\<lambda>i w. i),
     rte_eal_get_lcore_state = (\<lambda>i w. case w i of L_wait \<Rightarrow> 0 | L_busy p \<Rightarrow> 1 | L_finished v \<Rightarrow> 0),
     rte_eal_remote_launch = sim_launch,
     rte_eal_wait_lcore = sim_wait,
     rte_eal_mp_wait_lcore = (\<lambda>rt. fold (\<lambda>i rt. snd (sim_wait i rt)) [1, 2, 3] rt)\<rparr>"

lemma sim_next_law: "next_law sim_lcore sim_enabled 0"
  by (simp add: next_law_def sim_lcore_def split: option.splits)

lemma sim_launch_law: "launch_law sim_lcore (\<lambda>w. w)"
proof -
  have "\<exists>rt1. progress (\<lambda>w. w) rt rt1 \<and>
      (if ret = 0 then lc_world rt1 i = L_wait \<and> lc_world rt' = (lc_world rt1)(i := L_busy p) \<and> rt' = rt1\<lparr>lc_world := lc_world rt'\<rparr>
       else lc_world rt1 i \<noteq> L_wait \<and> rt' = rt1)"
    if "sim_launch p i rt = (ret, rt')" for p i rt ret rt'
    by (rule exI [of _ rt]) (use that in \<open>auto simp: sim_launch_def progress.still split: if_splits\<close>)
  then show ?thesis by (simp add: launch_law_def sim_lcore_def)
qed

lemma sim_wait_view:
  assumes inv: "box_inv (\<lambda>w. w) X rt" and w: "sim_wait i rt = (ret, rt')"
  shows "\<exists>rt1. progress (\<lambda>w. w) rt rt1 \<and>
    (case lc_world rt1 i of L_wait \<Rightarrow> ret = 0 \<and> rt' = rt1 | L_busy p \<Rightarrow> False
     | L_finished v \<Rightarrow> ret = v \<and> lc_world rt' = (lc_world rt1)(i := L_wait) \<and> rt' = rt1\<lparr>lc_world := lc_world rt'\<rparr>)"
proof (cases "lc_world rt i")
  case (L_busy p)
  with inv have "boxes rt p \<noteq> None" unfolding box_inv_def by metis
  then obtain v where v: "boxes rt p = Some v" by blast
  let ?rt1 = "(box_free p rt)\<lparr>lc_world := (lc_world rt)(i := L_finished v)\<rparr>"
  have "progress (\<lambda>w. w) rt ?rt1"
    by (rule progress.runs [where V = "\<lambda>w. w" and i = i and p = p and v = v and w' = "(lc_world rt)(i := L_finished v)",
          OF _ _ _ progress.still])
      (simp_all add: trampoline_def v L_busy)
  then show ?thesis using w L_busy v
    by (intro exI [of _ ?rt1]) (auto simp: sim_wait_def trampoline_def box_free_def)
qed (use w in \<open>auto simp: sim_wait_def intro!: exI [of _ rt] progress.still\<close>)

lemma sim_wait_law: "wait_law sim_lcore (\<lambda>w. w)"
  using sim_wait_view unfolding wait_law_def sim_lcore_def by simp

definition sim_rt :: "sim_lcores lcore_rt" where
  "sim_rt = \<lparr>lc_world = (\<lambda>i. L_wait)(3 := L_finished 7), boxes = (\<lambda>p. None), next_box = 0\<rparr>"

lemma sim_rt_inv: "box_inv (\<lambda>w. w) {} sim_rt"
  by (simp add: box_inv_def sim_rt_def)

theorem lcore_iter_complete_witness:
  "\<exists>ids. LcoreIter_collect sim_lcore \<lparr>it_current = - 1, it_skip_main = True\<rparr> (\<lambda>i. L_wait) = Some (map Lcore ids)
     \<and> sorted_wrt (<) ids \<and> (1 :: u32) \<in> set ids \<and> (0 :: u32) \<notin> set ids"
proof -
  from lcore_iter_complete [OF sim_next_law, of "- 1" True "\<lambda>i. L_wait"] obtain ids
    where c: "LcoreIter_collect sim_lcore \<lparr>it_current = - 1, it_skip_main = True\<rparr> (\<lambda>i. L_wait) = Some (map Lcore ids)"
      "sorted_wrt (<) ids"
    and k: "\<forall>k. k \<in> set ids \<longleftrightarrow> unat (- 1 + 1 :: u32) \<le> unat k \<and> k < rte_max_lcore sim_lcore
      \<and> sim_enabled (unat k) \<and> (True \<longrightarrow> unat k \<noteq> 0)" by blast
  show ?thesis using c k by (intro exI [of _ ids]) (simp add: sim_lcore_def sim_enabled_def)
qed

theorem launch_run_returns_all_witness:
  "\<exists>rt'. LaunchBuilder_run sim_lcore (\<lambda>l. scast (lcore_id l) + 10) [Lcore 2, Lcore 1] sim_rt
     = (Inr [(Lcore 2, 12), (Lcore 1, 11)], rt')"
proof -
  obtain r rt' where R: "LaunchBuilder_run sim_lcore (\<lambda>l. scast (lcore_id l) + 10) [Lcore 2, Lcore 1] sim_rt = (r, rt')" by fastforce
  have "r = Inr (map (\<lambda>l. (l, scast (lcore_id l) + 10)) [Lcore 2, Lcore 1])"
    using launch_run_returns_all [OF sim_launch_law sim_wait_law sim_rt_inv _ _ R] by (simp add: sim_rt_def)
  then show ?thesis using R by simp
qed


end
