(* ===== verification/Std_Text.thy ===== *)
theory Std_Text
  imports Net_Prelude "HOL-Library.Sublist"
begin

section \<open>Text in the Rust standard library\<close>

text \<open>
  What the sources use of \<open>str\<close> and the integer parsers. A \<open>str\<close> is the list of its code points. ASCII text
  (header values, literals) is a \<open>string\<close>, \<open>chars\<close> gives its code points and \<open>bytes\<close> its bytes.
\<close>

type_synonym str = "nat list"

definition chars :: "string \<Rightarrow> str" where
  "chars s = map of_char s"

definition bytes :: "string \<Rightarrow> u8 list" where
  "bytes s = map of_char s"

lemma length_bytes [simp]: "length (bytes s) = length s"
  by (simp add: bytes_def)

lemma bytes_append [simp]: "bytes (s @ t) = bytes s @ bytes t"
  by (simp add: bytes_def)

subsection \<open>ASCII case and search\<close>

definition ascii_lower :: "nat \<Rightarrow> nat" where
  "ascii_lower c = (if 65 \<le> c \<and> c \<le> 90 then c + 32 else c)"

definition to_ascii_lowercase :: "str \<Rightarrow> str" where
  "to_ascii_lowercase s = map ascii_lower s"

definition eq_ignore_ascii_case :: "str \<Rightarrow> str \<Rightarrow> bool" where
  "eq_ignore_ascii_case s t \<longleftrightarrow> to_ascii_lowercase s = to_ascii_lowercase t"

fun str_contains :: "str \<Rightarrow> str \<Rightarrow> bool" where
  "str_contains [] t \<longleftrightarrow> t = []"
| "str_contains (c # s) t \<longleftrightarrow> prefix t (c # s) \<or> str_contains s t"

lemma str_contains_sublist: "str_contains s t \<longleftrightarrow> sublist t s"
  by (induction s) (auto simp: sublist_Cons_right)

text \<open>\<open>split(c).next()\<close> is everything before the first \<open>c\<close>; \<open>trim\<close> removes white space on both sides.\<close>

definition split_first :: "nat \<Rightarrow> str \<Rightarrow> str" where
  "split_first c s = takeWhile (\<lambda>d. d \<noteq> c) s"

definition is_whitespace :: "nat \<Rightarrow> bool" where
  "is_whitespace c \<longleftrightarrow> 9 \<le> c \<and> c \<le> 13 \<or> c = 32 \<or> c = 133 \<or> c = 160 \<or> c = 5760 \<or> 8192 \<le> c \<and> c \<le> 8202
     \<or> c = 8232 \<or> c = 8233 \<or> c = 8239 \<or> c = 8287 \<or> c = 12288"

definition trim :: "str \<Rightarrow> str" where
  "trim s = rev (dropWhile is_whitespace (rev (dropWhile is_whitespace s)))"

subsection \<open>Numbers\<close>

text \<open>
  \<open>from_str_radix\<close> on \<open>usize\<close>: an optional plus sign and one digit or more; \<open>None\<close> stands for the error that
  no digit, a character that is none, or an overflow gives. \<open>parse\<close> is the same with radix 10.
\<close>

definition usize_max :: nat where
  "usize_max = 18446744073709551615"

definition isize_max :: nat where
  "isize_max = 9223372036854775807"

definition to_digit :: "nat \<Rightarrow> nat \<Rightarrow> nat option" where
  "to_digit radix c =
     (let d = if 48 \<le> c \<and> c \<le> 57 then c - 48
              else if 97 \<le> c \<and> c \<le> 122 then c - 87
              else if 65 \<le> c \<and> c \<le> 90 then c - 55
              else radix
      in if d < radix then Some d else None)"

fun radix_digits :: "nat \<Rightarrow> nat \<Rightarrow> nat \<Rightarrow> str \<Rightarrow> nat option" where
  "radix_digits bound radix acc [] = Some acc"
| "radix_digits bound radix acc (c # s) =
     (case to_digit radix c of
        None \<Rightarrow> None
      | Some d \<Rightarrow> if acc * radix + d \<le> bound then radix_digits bound radix (acc * radix + d) s else None)"

definition from_str_radix :: "nat \<Rightarrow> nat \<Rightarrow> str \<Rightarrow> nat option" where
  "from_str_radix bound radix s =
     (case s of
        [] \<Rightarrow> None
      | c # t \<Rightarrow> if c = 43 then (if t = [] then None else radix_digits bound radix 0 t)
                 else radix_digits bound radix 0 s)"

definition parse_usize :: "str \<Rightarrow> nat option" where
  "parse_usize s = from_str_radix usize_max 10 s"

lemma radix_digits_bound: "acc \<le> bound \<Longrightarrow> radix_digits bound radix acc s = Some n \<Longrightarrow> n \<le> bound"
  by (induction s arbitrary: acc) (auto split: option.splits if_splits)

lemma from_str_radix_bound: "from_str_radix bound radix s = Some n \<Longrightarrow> n \<le> bound"
  using radix_digits_bound [of 0 bound radix] unfolding from_str_radix_def
  by (cases s) (simp_all del: radix_digits.simps split: if_splits)

lemma radix_digits_snoc:
  "radix_digits bound radix acc (s @ [c]) =
     (case radix_digits bound radix acc s of
        None \<Rightarrow> None
      | Some n \<Rightarrow> (case to_digit radix c of
          None \<Rightarrow> None | Some d \<Rightarrow> if n * radix + d \<le> bound then Some (n * radix + d) else None))"
  by (induction s arbitrary: acc) (auto split: option.splits)

text \<open>A number that was printed reads back.\<close>

lemma chars_digit: "d < 10 \<Longrightarrow> of_char (digit_char d) = (48 + d :: nat)"
proof -
  assume "d < 10"
  then have "d = 0 \<or> d = 1 \<or> d = 2 \<or> d = 3 \<or> d = 4 \<or> d = 5 \<or> d = 6 \<or> d = 7 \<or> d = 8 \<or> d = 9" by arith
  then show ?thesis by (elim disjE) (simp_all add: digit_char_def)
qed

lemma to_digit_show: "d < 10 \<Longrightarrow> to_digit 10 (of_char (digit_char d)) = Some d"
  by (simp add: chars_digit to_digit_def Let_def)

lemma radix_digits_show: "n \<le> bound \<Longrightarrow> radix_digits bound 10 0 (chars (show_nat n)) = Some n"
proof (induction n rule: show_nat.induct)
  case (1 n)
  show ?case
  proof (cases "n < 10")
    case True
    then show ?thesis using 1(2) by (subst show_nat.simps) (simp add: chars_def to_digit_show)
  next
    case False
    have "chars (show_nat n) = chars (show_nat (n div 10)) @ [of_char (digit_char (n mod 10))]"
      using False by (subst show_nat.simps) (simp add: chars_def)
    moreover have "n div 10 \<le> bound" using 1(2) by (meson div_le_dividend le_trans)
    ultimately show ?thesis using 1 False by (simp add: radix_digits_snoc to_digit_show)
  qed
qed

lemma show_nat_digits: "c \<in> set (show_nat n) \<Longrightarrow> \<exists>d < 10. c = digit_char d"
proof (induction n rule: show_nat.induct)
  case (1 n)
  have "show_nat n = (if n < 10 then [digit_char n] else show_nat (n div 10) @ [digit_char (n mod 10)])"
    by (rule show_nat.simps)
  with 1(2) consider "n < 10" "c = digit_char n" | "\<not> n < 10" "c \<in> set (show_nat (n div 10))" | "c = digit_char (n mod 10)"
    by (auto split: if_splits)
  then show ?case
  proof cases
    case 3
    then show ?thesis by (intro exI [of _ "n mod 10"]) simp
  qed (use 1 in auto)
qed

lemma parse_usize_show: "n \<le> usize_max \<Longrightarrow> parse_usize (chars (show_nat n)) = Some n"
proof -
  assume n: "n \<le> usize_max"
  obtain c s where cs: "show_nat n = c # s" using show_nat_nonempty [of n] by (cases "show_nat n") auto
  then obtain d where "d < 10" "c = digit_char d" using show_nat_digits [of c n] by auto
  then have "of_char c \<noteq> (43 :: nat)" by (simp add: chars_digit)
  then show ?thesis using radix_digits_show [OF n] cs by (simp add: parse_usize_def from_str_radix_def chars_def)
qed

subsection \<open>UTF-8\<close>

text \<open>
  \<open>String::from_utf8_lossy\<close>: a well-formed sequence is its code point; the longest beginning of one that is
  cut off, or a byte that begins none, is a replacement character.
\<close>

definition replacement :: nat where
  "replacement = 65533"

definition continuation :: "nat \<Rightarrow> bool" where
  "continuation b \<longleftrightarrow> 128 \<le> b \<and> b \<le> 191"

definition second_byte :: "nat \<Rightarrow> nat \<Rightarrow> bool" where
  "second_byte b c \<longleftrightarrow>
     (if b = 224 then 160 \<le> c \<and> c \<le> 191
      else if b = 237 then 128 \<le> c \<and> c \<le> 159
      else if b = 240 then 144 \<le> c \<and> c \<le> 191
      else if b = 244 then 128 \<le> c \<and> c \<le> 143
      else continuation c)"

fun utf8_step :: "nat \<Rightarrow> nat list \<Rightarrow> nat \<times> nat list" where
  "utf8_step b bs =
     (if b < 128 then (b, bs)
      else if 194 \<le> b \<and> b \<le> 223
      then (case bs of
              c # cs \<Rightarrow> if continuation c then ((b - 192) * 64 + (c - 128), cs) else (replacement, bs)
            | [] \<Rightarrow> (replacement, bs))
      else if 224 \<le> b \<and> b \<le> 239
      then (case bs of
              c # cs \<Rightarrow>
                if second_byte b c
                then (case cs of
                        d # ds \<Rightarrow> if continuation d then (((b - 224) * 64 + (c - 128)) * 64 + (d - 128), ds)
                                   else (replacement, cs)
                      | [] \<Rightarrow> (replacement, cs))
                else (replacement, bs)
            | [] \<Rightarrow> (replacement, bs))
      else if 240 \<le> b \<and> b \<le> 244
      then (case bs of
              c # cs \<Rightarrow>
                if second_byte b c
                then (case cs of
                        d # ds \<Rightarrow>
                          if continuation d
                          then (case ds of
                                  e # es \<Rightarrow>
                                    if continuation e
                                    then ((((b - 240) * 64 + (c - 128)) * 64 + (d - 128)) * 64 + (e - 128), es)
                                    else (replacement, ds)
                                | [] \<Rightarrow> (replacement, ds))
                          else (replacement, cs)
                      | [] \<Rightarrow> (replacement, cs))
                else (replacement, bs)
            | [] \<Rightarrow> (replacement, bs))
      else (replacement, bs))"

lemma utf8_step_shrinks: "length (snd (utf8_step b bs)) \<le> length bs"
  by (auto split: list.splits)

declare utf8_step.simps [simp del]

function utf8_lossy :: "nat list \<Rightarrow> str" where
  "utf8_lossy [] = []"
| "utf8_lossy (b # bs) = fst (utf8_step b bs) # utf8_lossy (snd (utf8_step b bs))"
  by pat_completeness auto
termination
  by (relation "measure length") (auto simp: le_imp_less_Suc utf8_step_shrinks)

definition from_utf8_lossy :: "u8 list \<Rightarrow> str" where
  "from_utf8_lossy bs = utf8_lossy (map unat bs)"

lemma utf8_lossy_ascii: "(\<And>b. b \<in> set bs \<Longrightarrow> b < 128) \<Longrightarrow> utf8_lossy bs = bs"
  by (induction bs) (simp_all add: utf8_step.simps)

end
