(* ===== verification/Http_Msg.thy ===== *)
theory Http_Msg
  imports Std_Text
begin

section \<open>HTTP messages (dpdk-net-test, app/custom\_http.rs)\<close>

text \<open>
  The constants, the errors and the helpers of the HTTP server, and its responses. The types of the crates
  \<open>http\<close> and \<open>httparse\<close> are parameters, collected in the record \<open>http_crate\<close>: \<open>'h\<close> is \<open>HeaderMap\<close>, \<open>'m\<close> is
  \<open>Method\<close>, \<open>'u\<close> is \<open>Uri\<close>. A header name is its lower case text, a header value its bytes.
\<close>

definition MAX_HEADERS :: nat where
  "MAX_HEADERS = 100"

definition INITIAL_BUF_SIZE :: nat where
  "INITIAL_BUF_SIZE = 1024"

definition MAX_BUF_SIZE :: nat where
  "MAX_BUF_SIZE = 64 * 1024"

subsection \<open>The crates\<close>

datatype http_version = HTTP_09 | HTTP_10 | HTTP_11 | HTTP_2 | HTTP_3

datatype httparse_error = HP_HeaderName | HP_HeaderValue | HP_NewLine | HP_Status | HP_Token | HP_TooManyHeaders | HP_Version

text \<open>What \<open>httparse::Request::parse\<close> leaves in the request when it is complete.\<close>

record raw_request =
  rq_method :: "u8 list option"
  rq_path :: "string option"
  rq_version :: "u8 option"
  rq_headers :: "(u8 list \<times> u8 list) list"

datatype hp_status = Complete nat raw_request | Partial

record ('h, 'm, 'u) http_crate =
  hp_parse :: "nat \<Rightarrow> u8 list \<Rightarrow> httparse_error + hp_status"
  Method_from_bytes :: "u8 list \<Rightarrow> 'm option"
  Uri_try_from :: "string \<Rightarrow> 'u option"
  HeaderName_from_bytes :: "u8 list \<Rightarrow> string option"
  HeaderValue_from_bytes :: "u8 list \<Rightarrow> u8 list option"
  HeaderValue_to_str :: "u8 list \<Rightarrow> string option"
  HeaderMap_new :: 'h
  HeaderMap_insert :: "string \<Rightarrow> u8 list \<Rightarrow> 'h \<Rightarrow> 'h"
  HeaderMap_get :: "'h \<Rightarrow> string \<Rightarrow> u8 list option"
  HeaderMap_iter :: "'h \<Rightarrow> (string \<times> u8 list) list"
  canonical_reason :: "u16 \<Rightarrow> string option"
  hp_error_msg :: "httparse_error \<Rightarrow> string"

record ('h, 'm, 'u) request =
  req_method :: 'm
  req_uri :: 'u
  req_version :: http_version
  req_headers :: 'h
  req_body :: "u8 list"

record 'h response =
  resp_version :: http_version
  resp_status :: u16
  resp_headers :: 'h
  resp_body :: "u8 list"

subsection \<open>Errors\<close>

datatype 'e parse_error = PE_Io 'e | PE_Parse httparse_error | PE_InvalidMethod | PE_InvalidVersion
  | PE_InvalidHeader | PE_InvalidUri | PE_HeadersTooLarge | PE_InvalidContentLength | PE_ConnectionClosed

text \<open>
  \<open>'e\<close> is what the variant \<open>Io\<close> holds, an \<open>io::Error\<close> here and a \<open>String\<close> in the server for kimojio; \<open>show_io\<close> is
  how it is displayed.
\<close>

definition ParseError_fmt :: "('h, 'm, 'u, 'z) http_crate_scheme \<Rightarrow> ('e \<Rightarrow> string) \<Rightarrow> 'e parse_error \<Rightarrow> string" where
  "ParseError_fmt C show_io e =
     (case e of
        PE_Io e \<Rightarrow> ''I/O error: '' @ show_io e
      | PE_Parse e \<Rightarrow> ''Parse error: '' @ hp_error_msg C e
      | PE_InvalidMethod \<Rightarrow> ''Invalid HTTP method''
      | PE_InvalidVersion \<Rightarrow> ''Invalid HTTP version''
      | PE_InvalidHeader \<Rightarrow> ''Invalid header format''
      | PE_InvalidUri \<Rightarrow> ''Invalid URI''
      | PE_HeadersTooLarge \<Rightarrow> ''Headers too large''
      | PE_InvalidContentLength \<Rightarrow> ''Invalid Content-Length''
      | PE_ConnectionClosed \<Rightarrow> ''Connection closed'')"

definition ParseError_from_io :: "io_error \<Rightarrow> io_error parse_error" where
  "ParseError_from_io e = (if io_kind e = UnexpectedEof then PE_ConnectionClosed else PE_Io e)"

definition ParseError_from_httparse :: "httparse_error \<Rightarrow> 'e parse_error" where
  "ParseError_from_httparse e = PE_Parse e"

subsection \<open>Helpers\<close>

definition get_content_length :: "('h, 'm, 'u, 'z) http_crate_scheme \<Rightarrow> 'h \<Rightarrow> nat option" where
  "get_content_length C headers =
     (case HeaderMap_get C headers ''content-length'' of
        None \<Rightarrow> None
      | Some v \<Rightarrow> (case HeaderValue_to_str C v of None \<Rightarrow> None | Some s \<Rightarrow> parse_usize (chars s)))"

definition is_chunked :: "('h, 'm, 'u, 'z) http_crate_scheme \<Rightarrow> 'h \<Rightarrow> bool" where
  "is_chunked C headers =
     (case HeaderMap_get C headers ''transfer-encoding'' of
        None \<Rightarrow> False
      | Some v \<Rightarrow> (case HeaderValue_to_str C v of
            None \<Rightarrow> False
          | Some s \<Rightarrow> str_contains (to_ascii_lowercase (chars s)) (chars ''chunked'')))"

definition should_keep_alive :: "('h, 'm, 'u, 'z) http_crate_scheme \<Rightarrow> 'h \<Rightarrow> http_version \<Rightarrow> bool" where
  "should_keep_alive C headers version =
     (case HeaderMap_get C headers ''connection'' of
        Some conn \<Rightarrow> (case HeaderValue_to_str C conn of
            Some s \<Rightarrow> eq_ignore_ascii_case (chars s) (chars ''keep-alive'')
          | None \<Rightarrow> False)
      | None \<Rightarrow> version = HTTP_11)"

definition version_str :: "http_version \<Rightarrow> string" where
  "version_str version =
     (case version of
        HTTP_10 \<Rightarrow> ''HTTP/1.0''
      | HTTP_11 \<Rightarrow> ''HTTP/1.1''
      | HTTP_2 \<Rightarrow> ''HTTP/2.0''
      | HTTP_3 \<Rightarrow> ''HTTP/3.0''
      | _ \<Rightarrow> ''HTTP/1.1'')"

definition reason_phrase :: "('h, 'm, 'u, 'z) http_crate_scheme \<Rightarrow> u16 \<Rightarrow> string" where
  "reason_phrase C status = (case canonical_reason C status of Some s \<Rightarrow> s | None \<Rightarrow> ''Unknown'')"

definition crlf :: "u8 list" where
  "crlf = [13, 10]"

definition header_line :: "string \<times> u8 list \<Rightarrow> u8 list" where
  "header_line kv = bytes (fst kv) @ bytes '': '' @ snd kv @ crlf"

definition serialize_response :: "('h, 'm, 'u, 'z) http_crate_scheme \<Rightarrow> 'h response \<Rightarrow> u8 list" where
  "serialize_response C response =
     (let body = resp_body response;
          buf = bytes (version_str (resp_version response)) @ bytes '' '' @ bytes (show_nat (unat (resp_status response)))
            @ bytes '' '' @ bytes (reason_phrase C (resp_status response)) @ crlf;
          buf = buf @ concat (map header_line (HeaderMap_iter C (resp_headers response)));
          buf = (if HeaderMap_get C (resp_headers response) ''content-length'' = None
                 then buf @ bytes ''Content-Length: '' @ bytes (show_nat (length body)) @ crlf else buf)
      in buf @ crlf @ body)"

text \<open>The answers that the servers build: the echo handler, and the one to a request that cannot be parsed.\<close>

definition simple_echo_handler ::
  "('h, 'm, 'u, 'z) http_crate_scheme \<Rightarrow> ('h, 'm, 'u) request \<Rightarrow> 'h response" where
  "simple_echo_handler C req =
     \<lparr>resp_version = HTTP_11, resp_status = 200,
      resp_headers = HeaderMap_insert C ''content-type'' (bytes ''text/plain'') (HeaderMap_new C),
      resp_body = req_body req\<rparr>"

definition bad_request :: "('h, 'm, 'u, 'z) http_crate_scheme \<Rightarrow> string \<Rightarrow> 'h response" where
  "bad_request C e =
     \<lparr>resp_version = HTTP_11, resp_status = 400,
      resp_headers = HeaderMap_insert C ''connection'' (bytes ''close'') (HeaderMap_new C),
      resp_body = bytes (''Parse error: '' @ e)\<rparr>"

subsection \<open>Requests\<close>

text \<open>The conversion of the parsed header fields; a later field replaces an earlier one of the same name.\<close>

fun header_map :: "('h, 'm, 'u, 'z) http_crate_scheme \<Rightarrow> (u8 list \<times> u8 list) list \<Rightarrow> 'h \<Rightarrow> 'e parse_error + 'h" where
  "header_map C [] h = Inr h"
| "header_map C ((n, v) # hs) h =
     (case HeaderName_from_bytes C n of
        None \<Rightarrow> Inl PE_InvalidHeader
      | Some name \<Rightarrow>
          (case HeaderValue_from_bytes C v of
             None \<Rightarrow> Inl PE_InvalidHeader
           | Some val \<Rightarrow> header_map C hs (HeaderMap_insert C name val h)))"

type_synonym ('h, 'm) head = "'m \<times> string \<times> http_version \<times> 'h \<times> nat"

text \<open>The branch of \<open>parse_headers\<close> for a complete head of \<open>header_len\<close> bytes.\<close>

definition complete_head ::
  "('h, 'm, 'u, 'z) http_crate_scheme \<Rightarrow> nat \<Rightarrow> raw_request \<Rightarrow> 'e parse_error + ('h, 'm) head" where
  "complete_head C header_len req =
     (case Method_from_bytes C (case rq_method req of Some m \<Rightarrow> m | None \<Rightarrow> []) of
        None \<Rightarrow> Inl PE_InvalidMethod
      | Some method \<Rightarrow>
          (let uri = (case rq_path req of Some p \<Rightarrow> p | None \<Rightarrow> ''/'');
               version = (if rq_version req = Some 0 then Some HTTP_10
                          else if rq_version req = Some 1 then Some HTTP_11 else None)
           in case version of
                None \<Rightarrow> Inl PE_InvalidVersion
              | Some version \<Rightarrow>
                  (case header_map C (rq_headers req) (HeaderMap_new C) of
                     Inl e \<Rightarrow> Inl e
                   | Inr headers \<Rightarrow> Inr (method, uri, version, headers, header_len))))"

text \<open>\<open>Request::builder\<close> with its parts; \<open>body\<close> fails when the URI was not one.\<close>

definition build_request ::
  "('h, 'm, 'u, 'z) http_crate_scheme \<Rightarrow> 'm \<Rightarrow> string \<Rightarrow> http_version \<Rightarrow> 'h \<Rightarrow> u8 list \<Rightarrow> 'e parse_error + ('h, 'm, 'u) request" where
  "build_request C method uri version headers body =
     (case Uri_try_from C uri of
        None \<Rightarrow> Inl PE_InvalidUri
      | Some u \<Rightarrow> Inr \<lparr>req_method = method, req_uri = u, req_version = version, req_headers = headers, req_body = body\<rparr>)"

end
