(* ===== verification/Http_Parser.thy ===== *)
theory Http_Parser
  imports Http_Msg "HOL-Library.Monad_Syntax"
begin

section \<open>The request parsers (dpdk-net-test, app/custom\_http.rs and app/kimojio\_server.rs)\<close>

text \<open>
  \<open>HttpParser\<close> and \<open>KimojioHttpParser\<close> have the same text up to the reader they call and the way they read a
  given number of bytes. The common text is modelled once, each function over the functions it calls; \<open>rd\<close> is the
  read of at most \<open>n\<close> bytes and \<open>conv\<close> the conversion that \<open>?\<close> applies to its error. The two parsers are its instances. A reader is a parameter and
  each of its operations has the value its future ends with. Loops are partial functions, so that not
  returning is \<open>None\<close>. A buffer of more than \<open>isize::MAX\<close> bytes cannot be allocated and is a panic.
\<close>

record 'r http_parser =
  p_reader :: 'r
  p_buf :: "u8 list"
  p_len :: nat

text \<open>The valid bytes, and the removal of the first \<open>n\<close> of them with \<open>copy_within\<close>.\<close>

definition p_content :: "'r http_parser \<Rightarrow> u8 list" where
  "p_content p = take (p_len p) (p_buf p)"

definition p_consume :: "nat \<Rightarrow> 'r http_parser \<Rightarrow> 'r http_parser" where
  "p_consume n p = p\<lparr>p_buf := slice_write (p_buf p) 0 (subslice n (p_len p) (p_buf p)), p_len := p_len p - n\<rparr>"

subsection \<open>The common text\<close>

type_synonym ('e, 'r) rd = "nat \<Rightarrow> 'r \<Rightarrow> ('e + u8 list) \<times> 'r"

text \<open>The types of the functions: \<open>'x\<close> is what the variant \<open>Io\<close> of the error holds.\<close>

type_synonym ('x, 'a, 'r) res = "('x parse_error + 'a) \<times> 'r http_parser"
type_synonym ('x, 'r) more_fn = "'r http_parser \<Rightarrow> ('x, nat, 'r) res"
type_synonym ('x, 'r) line_fn = "u8 list \<Rightarrow> 'r http_parser \<Rightarrow> ('x, str, 'r) res option"
type_synonym ('x, 'r) ex = "nat \<Rightarrow> 'r http_parser \<Rightarrow> ('x, u8 list, 'r) res outcome option"

definition read_more :: "('e \<Rightarrow> 'x parse_error) \<Rightarrow> ('e, 'r) rd \<Rightarrow> ('x, 'r) more_fn" where
  "read_more conv rd p =
     (if p_len p = length (p_buf p) \<and> MAX_BUF_SIZE \<le> length (p_buf p) then (Inl PE_HeadersTooLarge, p)
      else (let p = (if p_len p = length (p_buf p)
                     then p\<lparr>p_buf := p_buf p @ replicate (length (p_buf p) * 2 - length (p_buf p)) 0\<rparr> else p)
            in case rd (length (p_buf p) - p_len p) (p_reader p) of
                 (Inl e, r) \<Rightarrow> (Inl (conv e), p\<lparr>p_reader := r\<rparr>)
               | (Inr bs, r) \<Rightarrow>
                   (Inr (length bs), p\<lparr>p_reader := r, p_buf := slice_write (p_buf p) (p_len p) bs,
                                      p_len := p_len p + length bs\<rparr>)))"

partial_function (option) parse_headers ::
  "('h, 'm, 'u, 'y) http_crate_scheme \<Rightarrow> ('x, 'r) more_fn \<Rightarrow> 'r http_parser \<Rightarrow> ('x, ('h, 'm) head option, 'r) res option" where
  "parse_headers C mr p =
     (case hp_parse C MAX_HEADERS (p_content p) of
        Inl e \<Rightarrow> Some (Inl (ParseError_from_httparse e), p)
      | Inr (Complete header_len req) \<Rightarrow>
          Some (case complete_head C header_len req of Inl e \<Rightarrow> Inl e | Inr parsed \<Rightarrow> Inr (Some parsed), p)
      | Inr Partial \<Rightarrow>
          (case mr p of
             (Inl e, p') \<Rightarrow> Some (Inl e, p')
           | (Inr n, p') \<Rightarrow>
               if n = 0 then Some (if p_len p = 0 then Inr None else Inl PE_ConnectionClosed, p')
               else parse_headers C mr p'))"

partial_function (option) read_line ::
  "('x, 'r) more_fn \<Rightarrow> ('x, 'r) line_fn" where
  "read_line mr line p =
     (let pos = length (takeWhile (\<lambda>b. b \<noteq> 10) (p_content p))
      in if pos < length (p_content p)
         then (let line = line @ take pos (p_content p);
                   line = (if line \<noteq> [] \<and> last line = 13 then butlast line else line)
               in Some (Inr (from_utf8_lossy line), p_consume (pos + 1) p))
         else (case mr (p\<lparr>p_len := 0\<rparr>) of
                 (Inl e, p') \<Rightarrow> Some (Inl e, p')
               | (Inr n, p') \<Rightarrow>
                   if n = 0 then Some (Inl PE_ConnectionClosed, p')
                   else read_line mr (line @ p_content p) p'))"

partial_function (option) read_chunked_body ::
  "('x, 'r) line_fn \<Rightarrow> ('x, 'r) ex \<Rightarrow> u8 list \<Rightarrow> 'r http_parser \<Rightarrow> ('x, u8 list, 'r) res outcome option" where
  "read_chunked_body line ex body p =
     line [] p \<bind> (\<lambda>(size_line, p).
       case size_line of
         Inl e \<Rightarrow> Some (Done (Inl e, p))
       | Inr size_line \<Rightarrow>
           (case from_str_radix usize_max 16 (trim (split_first 59 size_line)) of
              None \<Rightarrow> Some (Done (Inl PE_InvalidContentLength, p))
            | Some chunk_size \<Rightarrow>
                if chunk_size = 0
                then line [] p \<bind> (\<lambda>(l, p).
                       Some (Done (case l of Inl e \<Rightarrow> Inl e | Inr _ \<Rightarrow> Inr body, p)))
                else ex chunk_size p \<bind> (\<lambda>chunk.
                       case chunk of
                         Panic m \<Rightarrow> Some (Panic m)
                       | Done (Inl e, p) \<Rightarrow> Some (Done (Inl e, p))
                       | Done (Inr chunk, p) \<Rightarrow>
                          line [] p \<bind> (\<lambda>(l, p).
                            case l of
                              Inl e \<Rightarrow> Some (Done (Inl e, p))
                            | Inr _ \<Rightarrow> read_chunked_body line ex (body @ chunk) p))))"

definition read_body ::
  "('h, 'm, 'u, 'y) http_crate_scheme \<Rightarrow> ('r http_parser \<Rightarrow> ('x, u8 list, 'r) res outcome option) \<Rightarrow> ('x, 'r) ex \<Rightarrow> 'h
     \<Rightarrow> 'r http_parser \<Rightarrow> ('x, u8 list, 'r) res outcome option" where
  "read_body C chunked fixed headers p =
     (if is_chunked C headers then chunked p
      else (case get_content_length C headers of
              Some content_length \<Rightarrow> fixed content_length p
            | None \<Rightarrow> Some (Done (Inr [], p))))"

definition parse_request ::
  "('h, 'm, 'u, 'y) http_crate_scheme \<Rightarrow> ('r http_parser \<Rightarrow> ('x, ('h, 'm) head option, 'r) res option)
     \<Rightarrow> ('h \<Rightarrow> 'r http_parser \<Rightarrow> ('x, u8 list, 'r) res outcome option) \<Rightarrow> 'r http_parser
     \<Rightarrow> ('x, ('h, 'm, 'u) request option, 'r) res outcome option" where
  "parse_request C hdrs body p =
     hdrs p \<bind> (\<lambda>(parsed, p).
       case parsed of
         Inl e \<Rightarrow> Some (Done (Inl e, p))
       | Inr None \<Rightarrow> Some (Done (Inr None, p))
       | Inr (Some (method, uri, version, headers, header_len)) \<Rightarrow>
           body headers (p_consume header_len p) \<bind> (\<lambda>r.
             Some (outcome_bind r (\<lambda>(body, p).
               Done (case body of
                       Inl e \<Rightarrow> Inl e
                     | Inr body \<Rightarrow>
                         (case build_request C method uri version headers body of
                            Inl e \<Rightarrow> Inl e | Inr request \<Rightarrow> Inr (Some request)), p)))))"

subsection \<open>HttpParser\<close>

text \<open>The reader is any \<open>AsyncRead + AsyncWrite\<close>; tokio adds \<open>read_exact\<close> and \<open>write_all\<close>.\<close>

record 'r async_io =
  io_read :: "nat \<Rightarrow> 'r \<Rightarrow> (io_error + u8 list) \<times> 'r"
  io_read_exact :: "nat \<Rightarrow> 'r \<Rightarrow> (io_error + u8 list) \<times> 'r"
  io_write_all :: "u8 list \<Rightarrow> 'r \<Rightarrow> (io_error + unit) \<times> 'r"
  io_flush :: "'r \<Rightarrow> (io_error + unit) \<times> 'r"

definition HttpParser_new :: "'r \<Rightarrow> 'r http_parser" where
  "HttpParser_new reader = \<lparr>p_reader = reader, p_buf = replicate INITIAL_BUF_SIZE 0, p_len = 0\<rparr>"

definition HttpParser_read_more :: "('r, 'z) async_io_scheme \<Rightarrow> (io_error, 'r) more_fn" where
  "HttpParser_read_more io = read_more ParseError_from_io (io_read io)"

definition HttpParser_parse_headers ::
  "('h, 'm, 'u, 'y) http_crate_scheme \<Rightarrow> ('r, 'z) async_io_scheme \<Rightarrow> 'r http_parser
     \<Rightarrow> (io_error, ('h, 'm) head option, 'r) res option" where
  "HttpParser_parse_headers C io = parse_headers C (HttpParser_read_more io)"

definition HttpParser_read_line :: "('r, 'z) async_io_scheme \<Rightarrow> (io_error, 'r) line_fn" where
  "HttpParser_read_line io = read_line (HttpParser_read_more io)"

definition HttpParser_read_exact ::
  "('r, 'z) async_io_scheme \<Rightarrow> (io_error, 'r) ex" where
  "HttpParser_read_exact io n p =
     (if isize_max < n then Some (Panic ''capacity overflow'')
      else (let from_buf = min (p_len p) n;
                data = take from_buf (p_buf p);
                p = p_consume from_buf p
            in if length data < n
               then (case io_read_exact io (n - from_buf) (p_reader p) of
                       (Inl e, r) \<Rightarrow> Some (Done (Inl (ParseError_from_io e), p\<lparr>p_reader := r\<rparr>))
                     | (Inr bs, r) \<Rightarrow> Some (Done (Inr (slice_write (data @ replicate (n - length data) 0) from_buf bs), p\<lparr>p_reader := r\<rparr>)))
               else Some (Done (Inr data, p))))"

definition HttpParser_read_fixed_body ::
  "('r, 'z) async_io_scheme \<Rightarrow> (io_error, 'r) ex" where
  "HttpParser_read_fixed_body io n p =
     (if isize_max < n then Some (Panic ''capacity overflow'')
      else (let from_buf = min (p_len p) n;
                body = take from_buf (p_buf p);
                p = p_consume from_buf p
            in if length body < n
               then (case io_read_exact io (n - from_buf) (p_reader p) of
                       (Inl e, r) \<Rightarrow> Some (Done (Inl (ParseError_from_io e), p\<lparr>p_reader := r\<rparr>))
                     | (Inr bs, r) \<Rightarrow> Some (Done (Inr (slice_write (body @ replicate (n - length body) 0) from_buf bs), p\<lparr>p_reader := r\<rparr>)))
               else Some (Done (Inr body, p))))"

definition HttpParser_read_chunked_body ::
  "('r, 'z) async_io_scheme \<Rightarrow> 'r http_parser \<Rightarrow> (io_error, u8 list, 'r) res outcome option" where
  "HttpParser_read_chunked_body io = read_chunked_body (HttpParser_read_line io) (HttpParser_read_exact io) []"

definition HttpParser_read_body ::
  "('h, 'm, 'u, 'y) http_crate_scheme \<Rightarrow> ('r, 'z) async_io_scheme \<Rightarrow> 'h \<Rightarrow> 'r http_parser
     \<Rightarrow> (io_error, u8 list, 'r) res outcome option" where
  "HttpParser_read_body C io = read_body C (HttpParser_read_chunked_body io) (HttpParser_read_fixed_body io)"

definition HttpParser_parse_request ::
  "('h, 'm, 'u, 'y) http_crate_scheme \<Rightarrow> ('r, 'z) async_io_scheme \<Rightarrow> 'r http_parser
     \<Rightarrow> (io_error, ('h, 'm, 'u) request option, 'r) res outcome option" where
  "HttpParser_parse_request C io =
     parse_request C (HttpParser_parse_headers C io) (HttpParser_read_body C io)"

subsection \<open>KimojioHttpParser\<close>

text \<open>
  \<open>rd\<close> is \<open>KimojioAsyncRead::try_read\<close>, which already fails with a \<open>ParseError\<close>. The reader that the source passes to
  every call is the field \<open>p_reader\<close>.
\<close>

type_synonym 'r try_read = "(string parse_error, 'r) rd"

definition KimojioHttpParser_new :: "'r \<Rightarrow> 'r http_parser" where
  "KimojioHttpParser_new reader = \<lparr>p_reader = reader, p_buf = replicate INITIAL_BUF_SIZE 0, p_len = 0\<rparr>"

definition KimojioHttpParser_reset :: "'r http_parser \<Rightarrow> 'r http_parser" where
  "KimojioHttpParser_reset p = p\<lparr>p_len := 0\<rparr>"

definition KimojioHttpParser_read_more :: "'r try_read \<Rightarrow> (string, 'r) more_fn" where
  "KimojioHttpParser_read_more rd = read_more (\<lambda>e. e) rd"

definition KimojioHttpParser_parse_headers ::
  "('h, 'm, 'u, 'y) http_crate_scheme \<Rightarrow> 'r try_read \<Rightarrow> 'r http_parser \<Rightarrow> (string, ('h, 'm) head option, 'r) res option" where
  "KimojioHttpParser_parse_headers C rd = parse_headers C (KimojioHttpParser_read_more rd)"

definition KimojioHttpParser_read_line :: "'r try_read \<Rightarrow> (string, 'r) line_fn" where
  "KimojioHttpParser_read_line rd = read_line (KimojioHttpParser_read_more rd)"

text \<open>The loop that fills \<open>data\<close> up to \<open>n\<close> bytes with reads of at most 8192.\<close>

partial_function (option) read_fill_loop ::
  "'r try_read \<Rightarrow> nat \<Rightarrow> u8 list \<Rightarrow> 'r http_parser \<Rightarrow> (string, u8 list, 'r) res option" where
  "read_fill_loop rd n data p =
     (if length data < n
      then (case rd (min (n - length data) 8192) (p_reader p) of
              (Inl e, r) \<Rightarrow> Some (Inl e, p\<lparr>p_reader := r\<rparr>)
            | (Inr chunk, r) \<Rightarrow>
                if length chunk = 0 then Some (Inl PE_ConnectionClosed, p\<lparr>p_reader := r\<rparr>)
                else read_fill_loop rd n (data @ chunk) (p\<lparr>p_reader := r\<rparr>))
      else Some (Inr data, p))"

definition KimojioHttpParser_read_exact :: "'r try_read \<Rightarrow> (string, 'r) ex" where
  "KimojioHttpParser_read_exact rd n p =
     (if isize_max < n then Some (Panic ''capacity overflow'')
      else (let from_buf = min (p_len p) n
            in read_fill_loop rd n (take from_buf (p_buf p)) (p_consume from_buf p) \<bind> (\<lambda>x. Some (Done x))))"

definition KimojioHttpParser_read_fixed_body :: "'r try_read \<Rightarrow> (string, 'r) ex" where
  "KimojioHttpParser_read_fixed_body rd n p =
     (if isize_max < n then Some (Panic ''capacity overflow'')
      else (let from_buf = min (p_len p) n
            in read_fill_loop rd n (take from_buf (p_buf p)) (p_consume from_buf p) \<bind> (\<lambda>x. Some (Done x))))"

definition KimojioHttpParser_read_chunked_body ::
  "'r try_read \<Rightarrow> 'r http_parser \<Rightarrow> (string, u8 list, 'r) res outcome option" where
  "KimojioHttpParser_read_chunked_body rd =
     read_chunked_body (KimojioHttpParser_read_line rd) (KimojioHttpParser_read_exact rd) []"

definition KimojioHttpParser_read_body ::
  "('h, 'm, 'u, 'y) http_crate_scheme \<Rightarrow> 'r try_read \<Rightarrow> 'h \<Rightarrow> 'r http_parser \<Rightarrow> (string, u8 list, 'r) res outcome option" where
  "KimojioHttpParser_read_body C rd =
     read_body C (KimojioHttpParser_read_chunked_body rd) (KimojioHttpParser_read_fixed_body rd)"

definition KimojioHttpParser_parse_request ::
  "('h, 'm, 'u, 'y) http_crate_scheme \<Rightarrow> 'r try_read \<Rightarrow> 'r http_parser
     \<Rightarrow> (string, ('h, 'm, 'u) request option, 'r) res outcome option" where
  "KimojioHttpParser_parse_request C rd =
     parse_request C (KimojioHttpParser_parse_headers C rd) (KimojioHttpParser_read_body C rd)"

end
