(* ===== verification/Http_Split.thy ===== *)
theory Http_Split
  imports Http_Parser
begin

section \<open>Requests do not depend on how the bytes arrive\<close>

text \<open>
  A reference parser on the whole byte sequence, and the proof that the parsers compute it however
  the reader cuts the sequence into pieces.
\<close>

subsection \<open>Readers\<close>

text \<open>
  \<open>src r\<close> is what reader \<open>r\<close> will still deliver: bytes, and then the end of the stream or an error. A read
  of at least one byte delivers a beginning of the bytes, which is empty only at the end.
\<close>

locale byte_source =
  fixes rd :: "nat \<Rightarrow> 'r \<Rightarrow> ('e + u8 list) \<times> 'r" and src :: "'r \<Rightarrow> u8 list \<times> 'e option"
  assumes read_bytes: "0 < n \<Longrightarrow> rd n r = (Inr bs, r') \<Longrightarrow>
      length bs \<le> n \<and> src r = (bs @ fst (src r'), snd (src r')) \<and> (bs = [] \<longrightarrow> src r = ([], None))"
    and read_error: "0 < n \<Longrightarrow> rd n r = (Inl e, r') \<Longrightarrow> src r = ([], Some e)"
begin

lemma read_cases:
  assumes "0 < n"
  obtains (data) bs r' where "rd n r = (Inr bs, r')" "bs \<noteq> []" "length bs \<le> n" "fst (src r) = bs @ fst (src r')"
      "snd (src r') = snd (src r)"
  | (eof) r' where "rd n r = (Inr [], r')" "src r = ([], None)" "src r' = ([], None)"
  | (err) e r' where "rd n r = (Inl e, r')" "src r = ([], Some e)"
proof (cases "rd n r")
  case (Pair x r')
  show thesis
  proof (cases x)
    case (Inl e)
    with Pair show thesis using read_error [OF assms] err by blast
  next
    case (Inr bs)
    with Pair have rd: "rd n r = (Inr bs, r')" by simp
    note b = read_bytes [OF assms rd]
    show thesis
    proof (cases "bs = []")
      case True
      with b rd show thesis by (intro eof [of r']) (auto simp: prod_eq_iff)
    next
      case False
      with b rd show thesis by (intro data [of bs r']) auto
    qed
  qed
qed

end

text \<open>\<open>read_exact\<close> delivers as many bytes as it is asked for, or fails with \<open>UnexpectedEof\<close> when there are fewer.\<close>

locale exact_source = byte_source rd src for rd :: "nat \<Rightarrow> 'r \<Rightarrow> (io_error + u8 list) \<times> 'r" and src +
  fixes rdx :: "nat \<Rightarrow> 'r \<Rightarrow> (io_error + u8 list) \<times> 'r"
  assumes exact_enough: "n \<le> length (fst (src r)) \<Longrightarrow>
      \<exists>r'. rdx n r = (Inr (take n (fst (src r))), r') \<and> src r' = (drop n (fst (src r)), snd (src r))"
    and exact_short: "length (fst (src r)) < n \<Longrightarrow>
      \<exists>e r'. rdx n r = (Inl e, r') \<and> (case snd (src r) of Some e' \<Rightarrow> e = e' | None \<Rightarrow> io_kind e = UnexpectedEof)"

subsection \<open>The reference\<close>

text \<open>\<open>stop\<close> is the error that the end of the data means to the parser.\<close>

definition end_error :: "('e \<Rightarrow> 'x parse_error) \<Rightarrow> 'e option \<Rightarrow> 'x parse_error" where
  "end_error conv fin = (case fin of None \<Rightarrow> PE_ConnectionClosed | Some e \<Rightarrow> conv e)"

definition strip_cr :: "u8 list \<Rightarrow> u8 list" where
  "strip_cr line = (if line \<noteq> [] \<and> last line = 13 then butlast line else line)"

definition ref_line :: "'x parse_error \<Rightarrow> u8 list \<Rightarrow> ('x parse_error + str) \<times> u8 list" where
  "ref_line stop D =
     (let line = takeWhile (\<lambda>b. b \<noteq> 10) D
      in if length line < length D then (Inr (from_utf8_lossy (strip_cr line)), drop (length line + 1) D)
         else (Inl stop, []))"

definition ref_exact :: "'x parse_error \<Rightarrow> nat \<Rightarrow> u8 list \<Rightarrow> (('x parse_error + u8 list) \<times> u8 list) outcome" where
  "ref_exact stop n D =
     (if isize_max < n then Panic ''capacity overflow''
      else if n \<le> length D then Done (Inr (take n D), drop n D) else Done (Inl stop, []))"

lemma ref_line_shrinks: "ref_line stop D = (Inr l, D') \<Longrightarrow> length D' < length D"
  by (auto simp: ref_line_def Let_def split: if_splits)

lemma ref_exact_shrinks: "ref_exact stop n D = Done (Inr bs, D') \<Longrightarrow> length D' \<le> length D"
  by (auto simp: ref_exact_def split: if_splits)

lemma ref_chunk_shrinks:
  assumes "(Inr l, D1) = ref_line stop D" and "ref_exact stop n D1 = Done (Inr c, D2)" and "(Inr l', D3) = ref_line stop D2"
  shows "length D3 < length D"
  using ref_line_shrinks [OF assms(1) [symmetric]] ref_exact_shrinks [OF assms(2)] ref_line_shrinks [OF assms(3) [symmetric]]
  by simp

function ref_chunked :: "'x parse_error \<Rightarrow> u8 list \<Rightarrow> u8 list \<Rightarrow> (('x parse_error + u8 list) \<times> u8 list) outcome" where
  "ref_chunked stop body D =
     (case ref_line stop D of
        (Inl e, D) \<Rightarrow> Done (Inl e, D)
      | (Inr size_line, D1) \<Rightarrow>
          (case from_str_radix usize_max 16 (trim (split_first 59 size_line)) of
             None \<Rightarrow> Done (Inl PE_InvalidContentLength, D1)
           | Some n \<Rightarrow>
               if n = 0 then Done (case ref_line stop D1 of (Inl e, D) \<Rightarrow> (Inl e, D) | (Inr _, D) \<Rightarrow> (Inr body, D))
               else (case ref_exact stop n D1 of
                       Panic m \<Rightarrow> Panic m
                     | Done (Inl e, D) \<Rightarrow> Done (Inl e, D)
                     | Done (Inr chunk, D2) \<Rightarrow>
                         (case ref_line stop D2 of
                            (Inl e, D) \<Rightarrow> Done (Inl e, D)
                          | (Inr _, D3) \<Rightarrow> ref_chunked stop (body @ chunk) D3))))"
  by pat_completeness auto
termination
  by (relation "measure (\<lambda>(stop, body, D). length D)")
    (auto intro: ref_chunk_shrinks)

declare ref_chunked.simps [simp del]

definition ref_body ::
  "('h, 'm, 'u, 'y) http_crate_scheme \<Rightarrow> 'x parse_error \<Rightarrow> 'h \<Rightarrow> u8 list \<Rightarrow> (('x parse_error + u8 list) \<times> u8 list) outcome" where
  "ref_body C stop headers D =
     (if is_chunked C headers then ref_chunked stop [] D
      else (case get_content_length C headers of
              Some n \<Rightarrow> ref_exact stop n D
            | None \<Rightarrow> Done (Inr [], D)))"

definition ref_head :: "('h, 'm, 'u, 'y) http_crate_scheme \<Rightarrow> ('e \<Rightarrow> 'x parse_error) \<Rightarrow> 'e option \<Rightarrow> u8 list \<Rightarrow> 'x parse_error + ('h, 'm) head option" where
  "ref_head C conv fin D =
     (case hp_parse C MAX_HEADERS (take MAX_BUF_SIZE D) of
        Inl e \<Rightarrow> Inl (PE_Parse e)
      | Inr (Complete n req) \<Rightarrow> (case complete_head C n req of Inl e \<Rightarrow> Inl e | Inr h \<Rightarrow> Inr (Some h))
      | Inr Partial \<Rightarrow>
          if MAX_BUF_SIZE \<le> length D then Inl PE_HeadersTooLarge
          else if D = [] \<and> fin = None then Inr None else Inl (end_error conv fin))"

definition ref_request ::
  "('h, 'm, 'u, 'y) http_crate_scheme \<Rightarrow> ('e \<Rightarrow> 'x parse_error) \<Rightarrow> 'e option \<Rightarrow> u8 list
     \<Rightarrow> (('x parse_error + ('h, 'm, 'u) request option) \<times> u8 list) outcome" where
  "ref_request C conv fin D =
     (case ref_head C conv fin D of
        Inl e \<Rightarrow> Done (Inl e, D)
      | Inr None \<Rightarrow> Done (Inr None, D)
      | Inr (Some (method, uri, version, headers, n)) \<Rightarrow>
          outcome_bind (ref_body C (end_error conv fin) headers (drop n D)) (\<lambda>(body, D').
            Done (case body of
                    Inl e \<Rightarrow> Inl e
                  | Inr body \<Rightarrow> (case build_request C method uri version headers body of
                                   Inl e \<Rightarrow> Inl e | Inr request \<Rightarrow> Inr (Some request)), D')))"

text \<open>
  What \<open>httparse\<close> promises: it reads from left to right, so that an answer does not change when more bytes
  follow, and a complete head lies within the bytes it was given.
\<close>

definition httparse_law :: "('h, 'm, 'u, 'y) http_crate_scheme \<Rightarrow> bool" where
  "httparse_law C \<longleftrightarrow>
     (\<forall>bs cs e. hp_parse C MAX_HEADERS bs = Inl e \<longrightarrow> hp_parse C MAX_HEADERS (bs @ cs) = Inl e)
     \<and> (\<forall>bs cs n req. hp_parse C MAX_HEADERS bs = Inr (Complete n req) \<longrightarrow>
          0 < n \<and> n \<le> length bs \<and> hp_parse C MAX_HEADERS (bs @ cs) = Inr (Complete n req))"

subsection \<open>The buffer\<close>

definition parser_ok :: "'r http_parser \<Rightarrow> bool" where
  "parser_ok p \<longleftrightarrow> p_len p \<le> length (p_buf p) \<and> (\<exists>k \<le> 6. length (p_buf p) = 1024 * 2 ^ k)"

definition p_pending :: "('r \<Rightarrow> u8 list \<times> 'e option) \<Rightarrow> 'r http_parser \<Rightarrow> u8 list" where
  "p_pending src p = p_content p @ fst (src (p_reader p))"

lemma new_ok [simp]: "parser_ok (HttpParser_new r)" "p_pending src (HttpParser_new r) = fst (src r)"
  "p_reader (HttpParser_new r) = r"
  by (auto simp: parser_ok_def HttpParser_new_def INITIAL_BUF_SIZE_def p_pending_def p_content_def intro: exI [of _ 0])

lemma length_content [simp]: "parser_ok p \<Longrightarrow> length (p_content p) = p_len p"
  by (simp add: parser_ok_def p_content_def)

lemma ok_max: "parser_ok p \<Longrightarrow> length (p_buf p) \<le> MAX_BUF_SIZE"
proof -
  assume "parser_ok p"
  then obtain k where "k \<le> 6" "length (p_buf p) = 1024 * 2 ^ k" by (auto simp: parser_ok_def)
  moreover from this have "(2 :: nat) ^ k \<le> 2 ^ 6" by (intro power_increasing) simp_all
  ultimately show ?thesis by (simp add: MAX_BUF_SIZE_def)
qed

lemma consume_content:
  assumes "parser_ok p" and "n \<le> p_len p"
  shows "p_content (p_consume n p) = drop n (p_content p)" and "parser_ok (p_consume n p)"
    and "p_reader (p_consume n p) = p_reader p" and "p_len (p_consume n p) = p_len p - n"
  using assms by (auto simp: p_consume_def p_content_def parser_ok_def subslice_def slice_write_def drop_take min_def)

lemma consume_pending:
  assumes "parser_ok p" and "n \<le> p_len p"
  shows "p_pending src (p_consume n p) = drop n (p_pending src p)"
  using assms by (simp add: p_pending_def consume_content)

lemma empty_ok: "parser_ok p \<Longrightarrow> parser_ok (p\<lparr>p_len := 0\<rparr>)" "p_content (p\<lparr>p_len := 0\<rparr>) = []"
  by (simp_all add: parser_ok_def p_content_def)

text \<open>The buffer after \<open>read_more\<close> has made room and stored \<open>bs\<close>.\<close>

definition p_grown :: "'r http_parser \<Rightarrow> u8 list" where
  "p_grown p = (if p_len p = length (p_buf p) then p_buf p @ replicate (length (p_buf p)) 0 else p_buf p)"

lemma grown:
  assumes "parser_ok p" and "\<not> (p_len p = length (p_buf p) \<and> MAX_BUF_SIZE \<le> length (p_buf p))"
  shows "p_len p < length (p_grown p)" and "\<exists>k \<le> 6. length (p_grown p) = 1024 * 2 ^ k"
    and "take (p_len p) (p_grown p) = p_content p" and "p_len p < MAX_BUF_SIZE"
proof -
  obtain k where k: "k \<le> 6" "length (p_buf p) = 1024 * 2 ^ k" and le: "p_len p \<le> length (p_buf p)"
    using assms(1) by (auto simp: parser_ok_def)
  have pos: "0 < length (p_buf p)" by (simp add: k(2))
  show "p_len p < length (p_grown p)" using le pos by (auto simp: p_grown_def)
  show "take (p_len p) (p_grown p) = p_content p" using le by (simp add: p_grown_def p_content_def)
  show "p_len p < MAX_BUF_SIZE" using assms(2) le ok_max [OF assms(1)] by auto
  show "\<exists>k \<le> 6. length (p_grown p) = 1024 * 2 ^ k"
  proof (cases "p_len p = length (p_buf p)")
    case True
    then have "1024 * 2 ^ k < (65536 :: nat)" using assms(2) k(2) by (simp add: MAX_BUF_SIZE_def)
    then have "(2 :: nat) ^ k < 2 ^ 6" by simp
    then have "k < 6" by (rule power_less_imp_less_exp [rotated]) simp
    then show ?thesis using True k by (intro exI [of _ "Suc k"]) (simp add: p_grown_def)
  next
    case False
    then show ?thesis using k by (auto simp: p_grown_def)
  qed
qed

text \<open>What a component that reads from the parser leaves behind when it succeeds.\<close>

definition p_leaves :: "('r \<Rightarrow> u8 list \<times> 'e option) \<Rightarrow> 'e option \<Rightarrow> 'r http_parser \<Rightarrow> u8 list \<Rightarrow> bool" where
  "p_leaves src fin p D \<longleftrightarrow> parser_ok p \<and> p_pending src p = D \<and> snd (src (p_reader p)) = fin"

text \<open>
  The result of a read against that of the reference: the same panic, the same value, and on success the same
  bytes left over.
\<close>

definition p_agrees ::
  "('r \<Rightarrow> u8 list \<times> 'e option) \<Rightarrow> 'e option \<Rightarrow> (('x + 'a) \<times> 'r http_parser) outcome \<Rightarrow> (('x + 'a) \<times> u8 list) outcome \<Rightarrow> bool" where
  "p_agrees src fin got want \<longleftrightarrow>
     (case want of
        Panic m \<Rightarrow> got = Panic m
      | Done (r, D') \<Rightarrow> \<exists>p'. got = Done (r, p') \<and> (isl r \<or> p_leaves src fin p' D'))"

subsection \<open>Reading more\<close>

context byte_source
begin

lemma read_more_eq:
  "read_more conv rd p =
     (if p_len p = length (p_buf p) \<and> MAX_BUF_SIZE \<le> length (p_buf p) then (Inl PE_HeadersTooLarge, p)
      else case rd (length (p_grown p) - p_len p) (p_reader p) of
        (Inl e, r) \<Rightarrow> (Inl (conv e), p\<lparr>p_reader := r, p_buf := p_grown p\<rparr>)
      | (Inr bs, r) \<Rightarrow> (Inr (length bs), p\<lparr>p_reader := r, p_buf := slice_write (p_grown p) (p_len p) bs,
            p_len := p_len p + length bs\<rparr>))"
  by (cases p) (simp add: read_more_def p_grown_def Let_def split: prod.splits sum.splits)

lemma read_more_cases:
  assumes ok: "parser_ok p"
  obtains (full) "read_more conv rd p = (Inl PE_HeadersTooLarge, p)" "p_len p = MAX_BUF_SIZE"
  | (data) n bs p' where "read_more conv rd p = (Inr n, p')" "0 < n" "parser_ok p'" "p_content p' = p_content p @ bs"
      "p_pending src p' = p_pending src p" "snd (src (p_reader p')) = snd (src (p_reader p))"
      "length (fst (src (p_reader p'))) < length (fst (src (p_reader p)))"
  | (eof) p' where "read_more conv rd p = (Inr 0, p')" "src (p_reader p) = ([], None)" "p_len p < MAX_BUF_SIZE"
      "parser_ok p'" "src (p_reader p') = ([], None)" "p_content p' = p_content p"
  | (err) e p' where "read_more conv rd p = (Inl (conv e), p')" "src (p_reader p) = ([], Some e)"
      "p_len p < MAX_BUF_SIZE"
proof (cases "p_len p = length (p_buf p) \<and> MAX_BUF_SIZE \<le> length (p_buf p)")
  case True
  with ok_max [OF ok] show thesis by (intro full) (simp_all add: read_more_eq)
next
  case False
  note g = grown [OF ok False]
  have room: "0 < length (p_grown p) - p_len p" using g(1) by simp
  from read_cases [OF room, of "p_reader p"] show thesis
  proof cases
    case (1 bs r')
    let ?p = "p\<lparr>p_reader := r', p_buf := slice_write (p_grown p) (p_len p) bs, p_len := p_len p + length bs\<rparr>"
    have fits: "p_len p + length bs \<le> length (p_grown p)" using 1(3) g(1) by simp
    have c: "p_content ?p = p_content p @ bs"
      using fits g(3) ok by (simp add: p_content_def slice_write_def parser_ok_def)
    have "parser_ok ?p" using fits g(2) by (simp add: parser_ok_def)
    then show thesis using 1 False c by (intro data [of "length bs" ?p bs]) (simp_all add: read_more_eq p_pending_def)
  next
    case (2 r')
    let ?p = "p\<lparr>p_reader := r', p_buf := slice_write (p_grown p) (p_len p) [], p_len := p_len p + length ([] :: u8 list)\<rparr>"
    have "slice_write (p_grown p) (p_len p) [] = p_grown p" by (simp add: slice_write_def)
    then show thesis using 2 False g by (intro eof [of ?p]) (auto simp: read_more_eq parser_ok_def p_content_def)
  next
    case (3 e r')
    then have "read_more conv rd p = (Inl (conv e), p\<lparr>p_reader := r', p_buf := p_grown p\<rparr>)"
      using False by (auto simp: read_more_eq)
    then show thesis using 3(2) g(4) by (rule err)
  qed
qed

end

subsection \<open>Heads\<close>

lemma complete_head_len: "complete_head C n req = Inr (m, u, v, h, k) \<Longrightarrow> k = n"
  by (auto simp: complete_head_def Let_def split: option.splits sum.splits if_splits)

text \<open>The parser sees a beginning of the data; what it answers there is what it answers on all of it.\<close>

lemma parse_stable:
  assumes law: "httparse_law C" and D: "D = c @ d" and c: "length c \<le> MAX_BUF_SIZE"
    and np: "hp_parse C MAX_HEADERS c \<noteq> Inr Partial"
  shows "hp_parse C MAX_HEADERS (take MAX_BUF_SIZE D) = hp_parse C MAX_HEADERS c"
proof -
  have t: "take MAX_BUF_SIZE D = c @ take (MAX_BUF_SIZE - length c) d" using c by (simp add: D)
  show ?thesis
  proof (cases "hp_parse C MAX_HEADERS c")
    case (Inl e)
    then show ?thesis using law by (simp add: httparse_law_def t)
  next
    case (Inr st)
    then show ?thesis using law np by (cases st) (auto simp: httparse_law_def t)
  qed
qed

context byte_source
begin

lemma parse_headers_ref:
  assumes law: "httparse_law C"
  shows "p_leaves src fin p D \<Longrightarrow>
    \<exists>p'. parse_headers C (read_more conv rd) p = Some (ref_head C conv fin D, p')
      \<and> (isl (ref_head C conv fin D) \<or> p_leaves src fin p' D)
      \<and> (\<forall>m u v h n. ref_head C conv fin D = Inr (Some (m, u, v, h, n)) \<longrightarrow> 0 < n \<and> n \<le> p_len p')"
proof (induction "length (fst (src (p_reader p)))" arbitrary: p rule: less_induct)
  case less
  note ok = less.prems
  then have pok: "parser_ok p" and D: "D = p_content p @ fst (src (p_reader p))" and fin: "snd (src (p_reader p)) = fin"
    by (auto simp: p_leaves_def p_pending_def)
  have c: "length (p_content p) \<le> MAX_BUF_SIZE"
    using pok ok_max [OF pok] by (auto simp: parser_ok_def)
  note eq = parse_headers.simps [of C "read_more conv rd" p]
  show ?case
  proof (cases "hp_parse C MAX_HEADERS (p_content p)")
    case (Inl e)
    then have "ref_head C conv fin D = Inl (PE_Parse e)" using parse_stable [OF law D c] by (simp add: ref_head_def)
    then show ?thesis using Inl eq by (simp add: ParseError_from_httparse_def)
  next
    case (Inr st)
    show ?thesis
    proof (cases st)
      case (Complete n req)
      then have r: "ref_head C conv fin D = (case complete_head C n req of Inl e \<Rightarrow> Inl e | Inr h \<Rightarrow> Inr (Some h))"
        using parse_stable [OF law D c] Inr by (simp add: ref_head_def)
      have "0 < n \<and> n \<le> length (p_content p)" using law Inr Complete unfolding httparse_law_def by blast
      then have "0 < n \<and> n \<le> p_len p" using pok by simp
      then show ?thesis using Inr Complete eq ok r by (auto dest: complete_head_len split: sum.splits)
    next
      case Partial
      have ref_eq: "ref_head C conv fin D = (if MAX_BUF_SIZE \<le> length D then Inl PE_HeadersTooLarge
          else if D = [] \<and> fin = None then Inr None else Inl (end_error conv fin))"
        if "fst (src (p_reader p)) = [] \<or> p_len p = MAX_BUF_SIZE"
        using that Inr Partial D c pok by (auto simp: ref_head_def)
      from pok show ?thesis
      proof (cases rule: read_more_cases [where conv = conv])
        case full
        then show ?thesis using eq Inr Partial ref_eq D pok by simp
      next
        case (data n bs p')
        then have "p_leaves src fin p' D" using ok by (auto simp: p_leaves_def)
        from less.hyps [OF data(7) this] show ?thesis using eq Inr Partial data by simp
      next
        case (eof p')
        then have "D = p_content p" "fin = None" using D fin by auto
        moreover have "p_content p = [] \<longleftrightarrow> p_len p = 0" by (metis length_0_conv length_content pok)
        ultimately show ?thesis using eq Inr Partial eof ref_eq pok
          by (auto simp: end_error_def p_leaves_def p_pending_def)
      next
        case (err e p')
        then have "D = p_content p" "fin = Some e" using D fin by auto
        then show ?thesis using eq Inr Partial err ref_eq pok by (simp add: end_error_def)
      qed
    qed
  qed
qed

subsection \<open>Bodies\<close>

lemma read_line_ref:
  shows "p_leaves src fin p D \<Longrightarrow> 10 \<notin> set line \<Longrightarrow>
    \<exists>got. read_line (read_more conv rd) line p = Some got \<and> p_agrees src fin (Done got) (Done (ref_line (end_error conv fin) (line @ D)))"
proof (induction "length (fst (src (p_reader p)))" arbitrary: p D line rule: less_induct)
  case less
  then have pok: "parser_ok p" and D: "D = p_content p @ fst (src (p_reader p))" and fin: "snd (src (p_reader p)) = fin"
    by (auto simp: p_leaves_def p_pending_def)
  note eq = read_line.simps [of "read_more conv rd" line p]
  let ?c = "p_content p"
  show ?case
  proof (cases "10 \<in> set ?c")
    case True
    let ?t = "takeWhile (\<lambda>b. b \<noteq> 10) ?c"
    have lt: "length ?t < length ?c" using True
      by (metis (mono_tags, lifting) length_takeWhile_le le_neq_implies_less set_takeWhileD takeWhile_eq_take take_all_iff order_refl)
    have tD: "takeWhile (\<lambda>b. b \<noteq> 10) (line @ D) = line @ ?t"
      using less.prems(2) True by (auto simp: D takeWhile_append takeWhile_append1)
    have "ref_line (end_error conv fin) (line @ D) = (Inr (from_utf8_lossy (strip_cr (line @ ?t))), drop (length ?t + 1) D)"
      unfolding ref_line_def tD using lt by (simp add: Let_def D)
    moreover have "p_leaves src fin (p_consume (length ?t + 1) p) (drop (length ?t + 1) D)"
      using consume_content [OF pok, of "length ?t + 1"] consume_pending [OF pok, of "length ?t + 1" src] lt pok fin D
      by (simp add: p_leaves_def p_pending_def)
    moreover have "read_line (read_more conv rd) line p = Some (Inr (from_utf8_lossy (strip_cr (line @ ?t))), p_consume (length ?t + 1) p)"
      using eq lt by (simp add: Let_def strip_cr_def takeWhile_eq_take [symmetric])
    ultimately show ?thesis by (simp add: p_agrees_def)
  next
    case False
    then have t: "takeWhile (\<lambda>b. b \<noteq> 10) ?c = ?c" by (auto simp: takeWhile_eq_all_conv)
    note eq1 = eq [unfolded Let_def t, simplified]
    have D0: "line @ D = (line @ ?c) @ fst (src (p_reader p))" by (simp add: D)
    have none: "ref_line (end_error conv fin) (line @ D) = (Inl (end_error conv fin), [])" if "fst (src (p_reader p)) = []"
    proof -
      have "takeWhile (\<lambda>b. b \<noteq> 10) (line @ D) = line @ D"
        using that False less.prems(2) by (auto simp: D takeWhile_eq_all_conv)
      then show ?thesis by (simp only: ref_line_def Let_def less_irrefl if_False)
    qed
    let ?p = "p\<lparr>p_len := 0\<rparr>"
    have no_full: "p_len ?p \<noteq> MAX_BUF_SIZE" by (simp add: MAX_BUF_SIZE_def)
    from empty_ok(1) [OF pok] show ?thesis
    proof (cases rule: read_more_cases [where conv = conv])
      case full
      with no_full show ?thesis by blast
    next
      case (data n bs p')
      have l: "p_leaves src fin p' (fst (src (p_reader p)))"
        using data(3,5,6) fin by (simp add: p_leaves_def p_pending_def p_content_def)
      have lt: "length (fst (src (p_reader p'))) < length (fst (src (p_reader p)))" using data(7) by simp
      have "10 \<notin> set (line @ ?c)" using False less.prems(2) by simp
      from less.hyps [OF lt l this] show ?thesis using eq1 data(1,2) D0 by simp
    next
      case (eof p')
      then show ?thesis using eq1 none fin by (auto simp: p_agrees_def end_error_def)
    next
      case (err e p')
      then show ?thesis using eq1 none fin by (auto simp: p_agrees_def end_error_def)
    qed
  qed
qed

lemma read_line_refE:
  assumes "p_leaves src fin p D"
  obtains l p' D' where "read_line (read_more conv rd) [] p = Some (l, p')" "ref_line (end_error conv fin) D = (l, D')"
    "isl l \<or> p_leaves src fin p' D'"
proof -
  obtain got where g: "read_line (read_more conv rd) [] p = Some got" "p_agrees src fin (Done got) (Done (ref_line (end_error conv fin) D))"
    using read_line_ref [OF assms, of "[]" conv] by auto
  obtain l D' where r: "ref_line (end_error conv fin) D = (l, D')" by fastforce
  with g(2) obtain p' where "got = (l, p')" "isl l \<or> p_leaves src fin p' D'" by (auto simp: p_agrees_def)
  with g(1) r show thesis by (intro that) simp_all
qed

end

text \<open>The interface of the body readers: reading \<open>n\<close> bytes agrees with the reference.\<close>

locale request_source = byte_source rd src for rd :: "nat \<Rightarrow> 'r \<Rightarrow> ('e + u8 list) \<times> 'r" and src +
  fixes conv :: "'e \<Rightarrow> 'x parse_error" and ex fixed :: "('x, 'r) ex"
  assumes exact: "p_leaves src fin p D \<Longrightarrow> \<exists>got. ex n p = Some got \<and> p_agrees src fin got (ref_exact (end_error conv fin) n D)"
    and fixed_body: "p_leaves src fin p D \<Longrightarrow> \<exists>got. fixed n p = Some got \<and> p_agrees src fin got (ref_exact (end_error conv fin) n D)"
begin

lemma read_chunked_ref:
  shows "p_leaves src fin p D \<Longrightarrow>
    \<exists>got. read_chunked_body (read_line (read_more conv rd)) ex body p = Some got \<and> p_agrees src fin got (ref_chunked (end_error conv fin) body D)"
proof (induction "length D" arbitrary: p D body rule: less_induct)
  case less
  note eq = read_chunked_body.simps [of "read_line (read_more conv rd)" ex body p] and ref = ref_chunked.simps [of "end_error conv fin" body D]
  obtain l p1 D1 where l: "read_line (read_more conv rd) [] p = Some (l, p1)" "ref_line (end_error conv fin) D = (l, D1)"
    "isl l \<or> p_leaves src fin p1 D1" by (rule read_line_refE [OF less.prems])
  show ?case
  proof (cases l)
    case (Inl e)
    then show ?thesis using eq ref l by (simp add: p_agrees_def)
  next
    case (Inr size_line)
    with l(3) have p1: "p_leaves src fin p1 D1" by simp
    show ?thesis
    proof (cases "from_str_radix usize_max 16 (trim (split_first 59 size_line))")
      case None
      then show ?thesis using eq ref l Inr by (simp add: p_agrees_def)
    next
      case (Some n)
      obtain t p2 D2 where l1: "read_line (read_more conv rd) [] p1 = Some (t, p2)" "ref_line (end_error conv fin) D1 = (t, D2)"
        "isl t \<or> p_leaves src fin p2 D2" by (rule read_line_refE [OF p1])
      obtain gx where ex: "ex n p1 = Some gx" "p_agrees src fin gx (ref_exact (end_error conv fin) n D1)" using exact [OF p1] by blast
      show ?thesis
      proof (cases "n = 0")
        case True
        then show ?thesis using eq ref l Inr Some l1 by (cases t) (simp_all add: p_agrees_def)
      next
        case nz: False
        show ?thesis
        proof (cases "ref_exact (end_error conv fin) n D1")
          case (Panic m)
          then show ?thesis using eq ref l Inr Some nz ex by (simp add: p_agrees_def)
        next
          case (Done x)
          then obtain c D2 p2 where x: "x = (c, D2)" "ex n p1 = Some (Done (c, p2))" "isl c \<or> p_leaves src fin p2 D2"
            using ex by (cases x) (auto simp: p_agrees_def)
          show ?thesis
          proof (cases c)
            case (Inl e)
            then show ?thesis using eq ref l Inr Some nz Done x by (simp add: p_agrees_def)
          next
            case chunk: (Inr chunk)
            with x(3) have p2: "p_leaves src fin p2 D2" by simp
            obtain t p3 D3 where t: "read_line (read_more conv rd) [] p2 = Some (t, p3)" "ref_line (end_error conv fin) D2 = (t, D3)"
              "isl t \<or> p_leaves src fin p3 D3" by (rule read_line_refE [OF p2])
            have step: "read_chunked_body (read_line (read_more conv rd)) ex body p = (case t of Inl e \<Rightarrow> Some (Done (Inl e, p3))
                | Inr _ \<Rightarrow> read_chunked_body (read_line (read_more conv rd)) ex (body @ chunk) p3)"
              "ref_chunked (end_error conv fin) body D = (case t of Inl e \<Rightarrow> Done (Inl e, D3) | Inr _ \<Rightarrow> ref_chunked (end_error conv fin) (body @ chunk) D3)"
              using eq ref l Inr Some nz Done x chunk t by simp_all
            show ?thesis
            proof (cases t)
              case (Inl e)
              then show ?thesis using step by (simp add: p_agrees_def)
            next
              case tail: (Inr u)
              have "length D3 < length D"
                using ref_chunk_shrinks [of size_line D1 "end_error conv fin" D n chunk D2 u D3] l(2) Inr Done x chunk t(2) tail by simp
              from less.hyps [OF this, of p3 "body @ chunk"] show ?thesis using step t(3) tail by simp
            qed
          qed
        qed
      qed
    qed
  qed
qed

lemma read_body_ref:
  assumes p: "p_leaves src fin p D"
  shows "\<exists>got. read_body C (read_chunked_body (read_line (read_more conv rd)) ex []) fixed headers p = Some got \<and> p_agrees src fin got (ref_body C (end_error conv fin) headers D)"
proof (cases "is_chunked C headers")
  case True
  then show ?thesis using read_chunked_ref [OF p, of "[]"] by (simp add: read_body_def ref_body_def)
next
  case False
  show ?thesis
  proof (cases "get_content_length C headers")
    case None
    with False p show ?thesis by (simp add: read_body_def ref_body_def p_agrees_def)
  next
    case (Some n)
    with False fixed_body [OF p, of n] show ?thesis
      by (simp add: read_body_def ref_body_def)
  qed
qed

lemma parse_request_ref:
  assumes law: "httparse_law C" and p: "p_leaves src fin p D"
  shows "\<exists>got. parse_request C (parse_headers C (read_more conv rd)) (read_body C (read_chunked_body (read_line (read_more conv rd)) ex []) fixed) p = Some got \<and> p_agrees src fin got (ref_request C conv fin D)"
proof -
  obtain p1 where h: "parse_headers C (read_more conv rd) p = Some (ref_head C conv fin D, p1)" "isl (ref_head C conv fin D) \<or> p_leaves src fin p1 D"
    and n: "\<forall>m u v h n. ref_head C conv fin D = Inr (Some (m, u, v, h, n)) \<longrightarrow> 0 < n \<and> n \<le> p_len p1"
    using parse_headers_ref [OF law p, of conv] by (elim exE conjE)
  show ?thesis
  proof (cases "ref_head C conv fin D")
    case (Inl e)
    then show ?thesis using h by (simp add: parse_request_def ref_request_def p_agrees_def)
  next
    case (Inr o1)
    show ?thesis
    proof (cases o1)
      case None
      then show ?thesis using Inr h by (simp add: parse_request_def ref_request_def p_agrees_def)
    next
      case (Some hd)
      obtain m u v hs k where hd: "hd = (m, u, v, hs, k)" by (cases hd)
      have p1: "p_leaves src fin p1 D" and k: "k \<le> p_len p1" using h(2) n Inr Some hd by auto
      then have "p_leaves src fin (p_consume k p1) (drop k D)"
        using consume_content [of p1 k] consume_pending [of p1 k src] by (simp add: p_leaves_def)
      from read_body_ref [OF this, of C hs] obtain got where g: "read_body C (read_chunked_body (read_line (read_more conv rd)) ex []) fixed hs (p_consume k p1) = Some got"
        "p_agrees src fin got (ref_body C (end_error conv fin) hs (drop k D))" by (elim exE conjE)
      have eq: "parse_request C (parse_headers C (read_more conv rd)) (read_body C (read_chunked_body (read_line (read_more conv rd)) ex []) fixed) p = Some (outcome_bind got (\<lambda>(body, p). Done (case body of Inl e \<Rightarrow> Inl e
          | Inr body \<Rightarrow> (case build_request C m u v hs body of Inl e \<Rightarrow> Inl e | Inr request \<Rightarrow> Inr (Some request)), p)))"
        "ref_request C conv fin D = outcome_bind (ref_body C (end_error conv fin) hs (drop k D)) (\<lambda>(body, D'). Done (case body of Inl e \<Rightarrow> Inl e
          | Inr body \<Rightarrow> (case build_request C m u v hs body of Inl e \<Rightarrow> Inl e | Inr request \<Rightarrow> Inr (Some request)), D'))"
        using Inr Some hd h(1) g(1) by (simp_all add: parse_request_def ref_request_def)
      show ?thesis
      proof (cases "ref_body C (end_error conv fin) hs (drop k D)")
        case (Panic msg)
        then show ?thesis using eq g(2) by (simp add: p_agrees_def)
      next
        case (Done x)
        obtain b D2 where x: "x = (b, D2)" by (cases x)
        with g(2) Done obtain p2 where "got = Done (b, p2)" "isl b \<or> p_leaves src fin p2 D2" by (auto simp: p_agrees_def)
        then show ?thesis using eq Done x by (cases b) (auto simp: p_agrees_def split: sum.split)
      qed
    qed
  qed
qed

end

end
