(* ===== verification/Http_Sim.thy ===== *)
theory Http_Sim
  imports Http_Split
begin

section \<open>Readers, writers and crates for the witnesses\<close>

text \<open>
  The in-memory reader and writer of the tests of the server for kimojio, a stream that delivers its bytes in
  given pieces, and instances of the crates \<open>http\<close> and \<open>httparse\<close> with which the hypotheses hold.
\<close>

subsection \<open>TestReader and TestWriter (kimojio\_server.rs)\<close>

record test_reader =
  tr_data :: "u8 list"
  tr_pos :: nat

definition TestReader_new :: "u8 list \<Rightarrow> test_reader" where
  "TestReader_new data = \<lparr>tr_data = data, tr_pos = 0\<rparr>"

definition TestReader_try_read :: "nat \<Rightarrow> test_reader \<Rightarrow> (string parse_error + u8 list) \<times> test_reader" where
  "TestReader_try_read n r =
     (if length (tr_data r) \<le> tr_pos r then (Inr [], r)
      else (let remaining = drop (tr_pos r) (tr_data r); to_read = min (length remaining) n
            in (Inr (take to_read remaining), r\<lparr>tr_pos := tr_pos r + to_read\<rparr>)))"

definition TestReader_src :: "test_reader \<Rightarrow> u8 list \<times> string parse_error option" where
  "TestReader_src r = (drop (tr_pos r) (tr_data r), None)"

interpretation test_reader: byte_source TestReader_try_read TestReader_src
proof
  have split: "drop k xs = take n (drop k xs) @ drop (k + n) xs" for k n and xs :: "u8 list"
    by (metis append_take_drop_id drop_drop add.commute)
  fix n r bs r'
  assume "0 < (n :: nat)" and "TestReader_try_read n r = (Inr bs, r')"
  then show "length bs \<le> n \<and> TestReader_src r = (bs @ fst (TestReader_src r'), snd (TestReader_src r'))
      \<and> (bs = [] \<longrightarrow> TestReader_src r = ([], None))"
    by (auto simp: TestReader_try_read_def TestReader_src_def Let_def min_def split [symmetric] split: if_splits)
qed (auto simp: TestReader_try_read_def Let_def split: if_splits)

record test_writer =
  tw_data :: "u8 list"

definition TestWriter_new :: test_writer where
  "TestWriter_new = \<lparr>tw_data = []\<rparr>"

definition TestWriter_write_all :: "u8 list \<Rightarrow> test_writer \<Rightarrow> (string parse_error + unit) \<times> test_writer" where
  "TestWriter_write_all buf w = (Inr (), w\<lparr>tw_data := tw_data w @ buf\<rparr>)"

subsection \<open>A stream that delivers given pieces\<close>

text \<open>\<open>seg_in\<close> is the list of the pieces to come, \<open>seg_end\<close> what follows them, \<open>seg_out\<close> what has been written.\<close>

record seg_stream =
  seg_in :: "u8 list list"
  seg_end :: "io_error option"
  seg_out :: "u8 list"

fun seg_take :: "nat \<Rightarrow> u8 list list \<Rightarrow> u8 list \<times> u8 list list" where
  "seg_take n [] = ([], [])"
| "seg_take n (x # xs) = (if x = [] then seg_take n xs else (take n x, drop n x # xs))"

definition seg_read :: "nat \<Rightarrow> seg_stream \<Rightarrow> (io_error + u8 list) \<times> seg_stream" where
  "seg_read n r =
     (case seg_take n (seg_in r) of
        ([], xs) \<Rightarrow> (case seg_end r of None \<Rightarrow> Inr [] | Some e \<Rightarrow> Inl e, r\<lparr>seg_in := xs\<rparr>)
      | (bs, xs) \<Rightarrow> (Inr bs, r\<lparr>seg_in := xs\<rparr>))"

definition seg_read_exact :: "nat \<Rightarrow> seg_stream \<Rightarrow> (io_error + u8 list) \<times> seg_stream" where
  "seg_read_exact n r =
     (let bs = concat (seg_in r)
      in if n \<le> length bs then (Inr (take n bs), r\<lparr>seg_in := [drop n bs]\<rparr>)
         else (Inl (case seg_end r of None \<Rightarrow> IoError UnexpectedEof ''early eof'' | Some e \<Rightarrow> e), r\<lparr>seg_in := []\<rparr>))"

definition seg_io :: "seg_stream async_io" where
  "seg_io = \<lparr>io_read = seg_read, io_read_exact = seg_read_exact,
     io_write_all = (\<lambda>bs r. (Inr (), r\<lparr>seg_out := seg_out r @ bs\<rparr>)), io_flush = (\<lambda>r. (Inr (), r))\<rparr>"

definition seg_src :: "seg_stream \<Rightarrow> u8 list \<times> io_error option" where
  "seg_src r = (concat (seg_in r), seg_end r)"

lemma seg_take_cases:
  "0 < n \<Longrightarrow> seg_take n xs = (bs, xs') \<Longrightarrow> length bs \<le> n \<and> concat xs = bs @ concat xs' \<and> (bs = [] \<longrightarrow> concat xs = [] \<and> xs' = [])"
  by (induction n xs rule: seg_take.induct) (auto split: if_splits)

interpretation seg: exact_source "io_read seg_io" seg_src "io_read_exact seg_io"
proof
  fix n r bs r'
  assume n: "0 < (n :: nat)" and rd: "io_read seg_io n r = (Inr bs, r')"
  obtain b xs where t: "seg_take n (seg_in r) = (b, xs)" by (cases "seg_take n (seg_in r)")
  from seg_take_cases [OF n t] rd t
  show "length bs \<le> n \<and> seg_src r = (bs @ fst (seg_src r'), snd (seg_src r')) \<and> (bs = [] \<longrightarrow> seg_src r = ([], None))"
    by (cases b) (auto simp: seg_io_def seg_read_def seg_src_def split: option.splits)
next
  fix n r e r'
  assume n: "0 < (n :: nat)" and rd: "io_read seg_io n r = (Inl e, r')"
  obtain b xs where t: "seg_take n (seg_in r) = (b, xs)" by (cases "seg_take n (seg_in r)")
  from seg_take_cases [OF n t] rd t show "seg_src r = ([], Some e)"
    by (cases b) (auto simp: seg_io_def seg_read_def seg_src_def split: option.splits)
qed (auto simp: seg_io_def seg_read_exact_def seg_src_def Let_def split: option.split)

subsection \<open>Instances of the crates\<close>

text \<open>
  Headers are an association list in order of insertion. A head ends after the first empty line; its first
  line is cut at the spaces and the others at the colon.
\<close>

fun head_end :: "u8 list \<Rightarrow> nat option" where
  "head_end [] = None"
| "head_end (b # bs) = (if take 4 (b # bs) = [13, 10, 13, 10] then Some 4 else map_option Suc (head_end bs))"

fun cut_lines :: "u8 list \<Rightarrow> u8 list \<Rightarrow> u8 list list" where
  "cut_lines line [] = [line]"
| "cut_lines line (b # bs) = (if b = 13 then cut_lines line bs else if b = 10 then line # cut_lines [] bs else cut_lines (line @ [b]) bs)"

definition cut_at :: "u8 \<Rightarrow> u8 list \<Rightarrow> u8 list \<times> u8 list" where
  "cut_at b bs = (takeWhile (\<lambda>x. x \<noteq> b) bs, drop 1 (dropWhile (\<lambda>x. x \<noteq> b) bs))"

definition text_of :: "u8 list \<Rightarrow> string" where
  "text_of bs = map (\<lambda>b. char_of (unat b)) bs"

definition sim_head :: "u8 list list \<Rightarrow> raw_request" where
  "sim_head lines =
     (let (m, rest) = cut_at 32 (hd lines); (path, version) = cut_at 32 rest
      in \<lparr>rq_method = Some m, rq_path = Some (text_of path), rq_version = Some (last version - 48),
          rq_headers = map (\<lambda>l. let (n, v) = cut_at 58 l in (n, dropWhile (\<lambda>b. b = 32) v)) (tl lines)\<rparr>)"

definition sim_parse :: "nat \<Rightarrow> u8 list \<Rightarrow> httparse_error + hp_status" where
  "sim_parse limit bs =
     (case head_end bs of
        None \<Rightarrow> Inr Partial
      | Some n \<Rightarrow> (let lines = cut_lines [] (take (n - 4) bs)
                   in if limit < length lines - 1 then Inl HP_TooManyHeaders else Inr (Complete n (sim_head lines))))"

definition sim_crate :: "((string \<times> u8 list) list, u8 list, string) http_crate" where
  "sim_crate =
     \<lparr>hp_parse = sim_parse, Method_from_bytes = Some, Uri_try_from = Some,
      HeaderName_from_bytes = (\<lambda>bs. Some (map (\<lambda>b. char_of (ascii_lower (unat b))) bs)),
      HeaderValue_from_bytes = Some, HeaderValue_to_str = (\<lambda>bs. Some (text_of bs)),
      HeaderMap_new = [], HeaderMap_insert = (\<lambda>k v hs. filter (\<lambda>(k', _). k' \<noteq> k) hs @ [(k, v)]),
      HeaderMap_get = map_of, HeaderMap_iter = (\<lambda>hs. hs),
      canonical_reason = (\<lambda>s. if s = 200 then Some ''OK'' else if s = 400 then Some ''Bad Request'' else None),
      hp_error_msg = (\<lambda>_. ''invalid request'')\<rparr>"

lemma head_end_append:
  "head_end bs = Some n \<Longrightarrow> 4 \<le> n \<and> n \<le> length bs \<and> head_end (bs @ cs) = Some n"
proof (induction bs arbitrary: n)
  case (Cons b bs)
  show ?case
  proof (cases "take 4 (b # bs) = [13, 10, 13, 10]")
    case True
    from arg_cong [OF True, of length] have "4 \<le> length (b # bs)" by simp
    then show ?thesis using True Cons.prems by simp
  next
    case False
    then obtain m where m: "head_end bs = Some m" "n = Suc m" using Cons.prems by auto
    note IH = Cons.IH [OF m(1)]
    then have "take 4 ((b # bs) @ cs) = take 4 (b # bs)" by (simp add: numeral_eq_Suc)
    then show ?thesis using IH m False by simp
  qed
qed simp

lemma sim_crate_law: "httparse_law sim_crate"
proof -
  have "sim_parse k (bs @ cs) = sim_parse k bs" if np: "sim_parse k bs \<noteq> Inr Partial" for k bs cs
  proof -
    obtain n where n: "head_end bs = Some n" using np by (cases "head_end bs") (simp_all add: sim_parse_def)
    then show ?thesis using head_end_append [OF n, of cs] by (simp add: sim_parse_def)
  qed
  moreover have "0 < n \<and> n \<le> length bs" if "sim_parse k bs = Inr (Complete n req)" for k bs n req
    using that head_end_append by (fastforce simp: sim_parse_def Let_def split: option.splits if_splits)
  ultimately show ?thesis by (fastforce simp: httparse_law_def sim_crate_def)
qed

end
