(* ===== verification/Http_Equiv.thy ===== *)
theory Http_Equiv
  imports Http_Split Http_Sim
begin

section \<open>The two request parsers agree\<close>

text \<open>
  Both parsers satisfy the interface of the body readers, so both compute the reference, whatever the pieces
  in which the bytes arrive; hence they agree with each other.
\<close>

subsection \<open>HttpParser\<close>

lemma read_exact_ref:
  assumes S: "exact_source (io_read io) src (io_read_exact io)" and p: "p_leaves src fin p D"
  shows "\<exists>got. HttpParser_read_exact io n p = Some got \<and> p_agrees src fin got (ref_exact (end_error ParseError_from_io fin) n D)"
proof (cases "isize_max < n")
  case True
  then show ?thesis by (simp add: p_agrees_def HttpParser_read_exact_def ref_exact_def)
next
  case False
  have pok: "parser_ok p" and D: "D = p_content p @ fst (src (p_reader p))" and fin: "snd (src (p_reader p)) = fin"
    using p by (auto simp: p_leaves_def p_pending_def)
  let ?k = "min (p_len p) n" and ?q = "p_consume (min (p_len p) n) p"
  have q: "p_content ?q = drop ?k (p_content p)" "parser_ok ?q" "p_reader ?q = p_reader p"
    using consume_content [OF pok, of ?k] by simp_all
  have data: "take ?k (p_buf p) = take n (p_content p)" by (simp add: p_content_def min.commute)
  show ?thesis
  proof (cases "p_len p < n")
    case False
    then have "HttpParser_read_exact io n p = Some (Done (Inr (take n (p_content p)), ?q))"
      using \<open>\<not> isize_max < n\<close> pok data by (simp add: HttpParser_read_exact_def Let_def parser_ok_def)
    moreover have "take n D = take n (p_content p)" "drop n D = p_content ?q @ fst (src (p_reader p))"
      using False pok q(1) by (simp_all add: D min_def)
    moreover have "n \<le> length D" using False pok by (simp add: D)
    ultimately show ?thesis using q fin \<open>\<not> isize_max < n\<close>
      by (simp add: p_agrees_def ref_exact_def p_leaves_def p_pending_def)
  next
    case True
    then have k: "?k = p_len p" "take n (p_content p) = p_content p" "p_content ?q = []" using pok q(1) by simp_all
    have eq: "HttpParser_read_exact io n p = (case io_read_exact io (n - p_len p) (p_reader p) of
        (Inl e, r) \<Rightarrow> Some (Done (Inl (ParseError_from_io e), ?q\<lparr>p_reader := r\<rparr>))
      | (Inr bs, r) \<Rightarrow> Some (Done (Inr (slice_write (p_content p @ replicate (n - p_len p) 0) (p_len p) bs), ?q\<lparr>p_reader := r\<rparr>)))"
      unfolding HttpParser_read_exact_def Let_def k(1)
      using True \<open>\<not> isize_max < n\<close> pok data k q(3) by (simp add: parser_ok_def split: prod.split sum.split)
    have lD: "n \<le> length D \<longleftrightarrow> n - p_len p \<le> length (fst (src (p_reader p)))" using True pok by (auto simp: D)
    show ?thesis
    proof (cases "n \<le> length D")
      case True
      then obtain r' where r': "io_read_exact io (n - p_len p) (p_reader p) = (Inr (take (n - p_len p) (fst (src (p_reader p)))), r')"
        "src r' = (drop (n - p_len p) (fst (src (p_reader p))), fin)"
        using exact_source.exact_enough [OF S] lD fin by blast
      have "slice_write (p_content p @ replicate (n - p_len p) 0) (p_len p) (take (n - p_len p) (fst (src (p_reader p)))) = take n D"
        using True lD pok \<open>p_len p < n\<close> by (simp add: slice_write_def D)
      moreover have "parser_ok (?q\<lparr>p_reader := r'\<rparr>)" "p_content (?q\<lparr>p_reader := r'\<rparr>) = []"
        using q(2) k(3) by (simp_all add: parser_ok_def p_content_def)
      ultimately show ?thesis using eq r' True pok \<open>\<not> isize_max < n\<close> \<open>p_len p < n\<close>
        by (simp add: p_agrees_def ref_exact_def p_leaves_def p_pending_def D)
    next
      case False
      then obtain e r' where "io_read_exact io (n - p_len p) (p_reader p) = (Inl e, r')"
        "case fin of Some e' \<Rightarrow> e = e' | None \<Rightarrow> io_kind e = UnexpectedEof"
        using exact_source.exact_short [OF S, of "p_reader p" "n - p_len p"] lD fin by auto
      then show ?thesis using eq False \<open>\<not> isize_max < n\<close>
        by (cases fin) (auto simp: p_agrees_def ref_exact_def end_error_def ParseError_from_io_def)
    qed
  qed
qed

lemma http_request_source:
  assumes "exact_source (io_read io) src (io_read_exact io)"
  shows "request_source (io_read io) src ParseError_from_io (HttpParser_read_exact io) (HttpParser_read_fixed_body io)"
proof -
  have "HttpParser_read_fixed_body io n p = HttpParser_read_exact io n p" for n p
    by (simp only: HttpParser_read_fixed_body_def HttpParser_read_exact_def)
  then show ?thesis using exact_source.axioms(1) [OF assms] read_exact_ref [OF assms]
    by (simp add: request_source_def request_source_axioms_def)
qed

lemma http_parse_request_ref:
  assumes "exact_source (io_read io) src (io_read_exact io)" and "httparse_law C" and "p_leaves src fin p D"
  shows "\<exists>got. HttpParser_parse_request C io p = Some got \<and> p_agrees src fin got (ref_request C ParseError_from_io fin D)"
  using request_source.parse_request_ref [OF http_request_source [OF assms(1)] assms(2,3)]
  by (simp only: HttpParser_parse_request_def HttpParser_parse_headers_def HttpParser_read_body_def HttpParser_read_more_def
      HttpParser_read_chunked_body_def HttpParser_read_line_def)

subsection \<open>KimojioHttpParser\<close>

lemma reader_only: "p_content (p\<lparr>p_reader := r\<rparr>) = p_content p" "parser_ok (p\<lparr>p_reader := r\<rparr>) \<longleftrightarrow> parser_ok p"
  by (simp_all add: p_content_def parser_ok_def)

lemma read_fill_loop_ref:
  assumes S: "byte_source rd src"
  shows "length data < n \<Longrightarrow> p_content p = [] \<Longrightarrow> parser_ok p \<Longrightarrow> src (p_reader p) = (D, fin) \<Longrightarrow>
    \<exists>got. read_fill_loop rd n data p = Some got
      \<and> (if n \<le> length (data @ D) then \<exists>p'. got = (Inr (take n (data @ D)), p') \<and> p_leaves src fin p' (drop n (data @ D))
         else \<exists>p'. got = (Inl (end_error (\<lambda>e. e) fin), p'))"
proof (induction "length D" arbitrary: data p D rule: less_induct)
  case less
  note eq = read_fill_loop.simps [of rd n data p]
  have "0 < min (n - length data) 8192" using less.prems(1) by simp
  from byte_source.read_cases [OF S this, of "p_reader p"] show ?case
  proof cases
    case (1 bs r')
    let ?p = "p\<lparr>p_reader := r'\<rparr>"
    have step: "read_fill_loop rd n data p = read_fill_loop rd n (data @ bs) ?p" using eq 1 less.prems(1) by simp
    have src: "src r' = (fst (src r'), fin)" "D = bs @ fst (src r')" using 1 less.prems(4) by (auto simp: prod_eq_iff)
    show ?thesis
    proof (cases "length (data @ bs) < n")
      case True
      have lt: "length (fst (src r')) < length D" using src(2) 1(2) by simp
      have D': "data @ D = (data @ bs) @ fst (src r')" using src(2) by simp
      have "p_content ?p = []" "parser_ok ?p" "src (p_reader ?p) = (fst (src r'), fin)"
        using less.prems(2,3) src(1) by (simp_all add: reader_only)
      from less.hyps [OF lt True this] show ?thesis unfolding step D' .
    next
      case False
      then have "n = length (data @ bs)" using 1(3) less.prems(1) by auto
      then have "read_fill_loop rd n (data @ bs) ?p = Some (Inr (data @ bs), ?p)" "n \<le> length (data @ D)"
        "take n (data @ D) = data @ bs" "drop n (data @ D) = fst (src r')"
        using src(2) read_fill_loop.simps [of rd n "data @ bs" ?p] by simp_all
      moreover have "p_leaves src fin ?p (fst (src r'))"
        using less.prems(2,3) src by (simp add: p_leaves_def p_pending_def reader_only prod_eq_iff)
      ultimately show ?thesis using step by simp
    qed
  next
    case (2 r')
    then show ?thesis using eq less.prems by (simp add: end_error_def)
  next
    case (3 e r')
    then show ?thesis using eq less.prems by (simp add: end_error_def)
  qed
qed

lemma kimojio_exact_ref:
  assumes S: "byte_source rd src" and p: "p_leaves src fin p D"
  shows "\<exists>got. KimojioHttpParser_read_exact rd n p = Some got \<and> p_agrees src fin got (ref_exact (end_error (\<lambda>e. e) fin) n D)"
proof (cases "isize_max < n")
  case True
  then show ?thesis by (simp add: p_agrees_def KimojioHttpParser_read_exact_def ref_exact_def)
next
  case small: False
  have pok: "parser_ok p" and D: "D = p_content p @ fst (src (p_reader p))" and fin: "snd (src (p_reader p)) = fin"
    using p by (auto simp: p_leaves_def p_pending_def)
  let ?k = "min (p_len p) n"
  have q: "p_content (p_consume ?k p) = drop ?k (p_content p)" "parser_ok (p_consume ?k p)" "p_reader (p_consume ?k p) = p_reader p"
    using consume_content [OF pok, of ?k] by simp_all
  have data: "take ?k (p_buf p) = take n (p_content p)" by (simp add: p_content_def min.commute)
  show ?thesis
  proof (cases "p_len p < n")
    case False
    then have "read_fill_loop rd n (take ?k (p_buf p)) (p_consume ?k p) = Some (Inr (take n D), p_consume ?k p)"
      using read_fill_loop.simps [of rd n "take n D" "p_consume ?k p"] data pok by (simp add: D)
    moreover have "drop n D = p_content (p_consume ?k p) @ fst (src (p_reader p))" "n \<le> length D"
      using False pok q(1) by (simp_all add: D min_def)
    ultimately show ?thesis using small q fin
      by (simp add: KimojioHttpParser_read_exact_def Let_def p_agrees_def ref_exact_def p_leaves_def p_pending_def)
  next
    case True
    then have c: "take ?k (p_buf p) = p_content p" "p_content (p_consume ?k p) = []" using data pok q(1) by simp_all
    have len: "length (p_content p) < n" using True pok by simp
    have src: "src (p_reader (p_consume ?k p)) = (fst (src (p_reader p)), fin)" using q(3) fin by (simp add: prod_eq_iff)
    from read_fill_loop_ref [OF S len c(2) q(2) src] obtain got where g: "read_fill_loop rd n (p_content p) (p_consume ?k p) = Some got"
      "if n \<le> length D then \<exists>p'. got = (Inr (take n D), p') \<and> p_leaves src fin p' (drop n D)
       else \<exists>p'. got = (Inl (end_error (\<lambda>e. e) fin), p')" unfolding D by (elim exE conjE)
    then show ?thesis using small c(1)
      by (cases "n \<le> length D") (auto simp: KimojioHttpParser_read_exact_def Let_def p_agrees_def ref_exact_def)
  qed
qed

lemma kimojio_request_source:
  assumes "byte_source rd src"
  shows "request_source rd src (\<lambda>e. e) (KimojioHttpParser_read_exact rd) (KimojioHttpParser_read_fixed_body rd)"
proof -
  have "KimojioHttpParser_read_fixed_body rd n p = KimojioHttpParser_read_exact rd n p" for n p
    by (simp only: KimojioHttpParser_read_fixed_body_def KimojioHttpParser_read_exact_def)
  then show ?thesis using assms kimojio_exact_ref [OF assms]
    by (simp add: request_source_def request_source_axioms_def)
qed

lemma kimojio_parse_request_ref:
  assumes "byte_source rd src" and "httparse_law C" and "p_leaves src fin p D"
  shows "\<exists>got. KimojioHttpParser_parse_request C rd p = Some got \<and> p_agrees src fin got (ref_request C (\<lambda>e. e) fin D)"
  using request_source.parse_request_ref [OF kimojio_request_source [OF assms(1)] assms(2,3)]
  by (simp only: KimojioHttpParser_parse_request_def KimojioHttpParser_parse_headers_def KimojioHttpParser_read_body_def
      KimojioHttpParser_read_more_def KimojioHttpParser_read_chunked_body_def KimojioHttpParser_read_line_def)

subsection \<open>Segmentation and agreement\<close>

text \<open>
  C6. A request does not depend on the pieces in which it arrives. Whatever the reader delivers at each read,
  \<open>HttpParser::parse_request\<close> returns, and its result is that of the reference parser on the whole byte
  sequence: the same request, the same error or the same panic, and after a request exactly the bytes behind
  it are left for the next one.
\<close>

theorem parse_request_any_split:
  assumes "exact_source (io_read io) src (io_read_exact io)" and "httparse_law C" and "parser_ok p"
  shows "\<exists>got. HttpParser_parse_request C io p = Some got
    \<and> p_agrees src (snd (src (p_reader p))) got (ref_request C ParseError_from_io (snd (src (p_reader p))) (p_pending src p))"
  using http_parse_request_ref [OF assms(1,2), of "snd (src (p_reader p))" p "p_pending src p"] assms(3)
  by (simp add: p_leaves_def)

text \<open>A request with a body of two chunks, followed by the beginning of another, in four pieces.\<close>

definition demo_pieces :: "u8 list list" where
  "demo_pieces = [bytes ''POST /up HT'', bytes ''TP/1.1'' @ crlf @ bytes ''Transfer-Encoding: chunked'' @ crlf @ crlf @ bytes ''5;x'',
     crlf @ bytes ''Hello'' @ crlf @ bytes ''1'' @ crlf @ bytes ''!'' @ crlf @ bytes ''0'', crlf @ crlf @ bytes ''GET'']"

definition demo_request :: "((string \<times> u8 list) list, u8 list, string) request" where
  "demo_request = \<lparr>req_method = bytes ''POST'', req_uri = ''/up'', req_version = HTTP_11,
     req_headers = [(''transfer-encoding'', bytes ''chunked'')], req_body = bytes ''Hello!''\<rparr>"

lemma demo_head:
  "hp_parse sim_crate MAX_HEADERS (concat demo_pieces) = Inr (Complete 49
     \<lparr>rq_method = Some (bytes ''POST''), rq_path = Some ''/up'', rq_version = Some 1, rq_headers = [(bytes ''Transfer-Encoding'', bytes ''chunked'')]\<rparr>)"
  "complete_head sim_crate 49
     \<lparr>rq_method = Some (bytes ''POST''), rq_path = Some ''/up'', rq_version = Some 1, rq_headers = [(bytes ''Transfer-Encoding'', bytes ''chunked'')]\<rparr>
   = (Inr (bytes ''POST'', ''/up'', HTTP_11, [(''transfer-encoding'', bytes ''chunked'')], 49) :: io_error parse_error + _)"
  "is_chunked sim_crate [(''transfer-encoding'', bytes ''chunked'')]"
  by code_simp+

text \<open>The lines and chunks of the body, from each end of a line to the next.\<close>

lemma demo_lines:
  fixes stop :: "io_error parse_error"
  shows "ref_line stop (drop 49 (concat demo_pieces)) = (Inr (chars ''5;x''), drop 54 (concat demo_pieces))"
    "ref_line stop (drop 59 (concat demo_pieces)) = (Inr [], drop 61 (concat demo_pieces))"
    "ref_line stop (drop 61 (concat demo_pieces)) = (Inr (chars ''1''), drop 64 (concat demo_pieces))"
    "ref_line stop (drop 65 (concat demo_pieces)) = (Inr [], drop 67 (concat demo_pieces))"
    "ref_line stop (drop 67 (concat demo_pieces)) = (Inr (chars ''0''), drop 70 (concat demo_pieces))"
    "ref_line stop (drop 70 (concat demo_pieces)) = (Inr [], drop 72 (concat demo_pieces))"
  by code_simp+

lemma demo_sizes:
  "from_str_radix usize_max 16 (trim (split_first 59 (chars ''5;x''))) = Some 5"
  "from_str_radix usize_max 16 (trim (split_first 59 (chars ''1''))) = Some 1"
  "from_str_radix usize_max 16 (trim (split_first 59 (chars ''0''))) = Some 0"
proof -
  have "trim (split_first 59 (chars ''5;x'')) = [53]" "trim (split_first 59 (chars ''1'')) = [49]" "trim (split_first 59 (chars ''0'')) = [48]"
    by (simp_all add: trim_def split_first_def is_whitespace_def chars_def)
  then show "from_str_radix usize_max 16 (trim (split_first 59 (chars ''5;x''))) = Some 5"
    "from_str_radix usize_max 16 (trim (split_first 59 (chars ''1''))) = Some 1"
    "from_str_radix usize_max 16 (trim (split_first 59 (chars ''0''))) = Some 0"
    by (simp_all add: from_str_radix_def to_digit_def usize_max_def)
qed

lemma demo_data:
  "length (concat demo_pieces) = 75" "take 5 (drop 54 (concat demo_pieces)) = bytes ''Hello''"
  "take 1 (drop 64 (concat demo_pieces)) = bytes ''!''" "drop 72 (concat demo_pieces) = bytes ''GET''" "bytes ''Hello'' @ bytes ''!'' = bytes ''Hello!''"
  by code_simp+

lemma demo_ref: "ref_request sim_crate ParseError_from_io None (concat demo_pieces) = Done (Inr (Some demo_request), bytes ''GET'')"
proof -
  have t: "take MAX_BUF_SIZE (concat demo_pieces) = concat demo_pieces" using demo_data(1) by (simp add: MAX_BUF_SIZE_def)
  have "ref_exact stop 5 (drop 54 (concat demo_pieces)) = Done (Inr (bytes ''Hello''), drop 59 (concat demo_pieces))"
    "ref_exact stop 1 (drop 64 (concat demo_pieces)) = Done (Inr (bytes ''!''), drop 65 (concat demo_pieces))" for stop :: "io_error parse_error"
    using demo_data by (simp_all add: ref_exact_def isize_max_def)
  then have "ref_body sim_crate stop [(''transfer-encoding'', bytes ''chunked'')] (drop 49 (concat demo_pieces))
    = Done (Inr (bytes ''Hello!''), bytes ''GET'')" for stop :: "io_error parse_error"
    using demo_data by (simp add: ref_body_def demo_head(3) ref_chunked.simps demo_lines demo_sizes)
  then show ?thesis
    by (simp add: ref_request_def ref_head_def t demo_head(1,2)) (simp add: build_request_def sim_crate_def demo_request_def)
qed

theorem parse_request_any_split_witness:
  "parser_ok (HttpParser_new \<lparr>seg_in = demo_pieces, seg_end = None, seg_out = []\<rparr>)
   \<and> (\<exists>p'. HttpParser_parse_request sim_crate seg_io (HttpParser_new \<lparr>seg_in = demo_pieces, seg_end = None, seg_out = []\<rparr>)
        = Some (Done (Inr (Some demo_request), p')) \<and> p_leaves seg_src None p' (bytes ''GET''))"
proof -
  let ?p = "HttpParser_new \<lparr>seg_in = demo_pieces, seg_end = None, seg_out = []\<rparr>"
  have "p_pending seg_src ?p = concat demo_pieces" "snd (seg_src (p_reader ?p)) = None"
    by (simp_all add: p_pending_def p_content_def HttpParser_new_def seg_src_def)
  with parse_request_any_split [OF seg.exact_source_axioms sim_crate_law new_ok(1), of "\<lparr>seg_in = demo_pieces, seg_end = None, seg_out = []\<rparr>"] demo_ref
  show ?thesis by (auto simp: p_agrees_def)
qed

text \<open>The reference for one type of errors from that for another.\<close>

abbreviation (input) map_res :: "('e parse_error \<Rightarrow> 'x parse_error) \<Rightarrow> (('e parse_error + 'a) \<times> 'b) \<Rightarrow> (('x parse_error + 'a) \<times> 'b)" where
  "map_res f \<equiv> map_prod (map_sum f (\<lambda>a. a)) (\<lambda>b. b)"

lemma ref_line_map: "ref_line (f stop) D = map_res f (ref_line stop D)"
  by (simp add: ref_line_def Let_def)

lemma ref_exact_map: "ref_exact (f stop) n D = map_outcome (map_res f) (ref_exact stop n D)"
  by (simp add: ref_exact_def)

lemma ref_chunked_map:
  "ref_chunked (map_parse_error h stop) body D = map_outcome (map_res (map_parse_error h)) (ref_chunked stop body D)"
proof (induction stop body D rule: ref_chunked.induct)
  case (1 stop body D)
  let ?f = "map_parse_error h"
  note eq = ref_chunked.simps [of "?f stop" body D, unfolded ref_line_map [of ?f]] and eq0 = ref_chunked.simps [of stop body D]
  show ?case
  proof (cases "ref_line stop D")
    case (Pair l D1)
    show ?thesis
    proof (cases l)
      case (Inl e)
      then show ?thesis using eq eq0 Pair by simp
    next
      case (Inr sz)
      show ?thesis
      proof (cases "from_str_radix usize_max 16 (trim (split_first 59 sz))")
        case None
        then show ?thesis using eq eq0 Pair Inr by simp
      next
        case (Some n)
        show ?thesis
        proof (cases "n = 0")
          case True
          then show ?thesis using eq eq0 Pair Inr Some
            by (cases "ref_line stop D1") (auto split: sum.split)
        next
          case False
          then show ?thesis using eq eq0 Pair Inr Some 1 [OF Pair [symmetric] Inr Some False]
            by (cases "ref_exact stop n D1"; simp add: ref_exact_map [of ?f] ref_line_map [of ?f] split: prod.split sum.split)
        qed
      qed
    qed
  qed
qed

lemma header_map_map: "header_map C hs m = map_sum (map_parse_error h) (\<lambda>a. a) (header_map C hs m)"
  by (induction C hs m rule: header_map.induct) (auto split: option.split)

lemma complete_head_map: "complete_head C n req = map_sum (map_parse_error h) (\<lambda>a. a) (complete_head C n req)"
  by (subst (1 2) complete_head_def, subst header_map_map [of C _ _ h]) (auto simp: Let_def split: option.split sum.split)

lemma build_request_map: "build_request C m u v hs b = map_sum (map_parse_error h) (\<lambda>a. a) (build_request C m u v hs b)"
  by (simp add: build_request_def split: option.split)

lemma ref_head_map:
  "ref_head C conv' None D = map_sum (map_parse_error h) (\<lambda>a. a) (ref_head C conv None D)"
proof -
  have "(case complete_head C n req of Inl e \<Rightarrow> Inl e | Inr x \<Rightarrow> Inr (Some x))
      = map_sum (map_parse_error h) (\<lambda>a. a) (case complete_head C n req of Inl e \<Rightarrow> Inl e | Inr x \<Rightarrow> Inr (Some x))" for n req
    by (subst complete_head_map [of C n req h]) (simp split: sum.split)
  then show ?thesis unfolding ref_head_def end_error_def by (simp split: sum.split hp_status.split)
qed

lemma ref_request_map:
  "ref_request C conv' None D = map_outcome (map_res (map_parse_error h)) (ref_request C conv None D)"
proof -
  let ?f = "map_parse_error h"
  have body: "ref_body C (end_error conv' None) hs D' = map_outcome (map_res ?f) (ref_body C (end_error conv None) hs D')" for hs D'
  proof -
    have "end_error conv' None = ?f (end_error conv None)" by (simp add: end_error_def)
    then show ?thesis unfolding ref_body_def
      by (simp only: ref_chunked_map ref_exact_map [of ?f]) (simp split: option.split)
  qed
  have build: "(case build_request C m u v hs b of Inl e \<Rightarrow> Inl e | Inr x \<Rightarrow> Inr (Some x))
      = map_sum ?f (\<lambda>a. a) (case build_request C m u v hs b of Inl e \<Rightarrow> Inl e | Inr x \<Rightarrow> Inr (Some x))" for m u v hs b
    by (subst build_request_map [of C m u v hs b h]) (simp split: sum.split)
  show ?thesis
  proof (cases "ref_head C conv None D")
    case (Inl e)
    then show ?thesis using ref_head_map [of C conv' D h conv] by (simp add: ref_request_def)
  next
    case (Inr x)
    show ?thesis
    proof (cases x)
      case None
      then show ?thesis using Inr ref_head_map [of C conv' D h conv] by (simp add: ref_request_def)
    next
      case (Some hd)
      obtain m u v hs n where hd: "hd = (m, u, v, hs, n)" by (cases hd)
      have "ref_head C conv' None D = Inr (Some hd)" using Inr Some ref_head_map [of C conv' D h conv] by simp
      then show ?thesis using Inr Some hd build [of m u v hs]
        by (cases "ref_body C (end_error conv None) hs (drop n D)") (auto simp: ref_request_def body split: sum.split)
    qed
  qed
qed

text \<open>Two results are the same up to what the error \<open>Io\<close> holds, and leave the same bytes to the next request.\<close>

definition same_result ::
  "('r \<Rightarrow> u8 list \<times> 'e option) \<Rightarrow> ('s \<Rightarrow> u8 list \<times> 'f option) \<Rightarrow> ('x, 'a, 'r) res outcome \<Rightarrow> ('y, 'a, 's) res outcome \<Rightarrow> bool" where
  "same_result src src' got got' \<longleftrightarrow>
     (case (got, got') of
        (Panic m, Panic m') \<Rightarrow> m = m'
      | (Done (Inl e, p), Done (Inl e', p')) \<Rightarrow> map_parse_error (\<lambda>_. ()) e = map_parse_error (\<lambda>_. ()) e'
      | (Done (Inr x, p), Done (Inr x', p')) \<Rightarrow> x = x' \<and> p_pending src p = p_pending src' p'
      | _ \<Rightarrow> False)"

text \<open>
  C13. The parser for tokio and the parser for kimojio agree. On the same bytes, ended by the end of the
  stream, both return the same request, the same kind of error or the same panic, and leave the same bytes
  to the next request, however differently their readers cut the bytes into pieces.
\<close>

theorem parsers_agree:
  fixes src' :: "'s \<Rightarrow> u8 list \<times> string parse_error option"
  assumes "exact_source (io_read io) src (io_read_exact io)" and "byte_source rd src'" and "httparse_law C"
    and "src r = (D, None)" and "src' r' = (D, None)"
  shows "\<exists>got got'. HttpParser_parse_request C io (HttpParser_new r) = Some got
    \<and> KimojioHttpParser_parse_request C rd (KimojioHttpParser_new r') = Some got' \<and> same_result src src' got got'"
proof -
  have "p_leaves src None (HttpParser_new r) D" using assms(4) by (simp add: p_leaves_def)
  from http_parse_request_ref [OF assms(1,3) this] obtain got where
    g: "HttpParser_parse_request C io (HttpParser_new r) = Some got" "p_agrees src None got (ref_request C ParseError_from_io None D)"
    by (elim exE conjE)
  have "KimojioHttpParser_new r' = HttpParser_new r'" by (simp add: KimojioHttpParser_new_def HttpParser_new_def)
  then have "p_leaves src' None (KimojioHttpParser_new r') D" using assms(5) by (simp add: p_leaves_def)
  from kimojio_parse_request_ref [OF assms(2,3) this] obtain got' where
    g': "KimojioHttpParser_parse_request C rd (KimojioHttpParser_new r') = Some got'" "p_agrees src' None got' (ref_request C (\<lambda>e. e) None D)"
    by (elim exE conjE)
  have m: "ref_request C (\<lambda>e :: string parse_error. e) None D = map_outcome (map_res (map_parse_error (\<lambda>_. undefined))) (ref_request C ParseError_from_io None D)"
    by (rule ref_request_map)
  have "same_result src src' got got'"
  proof (cases "ref_request C ParseError_from_io None D")
    case (Panic m)
    then show ?thesis using g(2) g'(2) m by (simp add: p_agrees_def same_result_def)
  next
    case (Done x)
    obtain y D' where x: "x = (y, D')" by (cases x)
    show ?thesis
      using g(2) g'(2) m Done x
      by (cases y) (auto simp: p_agrees_def same_result_def p_leaves_def parse_error.map_comp comp_def)
  qed
  with g(1) g'(1) show ?thesis by blast
qed

theorem parsers_agree_witness:
  "\<exists>got got'. HttpParser_parse_request sim_crate seg_io (HttpParser_new \<lparr>seg_in = demo_pieces, seg_end = None, seg_out = []\<rparr>) = Some got
    \<and> KimojioHttpParser_parse_request sim_crate TestReader_try_read (KimojioHttpParser_new (TestReader_new (concat demo_pieces))) = Some got'
    \<and> same_result seg_src TestReader_src got got'"
  by (rule parsers_agree [OF seg.exact_source_axioms test_reader.byte_source_axioms sim_crate_law])
    (simp_all add: seg_src_def TestReader_src_def TestReader_new_def)

text \<open>Both parsers are instances of the interface of the bodies.\<close>

interpretation http_req: request_source "io_read seg_io" seg_src ParseError_from_io "HttpParser_read_exact seg_io" "HttpParser_read_fixed_body seg_io"
  by (rule http_request_source [OF seg.exact_source_axioms])

interpretation kimojio_req: request_source TestReader_try_read TestReader_src "\<lambda>e. e"
    "KimojioHttpParser_read_exact TestReader_try_read" "KimojioHttpParser_read_fixed_body TestReader_try_read"
  by (rule kimojio_request_source [OF test_reader.byte_source_axioms])

end
