(* ===== verification/Http_Conn.thy ===== *)
theory Http_Conn
  imports Http_Equiv "HOL-Library.Sublist"
begin

section \<open>Connections (dpdk-net-test, app/custom\_http.rs and app/kimojio\_server.rs)\<close>

text \<open>
  The loops that answer the requests of a connection and the loops that accept connections. The handler is a
  parameter, the response that its future ends with; \<open>show_io\<close> is how the error of a reader is displayed.
\<close>

subsection \<open>handle\_connection\<close>

definition write_response ::
  "('h, 'm, 'u, 'y) http_crate_scheme \<Rightarrow> ('r, 'z) async_io_scheme \<Rightarrow> 'h response \<Rightarrow> 'r \<Rightarrow> (io_error + unit) \<times> 'r" where
  "write_response C io response writer =
     (case io_write_all io (serialize_response C response) writer of
        (Inl e, w) \<Rightarrow> (Inl e, w)
      | (Inr _, w) \<Rightarrow> io_flush io w)"

text \<open>The response as it is written: without keep-alive it gets the header \<open>Connection: close\<close>.\<close>

definition final_response ::
  "('h, 'm, 'u, 'y) http_crate_scheme \<Rightarrow> bool \<Rightarrow> 'h response \<Rightarrow> 'h response" where
  "final_response C keep_alive response =
     (if keep_alive then response
      else response\<lparr>resp_headers := HeaderMap_insert C ''connection'' (bytes ''close'') (resp_headers response)\<rparr>)"

partial_function (option) connection_loop ::
  "('h, 'm, 'u, 'y) http_crate_scheme \<Rightarrow> (io_error \<Rightarrow> string) \<Rightarrow> ('r, 'z) async_io_scheme
     \<Rightarrow> (('h, 'm, 'u) request \<Rightarrow> 'h response) \<Rightarrow> 'r http_parser \<Rightarrow> ((io_error parse_error + unit) \<times> 'r) outcome option" where
  "connection_loop C show_io io handler parser =
     HttpParser_parse_request C io parser \<bind> (\<lambda>parsed.
       case parsed of
         Panic m \<Rightarrow> Some (Panic m)
       | Done (Inl e, parser) \<Rightarrow>
           if e = PE_ConnectionClosed then Some (Done (Inr (), p_reader parser))
           else Some (Done (Inl e, snd (write_response C io (bad_request C (ParseError_fmt C show_io e)) (p_reader parser))))
       | Done (Inr None, parser) \<Rightarrow> Some (Done (Inr (), p_reader parser))
       | Done (Inr (Some request), parser) \<Rightarrow>
           (let keep_alive = should_keep_alive C (req_headers request) (req_version request);
                response = final_response C keep_alive (handler request)
            in case write_response C io response (p_reader parser) of
                 (Inl e, r) \<Rightarrow> Some (Done (Inl (PE_Io e), r))
               | (Inr _, r) \<Rightarrow>
                   if keep_alive then connection_loop C show_io io handler (parser\<lparr>p_reader := r\<rparr>)
                   else Some (Done (Inr (), r))))"

definition handle_connection ::
  "('h, 'm, 'u, 'y) http_crate_scheme \<Rightarrow> (io_error \<Rightarrow> string) \<Rightarrow> ('r, 'z) async_io_scheme
     \<Rightarrow> (('h, 'm, 'u) request \<Rightarrow> 'h response) \<Rightarrow> 'r \<Rightarrow> ((io_error parse_error + unit) \<times> 'r) outcome option" where
  "handle_connection C show_io io handler stream = connection_loop C show_io io handler (HttpParser_new stream)"

text \<open>
  \<open>SimpleHttp1Server::run\<close>: the branches that its \<open>select!\<close> takes, in order. The tasks it spawns are the
  connections with their ids.
\<close>

datatype 'r server_event = Cancelled | Accepted 'r | AcceptFailed

fun SimpleHttp1Server_run :: "u64 \<Rightarrow> 'r server_event list \<Rightarrow> (u64 \<times> 'r) list" where
  "SimpleHttp1Server_run conn_id [] = []"
| "SimpleHttp1Server_run conn_id (Cancelled # events) = []"
| "SimpleHttp1Server_run conn_id (Accepted stream # events) = (conn_id, stream) # SimpleHttp1Server_run (conn_id + 1) events"
| "SimpleHttp1Server_run conn_id (AcceptFailed # events) = SimpleHttp1Server_run conn_id events"

subsection \<open>handle\_http\_connection\<close>

text \<open>\<open>wr\<close> is \<open>KimojioAsyncWrite::write_all\<close>.\<close>

type_synonym 'w write_all = "u8 list \<Rightarrow> 'w \<Rightarrow> (string parse_error + unit) \<times> 'w"

definition kimojio_write_response ::
  "('h, 'm, 'u, 'y) http_crate_scheme \<Rightarrow> 'w write_all \<Rightarrow> 'h response \<Rightarrow> 'w \<Rightarrow> (string parse_error + unit) \<times> 'w" where
  "kimojio_write_response C wr response writer = wr (serialize_response C response) writer"

partial_function (option) http_connection_loop ::
  "('h, 'm, 'u, 'y) http_crate_scheme \<Rightarrow> 'r try_read \<Rightarrow> 'w write_all \<Rightarrow> (('h, 'm, 'u) request \<Rightarrow> 'h response)
     \<Rightarrow> 'r http_parser \<Rightarrow> 'w \<Rightarrow> ((string parse_error + unit) \<times> 'r \<times> 'w) outcome option" where
  "http_connection_loop C rd wr handler parser writer =
     KimojioHttpParser_parse_request C rd parser \<bind> (\<lambda>parsed.
       case parsed of
         Panic m \<Rightarrow> Some (Panic m)
       | Done (Inl e, parser) \<Rightarrow>
           if e = PE_ConnectionClosed then Some (Done (Inr (), p_reader parser, writer))
           else Some (Done (Inl e, p_reader parser,
                            snd (kimojio_write_response C wr (bad_request C (ParseError_fmt C (\<lambda>s. s) e)) writer)))
       | Done (Inr None, parser) \<Rightarrow> Some (Done (Inr (), p_reader parser, writer))
       | Done (Inr (Some request), parser) \<Rightarrow>
           (let keep_alive = should_keep_alive C (req_headers request) (req_version request);
                response = final_response C keep_alive (handler request)
            in case kimojio_write_response C wr response writer of
                 (Inl e, w) \<Rightarrow> Some (Done (Inl e, p_reader parser, w))
               | (Inr _, w) \<Rightarrow>
                   if keep_alive then http_connection_loop C rd wr handler (KimojioHttpParser_reset parser) w
                   else Some (Done (Inr (), p_reader parser, w))))"

definition handle_http_connection ::
  "('h, 'm, 'u, 'y) http_crate_scheme \<Rightarrow> 'r try_read \<Rightarrow> 'w write_all \<Rightarrow> (('h, 'm, 'u) request \<Rightarrow> 'h response)
     \<Rightarrow> 'r \<Rightarrow> 'w \<Rightarrow> ((string parse_error + unit) \<times> 'r \<times> 'w) outcome option" where
  "handle_http_connection C rd wr handler reader writer =
     http_connection_loop C rd wr handler (KimojioHttpParser_new reader) writer"

text \<open>
  \<open>run_kimojio_accept_loop\<close>: the flag \<open>shutdown\<close> and the result of \<open>accept\<close> in each round. The result is the
  connections handed to tasks, and the error that ended the loop if one did.
\<close>

fun run_kimojio_accept_loop :: "(bool \<times> ('e + 'fd)) list \<Rightarrow> 'fd list \<times> ('e + unit) option" where
  "run_kimojio_accept_loop [] = ([], None)"
| "run_kimojio_accept_loop ((shutdown, accepted) # rounds) =
     (if shutdown then ([], Some (Inr ()))
      else (case accepted of
              Inl e \<Rightarrow> ([], Some (Inl e))
            | Inr fd \<Rightarrow> (case run_kimojio_accept_loop rounds of (fds, r) \<Rightarrow> (fd # fds, r))))"

subsection \<open>What parsing leaves alone\<close>

text \<open>Parsing reads and does nothing else: what the operations that read keep, the parser keeps.\<close>

lemma read_more_keeps:
  assumes rd: "\<And>n r. I r \<Longrightarrow> I (snd (rd n r))" and p: "I (p_reader p)"
  shows "I (p_reader (snd (read_more conv rd p)))"
proof -
  have "I r" if "rd n (p_reader p) = (x, r)" for n x r using rd [OF p, of n] that by simp
  then show ?thesis using p by (simp add: read_more_def Let_def split: prod.split sum.split)
qed

lemmas headers_induct = parse_headers.raw_induct [rotated, consumes 1, case_names step]
lemmas line_induct = read_line.raw_induct [rotated, consumes 1, case_names step]
lemmas chunked_induct = read_chunked_body.raw_induct [rotated, consumes 1, case_names step]

lemma parse_headers_keeps:
  assumes "parse_headers C mr p = Some y" and "\<And>p. I (p_reader p) \<Longrightarrow> I (p_reader (snd (mr p)))" and "I (p_reader p)"
  shows "I (p_reader (snd y))"
  using assms
proof (induction C mr p y rule: headers_induct)
  case (step f C mr p y)
  have "I (p_reader (snd (mr p)))" using step.prems by blast
  moreover have "f C mr p' = Some y \<Longrightarrow> I (p_reader p') \<Longrightarrow> I (p_reader (snd y))" for p' using step.IH step.prems(1) by blast
  ultimately show ?case using step.hyps step.prems(2)
    by (cases "mr p") (auto split: sum.splits hp_status.splits if_splits)
qed

lemma read_line_keeps:
  assumes "read_line mr line p = Some y" and "\<And>p. I (p_reader p) \<Longrightarrow> I (p_reader (snd (mr p)))" and "I (p_reader p)"
  shows "I (p_reader (snd y))"
  using assms
proof (induction mr line p y rule: line_induct)
  case (step f mr line p y)
  have "I (p_reader (snd (mr (p\<lparr>p_len := 0\<rparr>))))" using step.prems by simp
  moreover have "f mr l p' = Some y \<Longrightarrow> I (p_reader p') \<Longrightarrow> I (p_reader (snd y))" for l p' using step.IH step.prems(1) by blast
  ultimately show ?case using step.hyps step.prems(2)
    by (cases "mr (p\<lparr>p_len := 0\<rparr>)") (auto simp: Let_def p_consume_def split: sum.splits if_splits)
qed

text \<open>A result that is no panic has a reader with \<open>I\<close>.\<close>

definition kept :: "('r \<Rightarrow> bool) \<Rightarrow> ('x \<times> 'r http_parser) outcome \<Rightarrow> bool" where
  "kept I res = (case res of Done (_, p) \<Rightarrow> I (p_reader p) | Panic _ \<Rightarrow> True)"

lemma read_chunked_keeps:
  assumes "read_chunked_body line ex body p = Some y"
    and "\<And>p z. line [] p = Some z \<Longrightarrow> I (p_reader p) \<Longrightarrow> I (p_reader (snd z))"
    and "\<And>n p z. ex n p = Some z \<Longrightarrow> I (p_reader p) \<Longrightarrow> kept I z" and "I (p_reader p)"
  shows "kept I y"
  using assms
proof (induction line ex body p y rule: chunked_induct)
  case (step f line ex body p y)
  have f: "f line ex b p' = Some y \<Longrightarrow> I (p_reader p') \<Longrightarrow> kept I y" for b p' using step.IH step.prems(1,2) by blast
  note line = step.prems(1) and ex = step.prems(2)
  from step.hyps obtain l p1 where l: "line [] p = Some (l, p1)" by (cases "line [] p") auto
  have p1: "I (p_reader p1)" using line [OF l step.prems(3)] by simp
  show ?case
  proof (cases l)
    case (Inl e)
    then show ?thesis using step.hyps l p1 by (auto simp: kept_def)
  next
    case (Inr sz)
    note hyps = step.hyps [unfolded l Inr, simplified]
    show ?thesis
    proof (cases "from_str_radix usize_max 16 (trim (split_first 59 sz))")
      case None
      then show ?thesis using hyps p1 by (auto simp: kept_def)
    next
      case (Some n)
      show ?thesis
      proof (cases "n = 0")
        case True
        with hyps Some obtain l2 p2 where l2: "line [] p1 = Some (l2, p2)" by (cases "line [] p1") auto
        then show ?thesis using hyps Some True line [OF l2 p1] by (auto simp: kept_def)
      next
        case False
        with hyps Some obtain z where z: "ex n p1 = Some z" by (cases "ex n p1") auto
        show ?thesis
        proof (cases z)
          case (Panic m)
          then show ?thesis using hyps Some False z by (auto simp: kept_def)
        next
          case (Done zz)
          obtain c p2 where zz: "zz = (c, p2)" by (cases zz)
          have p2: "I (p_reader p2)" using ex [OF z p1] Done zz by (simp add: kept_def)
          show ?thesis
          proof (cases c)
            case (Inl e)
            then show ?thesis using hyps Some False z Done zz p2 by (auto simp: kept_def)
          next
            case (Inr bs)
            with hyps Some False z Done zz obtain l3 p3 where l3: "line [] p2 = Some (l3, p3)" by (cases "line [] p2") auto
            then show ?thesis using hyps Some False z Done zz Inr line [OF l3 p2] f
              by (cases l3) (auto simp: kept_def)
          qed
        qed
      qed
    qed
  qed
qed

lemma parse_request_keeps:
  assumes mr: "\<And>p. I (p_reader p) \<Longrightarrow> I (p_reader (snd (mr p)))"
    and ex: "\<And>n p z. ex n p = Some z \<Longrightarrow> I (p_reader p) \<Longrightarrow> kept I z"
    and fixed: "\<And>n p z. fixed n p = Some z \<Longrightarrow> I (p_reader p) \<Longrightarrow> kept I z"
    and p: "I (p_reader p)"
    and got: "parse_request C (parse_headers C mr) (read_body C (read_chunked_body (read_line mr) ex []) fixed) p = Some got"
  shows "kept I got"
proof -
  have line: "read_line mr [] p = Some z \<Longrightarrow> I (p_reader p) \<Longrightarrow> I (p_reader (snd z))" for p z
    using read_line_keeps [where I = I] mr by blast
  have chunked: "read_chunked_body (read_line mr) ex [] p = Some z \<Longrightarrow> I (p_reader p) \<Longrightarrow> kept I z" for p z
    by (rule read_chunked_keeps [where I = I, OF _ line ex])
  have body: "read_body C (read_chunked_body (read_line mr) ex []) fixed h p = Some z \<Longrightarrow> I (p_reader p) \<Longrightarrow> kept I z" for h p z
    using chunked fixed by (auto simp: read_body_def kept_def split: if_splits option.splits)
  obtain x p1 where x: "parse_headers C mr p = Some (x, p1)"
    using got by (auto simp: parse_request_def bind_eq_Some_conv)
  have p1: "I (p_reader p1)" using parse_headers_keeps [where I = I, OF x] mr p by auto
  note eq = got [unfolded parse_request_def x, simplified]
  show ?thesis
  proof (cases "\<exists>h. x = Inr (Some h)")
    case True
    then obtain m u v h n where xs: "x = Inr (Some (m, u, v, h, n))" by auto
    from eq [unfolded xs, simplified] obtain b where
      b: "read_body C (read_chunked_body (read_line mr) ex []) fixed h (p_consume n p1) = Some b" and
      g: "got = outcome_bind b (\<lambda>(body, p). Done (case body of Inl e \<Rightarrow> Inl e
        | Inr body \<Rightarrow> (case build_request C m u v h body of Inl e \<Rightarrow> Inl e | Inr request \<Rightarrow> Inr (Some request)), p))"
      by (auto simp: bind_eq_Some_conv)
    have "kept I b" using body [OF b] p1 by (simp add: p_consume_def)
    then show ?thesis using g by (cases b) (auto simp: kept_def)
  next
    case False
    then show ?thesis using eq p1 by (cases x) (auto simp: kept_def split: option.splits)
  qed
qed

lemma http_parse_request_keeps:
  assumes rd: "\<And>n r. I r \<Longrightarrow> I (snd (io_read io n r))" and rdx: "\<And>n r. I r \<Longrightarrow> I (snd (io_read_exact io n r))"
    and p: "I (p_reader p)" and got: "HttpParser_parse_request C io p = Some got"
  shows "kept I got"
proof (rule parse_request_keeps [where I = I, OF _ _ _ p])
  show "parse_request C (parse_headers C (HttpParser_read_more io)) (read_body C (read_chunked_body (read_line (HttpParser_read_more io))
      (HttpParser_read_exact io) []) (HttpParser_read_fixed_body io)) p = Some got"
    using got by (simp add: HttpParser_parse_request_def HttpParser_parse_headers_def HttpParser_read_body_def
        HttpParser_read_chunked_body_def HttpParser_read_line_def)
  show "I (p_reader p) \<Longrightarrow> I (p_reader (snd (HttpParser_read_more io p)))" for p
    unfolding HttpParser_read_more_def by (rule read_more_keeps [where I = I]) (use rd in auto)
  have rdx': "I r'" if "io_read_exact io n r = (x, r')" "I r" for n r x r' using rdx [OF that(2), of n] that(1) by simp
  show "HttpParser_read_exact io n p = Some z \<Longrightarrow> I (p_reader p) \<Longrightarrow> kept I z" for n p z
    by (auto simp: HttpParser_read_exact_def Let_def kept_def p_consume_def dest!: rdx' split: if_splits prod.splits sum.splits)
  show "HttpParser_read_fixed_body io n p = Some z \<Longrightarrow> I (p_reader p) \<Longrightarrow> kept I z" for n p z
    by (auto simp: HttpParser_read_fixed_body_def Let_def kept_def p_consume_def dest!: rdx' split: if_splits prod.splits sum.splits)
qed

lemmas read_fill_induct = read_fill_loop.raw_induct [rotated, consumes 1, case_names step]

lemma read_fill_loop_keeps:
  assumes "read_fill_loop rd n data p = Some y" and "\<And>n r. I r \<Longrightarrow> I (snd (rd n r))" and "I (p_reader p)"
  shows "I (p_reader (snd y))"
  using assms
proof (induction rd n data p y rule: read_fill_induct)
  case (step f rd n data p y)
  have "I (snd (rd (min (n - length data) 8192) (p_reader p)))" using step.prems by blast
  moreover have "f rd n d p' = Some y \<Longrightarrow> I (p_reader p') \<Longrightarrow> I (p_reader (snd y))" for d p' using step.IH step.prems(1) by blast
  ultimately show ?case using step.hyps step.prems(2)
    by (cases "rd (min (n - length data) 8192) (p_reader p)") (auto split: sum.splits if_splits)
qed

lemma kimojio_parse_request_keeps:
  assumes rd: "\<And>n r. I r \<Longrightarrow> I (snd (rd n r))" and p: "I (p_reader p)" and got: "KimojioHttpParser_parse_request C rd p = Some got"
  shows "kept I got"
proof (rule parse_request_keeps [where I = I, OF _ _ _ p])
  show "parse_request C (parse_headers C (KimojioHttpParser_read_more rd)) (read_body C (read_chunked_body (read_line (KimojioHttpParser_read_more rd))
      (KimojioHttpParser_read_exact rd) []) (KimojioHttpParser_read_fixed_body rd)) p = Some got"
    using got by (simp add: KimojioHttpParser_parse_request_def KimojioHttpParser_parse_headers_def KimojioHttpParser_read_body_def
        KimojioHttpParser_read_chunked_body_def KimojioHttpParser_read_line_def)
  show "I (p_reader p) \<Longrightarrow> I (p_reader (snd (KimojioHttpParser_read_more rd p)))" for p
    unfolding KimojioHttpParser_read_more_def by (rule read_more_keeps [where I = I]) (use rd in auto)
  have fill: "I (p_reader p')" if "read_fill_loop rd n d p = Some (x, p')" "I (p_reader p)" for n d p x p'
    using read_fill_loop_keeps [where I = I, OF that(1)] rd that(2) by auto
  show ex: "KimojioHttpParser_read_exact rd n p = Some z \<Longrightarrow> I (p_reader p) \<Longrightarrow> kept I z" for n p z
    by (auto simp: KimojioHttpParser_read_exact_def Let_def kept_def p_consume_def bind_eq_Some_conv dest!: fill split: if_splits)
  show "KimojioHttpParser_read_fixed_body rd n p = Some z \<Longrightarrow> I (p_reader p) \<Longrightarrow> kept I z" for n p z
    using ex [of n p z] by (simp add: KimojioHttpParser_read_exact_def KimojioHttpParser_read_fixed_body_def)
qed

subsection \<open>The reference for a connection\<close>

text \<open>
  \<open>http_serves C show_io handler fin D out res\<close>: to the bytes \<open>D\<close>, ended by \<open>fin\<close>, the answers \<open>out\<close> are written
  and the connection ends with \<open>res\<close>.
\<close>

definition answer ::
  "('h, 'm, 'u, 'y) http_crate_scheme \<Rightarrow> (('h, 'm, 'u) request \<Rightarrow> 'h response) \<Rightarrow> ('h, 'm, 'u) request \<Rightarrow> u8 list" where
  "answer C handler req =
     serialize_response C (final_response C (should_keep_alive C (req_headers req) (req_version req)) (handler req))"

inductive http_serves ::
  "('h, 'm, 'u, 'y) http_crate_scheme \<Rightarrow> (io_error \<Rightarrow> string) \<Rightarrow> (('h, 'm, 'u) request \<Rightarrow> 'h response) \<Rightarrow> io_error option
     \<Rightarrow> u8 list \<Rightarrow> u8 list \<Rightarrow> (io_error parse_error + unit) outcome \<Rightarrow> bool"
  for C show_io handler fin where
  served: "http_serves C show_io handler fin D (answer C handler req @ out) res"
    if "ref_request C ParseError_from_io fin D = Done (Inr (Some req), D')"
      "should_keep_alive C (req_headers req) (req_version req)" "http_serves C show_io handler fin D' out res"
| last: "http_serves C show_io handler fin D (answer C handler req) (Done (Inr ()))"
    if "ref_request C ParseError_from_io fin D = Done (Inr (Some req), D')"
      "\<not> should_keep_alive C (req_headers req) (req_version req)"
| closed: "http_serves C show_io handler fin D [] (Done (Inr ()))"
    if "ref_request C ParseError_from_io fin D = Done (Inr None, D')"
| cut: "http_serves C show_io handler fin D [] (Done (Inr ()))"
    if "ref_request C ParseError_from_io fin D = Done (Inl PE_ConnectionClosed, D')"
| bad: "http_serves C show_io handler fin D (serialize_response C (bad_request C (ParseError_fmt C show_io e))) (Done (Inl e))"
    if "ref_request C ParseError_from_io fin D = Done (Inl e, D')" "e \<noteq> PE_ConnectionClosed"
| panicked: "http_serves C show_io handler fin D [] (Panic m)"
    if "ref_request C ParseError_from_io fin D = Panic m"

inductive_cases http_servesE: "http_serves C show_io handler fin D out res"

lemma http_serves_det:
  "http_serves C show_io handler fin D out res \<Longrightarrow> http_serves C show_io handler fin D out' res' \<Longrightarrow> out' = out \<and> res' = res"
  by (induction arbitrary: out' res' rule: http_serves.induct) (erule http_servesE; auto)+

text \<open>A request takes at least one byte.\<close>

lemma ref_chunked_length: "ref_chunked stop body D = Done (Inr b, D') \<Longrightarrow> length D' \<le> length D"
proof (induction stop body D rule: ref_chunked.induct)
  case (1 stop body D)
  obtain x D1 where l: "ref_line stop D = (x, D1)" by (cases "ref_line stop D")
  note eq = 1(2) [unfolded ref_chunked.simps [of stop body D] l, simplified]
  obtain sz n where x: "x = Inr sz" and n: "from_str_radix usize_max 16 (trim (split_first 59 sz)) = Some n"
    using eq by (auto split: sum.splits option.splits)
  note D1 = ref_line_shrinks [OF l [unfolded x]] and eq = eq [unfolded x n, simplified]
  show ?case
  proof (cases "n = 0")
    case True
    then show ?thesis using eq n D1 by (auto dest: ref_line_shrinks split: prod.splits sum.splits)
  next
    case False
    with eq n obtain c D2 l' D3 where c: "ref_exact stop n D1 = Done (Inr c, D2)" "ref_line stop D2 = (Inr l', D3)"
      "ref_chunked stop (body @ c) D3 = Done (Inr b, D')"
      by (auto split: outcome.splits prod.splits sum.splits)
    have "length D' \<le> length D3" using 1(1) l x n False c by auto
    then show ?thesis using ref_chunk_shrinks [OF l [unfolded x, symmetric] c(1) c(2) [symmetric]] by simp
  qed
qed

lemma ref_request_shrinks:
  assumes law: "httparse_law C" and req: "ref_request C conv fin D = Done (Inr (Some req), D')"
  shows "length D' < length D"
proof -
  obtain m u v h n where hd: "ref_head C conv fin D = Inr (Some (m, u, v, h, n))"
    using req by (auto simp: ref_request_def split: sum.splits option.splits)
  then obtain rq where "hp_parse C MAX_HEADERS (take MAX_BUF_SIZE D) = Inr (Complete n rq)"
    by (auto simp: ref_head_def complete_head_def Let_def split: sum.splits hp_status.splits option.splits if_splits)
  with law have "0 < n \<and> n \<le> length (take MAX_BUF_SIZE D)" unfolding httparse_law_def by blast
  then have n: "0 < n" "n \<le> length D" by auto
  obtain x where x: "ref_body C (end_error conv fin) h (drop n D) = Done (x, D')"
    using req hd by (cases "ref_body C (end_error conv fin) h (drop n D)") (auto simp: ref_request_def)
  then obtain b where b: "ref_body C (end_error conv fin) h (drop n D) = Done (Inr b, D')"
    using req hd by (cases x) (auto simp: ref_request_def)
  have "length D' \<le> length (drop n D)"
    using b by (auto simp: ref_body_def dest!: ref_chunked_length ref_exact_shrinks split: if_splits option.splits)
  then show ?thesis using n by simp
qed

subsection \<open>A connection is served as the reference says\<close>

text \<open>
  What a connection that returned has done: all of the reference, or a part of what the reference writes when
  writing failed.
\<close>

definition never_fails :: "('r, 'z) async_io_scheme \<Rightarrow> bool" where
  "never_fails io \<longleftrightarrow> (\<forall>bs r. \<not> isl (fst (io_write_all io bs r)) \<and> \<not> isl (fst (io_flush io r)))"

definition served_as ::
  "('r, 'z) async_io_scheme \<Rightarrow> ('r \<Rightarrow> u8 list) \<Rightarrow> 'r \<Rightarrow> u8 list \<Rightarrow> (io_error parse_error + unit) outcome
     \<Rightarrow> ((io_error parse_error + unit) \<times> 'r) outcome \<Rightarrow> bool" where
  "served_as io out r w res got =
     (case got of
        Panic m \<Rightarrow> res = Panic m
      | Done (x, r') \<Rightarrow> prefix (out r') (out r @ w)
          \<and> (Done x = res \<or> (\<exists>e. x = Inl (PE_Io e)))
          \<and> (never_fails io \<longrightarrow> out r' = out r @ w \<and> Done x = res))"

text \<open>
  The stream of a connection: \<open>out\<close> is what has been written. Writing all of a buffer appends it, or an initial
  part of it when it fails; reads and \<open>flush\<close> write nothing, and writes do not change what is to be read.
\<close>

locale http_stream = exact_source "io_read io" src "io_read_exact io" for io :: "('r, 'z) async_io_scheme" and src +
  fixes out :: "'r \<Rightarrow> u8 list"
  assumes read_out: "out (snd (io_read io n r)) = out r" "out (snd (io_read_exact io n r)) = out r"
    and write_out: "io_write_all io bs r = (Inr (), r') \<Longrightarrow> out r' = out r @ bs \<and> src r' = src r"
    and write_fails: "io_write_all io bs r = (Inl e, r') \<Longrightarrow> \<exists>k \<le> length bs. out r' = out r @ take k bs"
    and flush_out: "io_flush io r = (x, r') \<Longrightarrow> out r' = out r \<and> src r' = src r"
begin

lemma write_response_cases:
  obtains (ok) r' where "write_response C io response r = (Inr (), r')" "out r' = out r @ serialize_response C response" "src r' = src r"
  | (err) e r' k where "write_response C io response r = (Inl e, r')" "out r' = out r @ take k (serialize_response C response)"
      "\<not> never_fails io"
proof -
  let ?bs = "serialize_response C response"
  obtain x r1 where w: "io_write_all io ?bs r = (x, r1)" by (cases "io_write_all io ?bs r")
  obtain y r2 where f: "io_flush io r1 = (y, r2)" by (cases "io_flush io r1")
  show thesis
  proof (cases x)
    case (Inl e)
    then obtain k where "out r1 = out r @ take k ?bs" using write_fails w by blast
    moreover have "\<not> never_fails io" unfolding never_fails_def using w Inl by (metis fst_conv isl_def)
    ultimately show thesis using err [of e r1 k] w Inl by (simp add: write_response_def)
  next
    case (Inr u)
    then have o: "out r2 = out r @ ?bs" "src r2 = src r" using write_out flush_out [OF f] w by auto
    show thesis
    proof (cases y)
      case (Inl e)
      then have "\<not> never_fails io" unfolding never_fails_def using f by (metis fst_conv isl_def)
      then show thesis using err [of e r2 "length ?bs"] w f \<open>x = Inr u\<close> Inl o by (simp add: write_response_def)
    next
      case (Inr u')
      then show thesis using ok [of r2] w f \<open>x = Inr u\<close> o by (simp add: write_response_def)
    qed
  qed
qed

lemma served_as_append:
  "served_as io out r1 w res got \<Longrightarrow> out r1 = out r @ a \<Longrightarrow> served_as io out r (a @ w) res got"
  by (auto simp: served_as_def split: outcome.splits)

text \<open>The step for one request, given the rest of the connection.\<close>

lemma answer_ref:
  assumes ref: "ref_request C ParseError_from_io fin D = Done (Inr (Some req), D')"
    and rest: "\<And>r. src r = src (p_reader p) \<Longrightarrow> \<exists>got w res. connection_loop C show_io io handler (p\<lparr>p_reader := r\<rparr>) = Some got
      \<and> http_serves C show_io handler fin D' w res \<and> served_as io out r w res got"
  defines "ka \<equiv> should_keep_alive C (req_headers req) (req_version req)"
  shows "\<exists>got w res. (case write_response C io (final_response C ka (handler req)) (p_reader p) of
             (Inl e, r) \<Rightarrow> Some (Done (Inl (PE_Io e), r))
           | (Inr _, r) \<Rightarrow> if ka then connection_loop C show_io io handler (p\<lparr>p_reader := r\<rparr>) else Some (Done (Inr (), r))) = Some got
    \<and> http_serves C show_io handler fin D w res \<and> served_as io out (p_reader p) w res got"
proof -
  have a: "serialize_response C (final_response C ka (handler req)) = answer C handler req" by (simp add: answer_def ka_def)
  have last: "\<not> ka \<Longrightarrow> http_serves C show_io handler fin D (answer C handler req) (Done (Inr ()))"
    unfolding ka_def by (rule http_serves.last [OF ref])
  have served: "ka \<Longrightarrow> http_serves C show_io handler fin D' w res \<Longrightarrow> http_serves C show_io handler fin D (answer C handler req @ w) res" for w res
    unfolding ka_def by (rule http_serves.served [OF ref])
  show ?thesis
  proof (rule write_response_cases [of C "final_response C ka (handler req)" "p_reader p"])
    fix r'
    assume w: "write_response C io (final_response C ka (handler req)) (p_reader p) = (Inr (), r')"
      "out r' = out (p_reader p) @ serialize_response C (final_response C ka (handler req))" "src r' = src (p_reader p)"
    show ?thesis
    proof (cases ka)
      case True
      from rest [OF w(3)] obtain got w' res where "connection_loop C show_io io handler (p\<lparr>p_reader := r'\<rparr>) = Some got"
        "http_serves C show_io handler fin D' w' res" "served_as io out r' w' res got" by (elim exE conjE)
      then show ?thesis using w(1) w(2) [unfolded a] True served served_as_append by (simp, blast)
    next
      case False
      then show ?thesis using w(1) w(2) [unfolded a] last by (fastforce simp: served_as_def)
    qed
  next
    fix e r' k
    assume w: "write_response C io (final_response C ka (handler req)) (p_reader p) = (Inl e, r')"
      "out r' = out (p_reader p) @ take k (serialize_response C (final_response C ka (handler req)))" "\<not> never_fails io"
    obtain w' res where "http_serves C show_io handler fin D (answer C handler req @ w') res"
      using rest [of "p_reader p"] last served by (metis append_Nil2)
    moreover have "prefix (out r') (out (p_reader p) @ answer C handler req @ w')"
      using w(2) by (simp add: a take_is_prefix prefix_prefix)
    ultimately show ?thesis using w(1,3) by (fastforce simp: served_as_def)
  qed
qed

lemma connection_loop_ref:
  assumes law: "httparse_law C"
  shows "p_leaves src fin p D \<Longrightarrow> \<exists>got w res. connection_loop C show_io io handler p = Some got
    \<and> http_serves C show_io handler fin D w res \<and> served_as io out (p_reader p) w res got"
proof (induction "length D" arbitrary: p D rule: less_induct)
  case less
  from http_parse_request_ref [OF exact_source_axioms law less.prems] obtain got0 where
    g: "HttpParser_parse_request C io p = Some got0" "p_agrees src fin got0 (ref_request C ParseError_from_io fin D)"
    by (elim exE conjE)
  have k: "kept (\<lambda>r. out r = out (p_reader p)) got0"
    by (rule http_parse_request_keeps [OF _ _ _ g(1)]) (simp_all add: read_out)
  note eq = connection_loop.simps [of C show_io io handler p, unfolded g(1), simplified]
  show ?case
  proof (cases "ref_request C ParseError_from_io fin D")
    case (Panic m)
    then have "got0 = Panic m" using g(2) by (simp add: p_agrees_def)
    then show ?thesis using eq http_serves.panicked [OF Panic] by (auto simp: served_as_def)
  next
    case (Done y)
    obtain x D' where y: "y = (x, D')" by (cases y)
    then obtain p' where g0: "got0 = Done (x, p')" and p': "isl x \<or> p_leaves src fin p' D'"
      using g(2) Done by (auto simp: p_agrees_def)
    have o: "out (p_reader p') = out (p_reader p)" using k g0 by (simp add: kept_def)
    note ref = Done [unfolded y]
    show ?thesis
    proof (cases x)
      case (Inl e)
      show ?thesis
      proof (cases "e = PE_ConnectionClosed")
        case True
        then show ?thesis using eq g0 Inl o http_serves.cut ref by (fastforce simp: served_as_def)
      next
        case False
        let ?b = "bad_request C (ParseError_fmt C show_io e)"
        have s: "http_serves C show_io handler fin D (serialize_response C ?b) (Done (Inl e))"
          using http_serves.bad ref Inl False by blast
        have l: "connection_loop C show_io io handler p = Some (Done (Inl e, snd (write_response C io ?b (p_reader p'))))"
          using eq g0 Inl False by simp
        have "served_as io out (p_reader p) (serialize_response C ?b) (Done (Inl e)) (Done (Inl e, snd (write_response C io ?b (p_reader p'))))"
          by (rule write_response_cases [of C ?b "p_reader p'"])
            (auto simp: served_as_def o take_is_prefix)
        then show ?thesis using s l by blast
      qed
    next
      case (Inr q)
      show ?thesis
      proof (cases q)
        case None
        then show ?thesis using eq g0 Inr o http_serves.closed ref by (fastforce simp: served_as_def)
      next
        case (Some req)
        let ?ka = "should_keep_alive C (req_headers req) (req_version req)"
        have l: "connection_loop C show_io io handler p =
          (case write_response C io (final_response C ?ka (handler req)) (p_reader p') of
             (Inl e, r) \<Rightarrow> Some (Done (Inl (PE_Io e), r))
           | (Inr _, r) \<Rightarrow> if ?ka then connection_loop C show_io io handler (p'\<lparr>p_reader := r\<rparr>) else Some (Done (Inr (), r)))"
          using eq g0 Inr Some by (simp add: Let_def)
        have shorter: "length D' < length D" using ref_request_shrinks [OF law] ref Inr Some by blast
        note ref' = ref [unfolded Inr Some]
        have p'': "p_leaves src fin (p'\<lparr>p_reader := r\<rparr>) D'" if "src r = src (p_reader p')" for r
          using p' Inr that by (simp add: p_leaves_def p_pending_def p_content_def parser_ok_def)
        have "\<exists>got w res. connection_loop C show_io io handler p = Some got
            \<and> http_serves C show_io handler fin D w res \<and> served_as io out (p_reader p') w res got"
          unfolding l
        proof (rule answer_ref [OF ref'])
          fix r
          assume "src r = src (p_reader p')"
          then show "\<exists>got w res. connection_loop C show_io io handler (p'\<lparr>p_reader := r\<rparr>) = Some got
              \<and> http_serves C show_io handler fin D' w res \<and> served_as io out r w res got"
            using less.hyps [OF shorter p''] by simp
        qed
        moreover have "served_as io out (p_reader p') = served_as io out (p_reader p)" by (intro ext) (simp add: served_as_def o split: outcome.split)
        ultimately show ?thesis by simp
      qed
    qed
  qed
qed

end

interpretation seg_conn: http_stream seg_io seg_src seg_out
proof
  fix n r
  show "seg_out (snd (io_read seg_io n r)) = seg_out r"
    by (simp add: seg_io_def seg_read_def split: prod.split list.split)
qed (auto simp: seg_io_def seg_read_exact_def seg_src_def Let_def)

text \<open>
  C4. A connection is served as its bytes say. However the bytes arrive and whatever the handler answers, the
  server returns, and it has written exactly the answers to the requests in their order: one for every
  request up to the first that does not ask to keep the connection, the end of the stream, or a request
  that cannot be parsed, which is answered with 400 and reported; a failing write cuts the output short.
\<close>

theorem connection_served:
  assumes "http_stream io src out" and "httparse_law C"
  shows "\<exists>got w res. handle_connection C show_io io handler r = Some got
    \<and> http_serves C show_io handler (snd (src r)) (fst (src r)) w res \<and> served_as io out r w res got"
proof -
  have "p_leaves src (snd (src r)) (HttpParser_new r) (fst (src r))" by (simp add: p_leaves_def)
  from http_stream.connection_loop_ref [OF assms this, of show_io handler] show ?thesis
    by (simp add: handle_connection_def HttpParser_new_def)
qed

lemma demo_rest: "ref_request sim_crate conv None (bytes ''GET'') = Done (Inl PE_ConnectionClosed, bytes ''GET'')"
proof -
  have "hp_parse sim_crate MAX_HEADERS (bytes ''GET'') = Inr Partial" "bytes ''GET'' \<noteq> []" by code_simp+
  then show ?thesis by (simp add: ref_request_def ref_head_def end_error_def MAX_BUF_SIZE_def)
qed

lemma demo_served:
  "http_serves sim_crate show_io handler None (concat demo_pieces) (answer sim_crate handler demo_request @ []) (Done (Inr ()))"
proof (rule http_serves.served [OF demo_ref])
  show "should_keep_alive sim_crate (req_headers demo_request) (req_version demo_request)" by code_simp
qed (rule http_serves.cut [OF demo_rest])

theorem connection_served_witness:
  "\<exists>r'. handle_connection sim_crate io_msg seg_io (simple_echo_handler sim_crate) \<lparr>seg_in = demo_pieces, seg_end = None, seg_out = []\<rparr>
       = Some (Done (Inr (), r'))
     \<and> seg_out r' = bytes ''HTTP/1.1 200 OK'' @ crlf @ bytes ''content-type: text/plain'' @ crlf
         @ bytes ''Content-Length: 6'' @ crlf @ crlf @ bytes ''Hello!''"
proof -
  let ?r = "\<lparr>seg_in = demo_pieces, seg_end = None, seg_out = []\<rparr>" and ?h = "simple_echo_handler sim_crate"
  have "never_fails seg_io" by (simp add: never_fails_def seg_io_def)
  moreover obtain got w res where g: "handle_connection sim_crate io_msg seg_io ?h ?r = Some got"
    "http_serves sim_crate io_msg ?h None (concat demo_pieces) w res" "served_as seg_io seg_out ?r w res got"
    using connection_served [OF seg_conn.http_stream_axioms sim_crate_law, of io_msg ?h ?r] by (auto simp: seg_src_def)
  moreover have "w = answer sim_crate ?h demo_request" "res = Done (Inr ())" using http_serves_det [OF demo_served g(2)] by simp_all
  moreover have "answer sim_crate ?h demo_request = bytes ''HTTP/1.1 200 OK'' @ crlf @ bytes ''content-type: text/plain'' @ crlf
         @ bytes ''Content-Length: 6'' @ crlf @ crlf @ bytes ''Hello!''" by code_simp
  ultimately show ?thesis by (auto simp: served_as_def split: outcome.splits)
qed

subsection \<open>Pipelined requests and kimojio\<close>

text \<open>A reader that has delivered everything stays so.\<close>

lemma test_reader_done: "TestReader_src r = ([], None) \<Longrightarrow> TestReader_src (snd (TestReader_try_read n r)) = ([], None)"
  by (auto simp: TestReader_src_def TestReader_try_read_def)

lemma parse_empty:
  assumes "httparse_law C" and "hp_parse C MAX_HEADERS D = Inr (Complete n rq)"
  shows "hp_parse C MAX_HEADERS [] = Inr Partial"
proof (cases "hp_parse C MAX_HEADERS []")
  case (Inl e)
  with assms(1) have "hp_parse C MAX_HEADERS ([] @ D) = Inl e" unfolding httparse_law_def by blast
  with assms(2) show ?thesis by simp
next
  case (Inr st)
  with assms(1) show ?thesis by (cases st) (fastforce simp: httparse_law_def)+
qed

lemma ref_request_empty:
  assumes "httparse_law C" and "ref_request C conv None D = Done (Inr (Some req), D')"
  shows "hp_parse C MAX_HEADERS [] = Inr Partial" and "ref_request C conv' None [] = Done (Inr None, [])"
proof -
  show e: "hp_parse C MAX_HEADERS [] = Inr Partial"
    using assms(2) parse_empty [OF assms(1)]
    by (auto simp: ref_request_def ref_head_def split: sum.splits hp_status.splits option.splits if_splits)
  then show "ref_request C conv' None [] = Done (Inr None, [])"
    by (simp add: ref_request_def ref_head_def MAX_BUF_SIZE_def)
qed

text \<open>The first read takes all of a short stream into the buffer.\<close>

lemma first_read:
  fixes D :: "u8 list"
  assumes "D \<noteq> []" and "length D \<le> INITIAL_BUF_SIZE"
  defines "p0 \<equiv> KimojioHttpParser_new (TestReader_new D)"
  obtains p1 where "KimojioHttpParser_read_more TestReader_try_read p0 = (Inr (length D), p1)"
    "TestReader_src (p_reader p1) = ([], None)" "p_leaves TestReader_src None p1 D"
proof -
  let ?p1 = "p0\<lparr>p_reader := \<lparr>tr_data = D, tr_pos = length D\<rparr>, p_buf := slice_write (p_buf p0) 0 D, p_len := length D\<rparr>"
  have l: "length (p_buf p0) = 1024" "p_len p0 = 0" "p_reader p0 = \<lparr>tr_data = D, tr_pos = 0\<rparr>"
    by (simp_all add: p0_def KimojioHttpParser_new_def INITIAL_BUF_SIZE_def TestReader_new_def)
  then have r: "KimojioHttpParser_read_more TestReader_try_read p0 = (Inr (length D), ?p1)"
    using assms(1,2) by (simp add: KimojioHttpParser_read_more_def read_more_def TestReader_try_read_def INITIAL_BUF_SIZE_def)
  have "length D \<le> 1024" using assms(2) by (simp add: INITIAL_BUF_SIZE_def)
  then have "parser_ok ?p1" "p_content ?p1 = D"
    using l by (auto simp: parser_ok_def p_content_def slice_write_def intro: exI [of _ 0])
  then show thesis using r by (intro that [of ?p1]) (simp_all add: p_leaves_def p_pending_def TestReader_src_def)
qed

text \<open>
  C36. The server for kimojio drops pipelined requests. When a client sends a request that keeps the connection
  and more bytes arrive with it in the first read, the server answers the first request, discards the
  rest of the buffer with \<open>reset\<close>, and ends the connection as if the client had sent nothing else.
\<close>

theorem kimojio_drops_pipelined:
  assumes law: "httparse_law C" and len: "length D \<le> INITIAL_BUF_SIZE"
    and req: "ref_request C (\<lambda>e :: string parse_error. e) None D = Done (Inr (Some req), D')"
    and ka: "should_keep_alive C (req_headers req) (req_version req)"
  shows "\<exists>r'. handle_http_connection C TestReader_try_read TestWriter_write_all handler (TestReader_new D) TestWriter_new
    = Some (Done (Inr (), r', \<lparr>tw_data = answer C handler req\<rparr>))"
proof -
  let ?p0 = "KimojioHttpParser_new (TestReader_new D)" and ?rd = TestReader_try_read
  have "D \<noteq> []" using ref_request_shrinks [OF law req] by auto
  from first_read [OF this len] obtain p1 where p1: "KimojioHttpParser_read_more ?rd ?p0 = (Inr (length D), p1)"
    "TestReader_src (p_reader p1) = ([], None)" "p_leaves TestReader_src None p1 D" .
  have "p_content ?p0 = []" by (simp add: p_content_def KimojioHttpParser_new_def)
  then have "KimojioHttpParser_parse_headers C ?rd ?p0 = KimojioHttpParser_parse_headers C ?rd p1"
    unfolding KimojioHttpParser_parse_headers_def
    by (subst parse_headers.simps) (simp add: ref_request_empty(1) [OF law req] p1(1) \<open>D \<noteq> []\<close>)
  then have eq: "KimojioHttpParser_parse_request C ?rd ?p0 = KimojioHttpParser_parse_request C ?rd p1"
    by (simp add: KimojioHttpParser_parse_request_def parse_request_def)
  from kimojio_parse_request_ref [OF test_reader.byte_source_axioms law p1(3)] req obtain p2 where
    p2: "KimojioHttpParser_parse_request C ?rd p1 = Some (Done (Inr (Some req), p2))" "p_leaves TestReader_src None p2 D'"
    by (auto simp: p_agrees_def)
  from kimojio_parse_request_keeps [where I = "\<lambda>r. TestReader_src r = ([], None)", OF test_reader_done p1(2) p2(1)]
  have "p_leaves TestReader_src None (KimojioHttpParser_reset p2) []"
    using p2(2) by (auto simp: kept_def p_leaves_def p_pending_def p_content_def KimojioHttpParser_reset_def parser_ok_def)
  from kimojio_parse_request_ref [OF test_reader.byte_source_axioms law this] obtain p3 where
    p3: "KimojioHttpParser_parse_request C ?rd (KimojioHttpParser_reset p2) = Some (Done (Inr None, p3))"
    by (auto simp: p_agrees_def ref_request_empty(2) [OF law req])
  show ?thesis unfolding handle_http_connection_def
    by (subst http_connection_loop.simps, subst http_connection_loop.simps)
      (simp add: eq p2(1) p3 ka kimojio_write_response_def TestWriter_write_all_def TestWriter_new_def answer_def)
qed

definition demo_get :: "u8 list" where
  "demo_get = bytes ''GET / HTTP/1.1'' @ crlf @ crlf"

definition demo_get_request :: "((string \<times> u8 list) list, u8 list, string) request" where
  "demo_get_request = \<lparr>req_method = bytes ''GET'', req_uri = ''/'', req_version = HTTP_11, req_headers = [], req_body = []\<rparr>"

lemma demo_get_ref:
  "ref_request sim_crate (\<lambda>e :: string parse_error. e) None (demo_get @ demo_get) = Done (Inr (Some demo_get_request), demo_get)"
proof -
  let ?rq = "\<lparr>rq_method = Some (bytes ''GET''), rq_path = Some ''/'', rq_version = Some 1, rq_headers = []\<rparr>"
  have "hp_parse sim_crate MAX_HEADERS (demo_get @ demo_get) = Inr (Complete 18 ?rq)"
    "complete_head sim_crate 18 ?rq = (Inr (bytes ''GET'', ''/'', HTTP_11, [], 18) :: string parse_error + _)"
    "drop 18 (demo_get @ demo_get) = demo_get" "\<not> is_chunked sim_crate []" "get_content_length sim_crate [] = None"
    "length (demo_get @ demo_get) = 36" by code_simp+
  then show ?thesis
    by (simp add: ref_request_def ref_head_def ref_body_def MAX_BUF_SIZE_def)
      (simp add: build_request_def sim_crate_def demo_get_request_def)
qed

theorem kimojio_drops_pipelined_witness:
  "\<exists>r'. handle_http_connection sim_crate TestReader_try_read TestWriter_write_all (simple_echo_handler sim_crate)
       (TestReader_new (demo_get @ demo_get)) TestWriter_new
     = Some (Done (Inr (), r', \<lparr>tw_data = answer sim_crate (simple_echo_handler sim_crate) demo_get_request\<rparr>))"
proof (rule kimojio_drops_pipelined [OF sim_crate_law _ demo_get_ref])
  show "length (demo_get @ demo_get) \<le> INITIAL_BUF_SIZE" by (simp add: demo_get_def crlf_def INITIAL_BUF_SIZE_def)
  show "should_keep_alive sim_crate (req_headers demo_get_request) (req_version demo_get_request)" by code_simp
qed

end
