(* ===== verification/Http_Pool.thy ===== *)
theory Http_Pool
  imports Tcp_Socket
begin

section \<open>The HTTP client and its pool (dpdk-net-util, client.rs, connection.rs, pool.rs, error.rs)\<close>

text \<open>
  Connections of the client are made over the TCP sockets of the library and handed to hyper, which is a
  parameter: \<open>'hs\<close> is a \<open>SendRequest\<close> handle, \<open>'he\<close> is \<open>hyper::Error\<close>. An \<open>await\<close> is a parameter as well, the
  value its future ends with and the state at that time.
\<close>

datatype 'he util_error = Err_Connect connect_error | Err_ConnectionFailed | Err_Handshake 'he | Err_Request 'he
  | Err_MissingHost | Err_ConnectionNotReady

definition Error_fmt :: "(connect_error \<Rightarrow> string) \<Rightarrow> ('he \<Rightarrow> string) \<Rightarrow> 'he util_error \<Rightarrow> string" where
  "Error_fmt show_connect show_hyper e =
     (case e of
        Err_Connect e \<Rightarrow> ''TCP connect error: '' @ show_connect e
      | Err_ConnectionFailed \<Rightarrow> ''TCP connection failed''
      | Err_Handshake e \<Rightarrow> ''HTTP handshake error: '' @ show_hyper e
      | Err_Request e \<Rightarrow> ''HTTP request error: '' @ show_hyper e
      | Err_MissingHost \<Rightarrow> ''missing host in request URI''
      | Err_ConnectionNotReady \<Rightarrow> ''connection is closed or not ready'')"

definition Error_source :: "'he util_error \<Rightarrow> (connect_error + 'he) option" where
  "Error_source e =
     (case e of
        Err_Connect e \<Rightarrow> Some (Inl e)
      | Err_Handshake e \<Rightarrow> Some (Inr e)
      | Err_Request e \<Rightarrow> Some (Inr e)
      | _ \<Rightarrow> None)"

definition Error_from :: "connect_error \<Rightarrow> 'he util_error" where
  "Error_from e = Err_Connect e"

subsection \<open>Connections\<close>

datatype http_version_kind = Http1 | Http2

datatype 'hs connection = Conn_Http1 'hs | Conn_Http2 'hs

text \<open>The state of an lcore: its reactor and what hyper keeps.\<close>

record ('d, 'i, 'S, 'h) client_world =
  cw_reactor :: "('d, 'i, 'S) reactor_inner"
  cw_hyper :: 'h

record ('w, 'hs, 'he, 'q, 'a) hyper_ops =
  wait_connected :: "tcp_stream \<Rightarrow> 'w \<Rightarrow> (unit + unit) \<times> 'w"
  http1_handshake :: "tcp_stream \<Rightarrow> 'w \<Rightarrow> ('he + 'hs) \<times> 'w"
  http2_handshake :: "tcp_stream \<Rightarrow> 'w \<Rightarrow> ('he + 'hs) \<times> 'w"
  http1_is_ready :: "'hs \<Rightarrow> 'w \<Rightarrow> bool"
  http2_is_ready :: "'hs \<Rightarrow> 'w \<Rightarrow> bool"
  http1_send_request :: "'hs \<Rightarrow> 'q \<Rightarrow> 'w \<Rightarrow> ('he + 'a) \<times> 'w"
  http2_send_request :: "'hs \<Rightarrow> 'q \<Rightarrow> 'w \<Rightarrow> ('he + 'a) \<times> 'w"

type_synonym ('d, 'i, 'S, 'h, 'he, 'x) open_fn =
  "ip_address \<Rightarrow> u16 \<Rightarrow> u16 \<Rightarrow> nat \<Rightarrow> nat \<Rightarrow> ('d, 'i, 'S, 'h) client_world
     \<Rightarrow> (('he util_error + 'x) \<times> ('d, 'i, 'S, 'h) client_world) outcome"

text \<open>A stream whose connection failed is dropped when \<open>?\<close> returns.\<close>

definition Connection_connect_tcp ::
  "('S, 't, 'u, 'i, 'd, 'z) smol_scheme \<Rightarrow> (('d, 'i, 'S, 'h) client_world, 'hs, 'he, 'q, 'a, 'y) hyper_ops_scheme
     \<Rightarrow> ('d, 'i, 'S, 'h, 'he, tcp_stream) open_fn" where
  "Connection_connect_tcp F H addr port local_port rx_buffer tx_buffer w =
     (case TcpStream_connect F addr port local_port rx_buffer tx_buffer (cw_reactor w) of
        (Inl e, R) \<Rightarrow> Done (Inl (Error_from e), w\<lparr>cw_reactor := R\<rparr>)
      | (Inr stream, R) \<Rightarrow>
          (case wait_connected H stream (w\<lparr>cw_reactor := R\<rparr>) of
             (Inl _, w) \<Rightarrow> outcome_bind (TcpStream_drop F stream (cw_reactor w)) (\<lambda>R.
                             Done (Inl Err_ConnectionFailed, w\<lparr>cw_reactor := R\<rparr>))
           | (Inr _, w) \<Rightarrow> Done (Inr stream, w)))"

definition Connection_http1 ::
  "('S, 't, 'u, 'i, 'd, 'z) smol_scheme \<Rightarrow> (('d, 'i, 'S, 'h) client_world, 'hs, 'he, 'q, 'a, 'y) hyper_ops_scheme
     \<Rightarrow> ('d, 'i, 'S, 'h, 'he, 'hs connection) open_fn" where
  "Connection_http1 F H addr port local_port rx_buffer tx_buffer w =
     outcome_bind (Connection_connect_tcp F H addr port local_port rx_buffer tx_buffer w) (\<lambda>(r, w).
       case r of
         Inl e \<Rightarrow> Done (Inl e, w)
       | Inr io \<Rightarrow> (case http1_handshake H io w of
                     (Inl e, w) \<Rightarrow> Done (Inl (Err_Handshake e), w)
                   | (Inr sender, w) \<Rightarrow> Done (Inr (Conn_Http1 sender), w)))"

definition Connection_http2 ::
  "('S, 't, 'u, 'i, 'd, 'z) smol_scheme \<Rightarrow> (('d, 'i, 'S, 'h) client_world, 'hs, 'he, 'q, 'a, 'y) hyper_ops_scheme
     \<Rightarrow> ('d, 'i, 'S, 'h, 'he, 'hs connection) open_fn" where
  "Connection_http2 F H addr port local_port rx_buffer tx_buffer w =
     outcome_bind (Connection_connect_tcp F H addr port local_port rx_buffer tx_buffer w) (\<lambda>(r, w).
       case r of
         Inl e \<Rightarrow> Done (Inl e, w)
       | Inr io \<Rightarrow> (case http2_handshake H io w of
                     (Inl e, w) \<Rightarrow> Done (Inl (Err_Handshake e), w)
                   | (Inr sender, w) \<Rightarrow> Done (Inr (Conn_Http2 sender), w)))"

text \<open>The free functions of connect.rs.\<close>

definition http1_connect ::
  "('S, 't, 'u, 'i, 'd, 'z) smol_scheme \<Rightarrow> (('d, 'i, 'S, 'h) client_world, 'hs, 'he, 'q, 'a, 'y) hyper_ops_scheme
     \<Rightarrow> ('d, 'i, 'S, 'h, 'he, 'hs connection) open_fn" where
  "http1_connect F H addr port local_port rx_buffer tx_buffer w = Connection_http1 F H addr port local_port rx_buffer tx_buffer w"

definition http2_connect ::
  "('S, 't, 'u, 'i, 'd, 'z) smol_scheme \<Rightarrow> (('d, 'i, 'S, 'h) client_world, 'hs, 'he, 'q, 'a, 'y) hyper_ops_scheme
     \<Rightarrow> ('d, 'i, 'S, 'h, 'he, 'hs connection) open_fn" where
  "http2_connect F H addr port local_port rx_buffer tx_buffer w = Connection_http2 F H addr port local_port rx_buffer tx_buffer w"

definition Connection_is_ready :: "('w, 'hs, 'he, 'q, 'a, 'y) hyper_ops_scheme \<Rightarrow> 'hs connection \<Rightarrow> 'w \<Rightarrow> bool" where
  "Connection_is_ready H c w = (case c of Conn_Http1 s \<Rightarrow> http1_is_ready H s w | Conn_Http2 s \<Rightarrow> http2_is_ready H s w)"

definition Connection_version :: "'hs connection \<Rightarrow> http_version_kind" where
  "Connection_version c = (case c of Conn_Http1 _ \<Rightarrow> Http1 | Conn_Http2 _ \<Rightarrow> Http2)"

definition Connection_send_request ::
  "('w, 'hs, 'he, 'q, 'a, 'y) hyper_ops_scheme \<Rightarrow> 'hs connection \<Rightarrow> 'q \<Rightarrow> 'w \<Rightarrow> ('he util_error + 'a) \<times> 'w" where
  "Connection_send_request H c request w =
     (case (case c of
              Conn_Http1 sender \<Rightarrow> http1_send_request H sender request w
            | Conn_Http2 sender \<Rightarrow> http2_send_request H sender request w) of
        (Inl e, w) \<Rightarrow> (Inl (Err_Request e), w)
      | (Inr a, w) \<Rightarrow> (Inr a, w))"

subsection \<open>The client\<close>

record client_config =
  rx_buffer_size :: nat
  tx_buffer_size :: nat
  cfg_http_version :: http_version_kind
  connect_timeout_secs :: nat

definition ClientConfig_default :: client_config where
  "ClientConfig_default = \<lparr>rx_buffer_size = 16384, tx_buffer_size = 16384, cfg_http_version = Http1, connect_timeout_secs = 5\<rparr>"

record dpdk_http_client =
  cl_config :: client_config

definition DpdkHttpClient_with_config :: "client_config \<Rightarrow> dpdk_http_client" where
  "DpdkHttpClient_with_config config = \<lparr>cl_config = config\<rparr>"

definition DpdkHttpClient_new :: dpdk_http_client where
  "DpdkHttpClient_new = DpdkHttpClient_with_config ClientConfig_default"

definition DpdkHttpClient_connect ::
  "('S, 't, 'u, 'i, 'd, 'z) smol_scheme \<Rightarrow> (('d, 'i, 'S, 'h) client_world, 'hs, 'he, 'q, 'a, 'y) hyper_ops_scheme
     \<Rightarrow> dpdk_http_client \<Rightarrow> ip_address \<Rightarrow> u16 \<Rightarrow> u16 \<Rightarrow> ('d, 'i, 'S, 'h) client_world
     \<Rightarrow> (('he util_error + 'hs connection) \<times> ('d, 'i, 'S, 'h) client_world) outcome" where
  "DpdkHttpClient_connect F H c addr port local_port w =
     (let cfg = cl_config c
      in case cfg_http_version cfg of
           Http1 \<Rightarrow> Connection_http1 F H addr port local_port (rx_buffer_size cfg) (tx_buffer_size cfg) w
         | Http2 \<Rightarrow> Connection_http2 F H addr port local_port (rx_buffer_size cfg) (tx_buffer_size cfg) w)"

definition DpdkHttpClient_request ::
  "('S, 't, 'u, 'i, 'd, 'z) smol_scheme \<Rightarrow> (('d, 'i, 'S, 'h) client_world, 'hs, 'he, 'q, 'a, 'y) hyper_ops_scheme
     \<Rightarrow> dpdk_http_client \<Rightarrow> ip_address \<Rightarrow> u16 \<Rightarrow> u16 \<Rightarrow> 'q \<Rightarrow> ('d, 'i, 'S, 'h) client_world
     \<Rightarrow> (('he util_error + 'a) \<times> ('d, 'i, 'S, 'h) client_world) outcome" where
  "DpdkHttpClient_request F H c addr port local_port request w =
     outcome_bind (DpdkHttpClient_connect F H c addr port local_port w) (\<lambda>(r, w).
       case r of Inl e \<Rightarrow> Done (Inl e, w) | Inr conn \<Rightarrow> Done (Connection_send_request H conn request w))"

subsection \<open>The pool\<close>

type_synonym host = "ip_address \<times> u16"

record 'hs connection_pool =
  cp_config :: client_config
  cp_connections :: "host \<rightharpoonup> 'hs connection list"
  max_idle_per_host :: nat

definition ConnectionPool_with_config :: "client_config \<Rightarrow> nat \<Rightarrow> 'hs connection_pool" where
  "ConnectionPool_with_config config n = \<lparr>cp_config = config, cp_connections = Map.empty, max_idle_per_host = n\<rparr>"

definition ConnectionPool_new :: "'hs connection_pool" where
  "ConnectionPool_new = ConnectionPool_with_config ClientConfig_default 8"

text \<open>The position of the first ready connection.\<close>

definition ready_position :: "('w, 'hs, 'he, 'q, 'a, 'y) hyper_ops_scheme \<Rightarrow> 'w \<Rightarrow> 'hs connection list \<Rightarrow> nat option" where
  "ready_position H w conns =
     (let pos = length (takeWhile (\<lambda>c. \<not> Connection_is_ready H c w) conns)
      in if pos < length conns then Some pos else None)"

text \<open>
  \<open>connection\<close>: the reference to a connection that it returns is its position in the list of the host.
  \<open>remove(0)\<close> on an empty vector panics.
\<close>

definition ConnectionPool_connection ::
  "('S, 't, 'u, 'i, 'd, 'z) smol_scheme \<Rightarrow> (('d, 'i, 'S, 'h) client_world, 'hs, 'he, 'q, 'a, 'y) hyper_ops_scheme
     \<Rightarrow> ip_address \<Rightarrow> u16 \<Rightarrow> u16 \<Rightarrow> 'hs connection_pool \<Rightarrow> ('d, 'i, 'S, 'h) client_world
     \<Rightarrow> (('he util_error + nat) \<times> 'hs connection_pool \<times> ('d, 'i, 'S, 'h) client_world) outcome" where
  "ConnectionPool_connection F H addr port local_port pool w =
     (let key = (addr, port); cfg = cp_config pool
      in case (case cp_connections pool key of None \<Rightarrow> None | Some conns \<Rightarrow> ready_position H w conns) of
           Some pos \<Rightarrow> Done (Inr pos, pool, w)
         | None \<Rightarrow>
             outcome_bind
               (case cfg_http_version cfg of
                  Http1 \<Rightarrow> Connection_http1 F H addr port local_port (rx_buffer_size cfg) (tx_buffer_size cfg) w
                | Http2 \<Rightarrow> Connection_http2 F H addr port local_port (rx_buffer_size cfg) (tx_buffer_size cfg) w)
               (\<lambda>(r, w).
                  case r of
                    Inl e \<Rightarrow> Done (Inl e, pool, w)
                  | Inr conn \<Rightarrow>
                      (let conns = (case cp_connections pool key of None \<Rightarrow> [] | Some conns \<Rightarrow> conns)
                       in if max_idle_per_host pool \<le> length conns \<and> conns = []
                          then Panic ''removal index (is 0) should be < len (is 0)''
                          else (let conns = (if max_idle_per_host pool \<le> length conns then tl conns else conns) @ [conn]
                                in Done (Inr (length conns - 1), pool\<lparr>cp_connections := (cp_connections pool)(key \<mapsto> conns)\<rparr>, w)))))"

definition ConnectionPool_request ::
  "('S, 't, 'u, 'i, 'd, 'z) smol_scheme \<Rightarrow> (('d, 'i, 'S, 'h) client_world, 'hs, 'he, 'q, 'a, 'y) hyper_ops_scheme
     \<Rightarrow> ip_address \<Rightarrow> u16 \<Rightarrow> u16 \<Rightarrow> 'q \<Rightarrow> 'hs connection_pool \<Rightarrow> ('d, 'i, 'S, 'h) client_world
     \<Rightarrow> (('he util_error + 'a) \<times> 'hs connection_pool \<times> ('d, 'i, 'S, 'h) client_world) outcome" where
  "ConnectionPool_request F H addr port local_port request pool w =
     outcome_bind (ConnectionPool_connection F H addr port local_port pool w) (\<lambda>(r, pool, w).
       case r of
         Inl e \<Rightarrow> Done (Inl e, pool, w)
       | Inr pos \<Rightarrow>
           (case Connection_send_request H (the (cp_connections pool (addr, port)) ! pos) request w of
              (a, w) \<Rightarrow> Done (a, pool, w)))"

definition ConnectionPool_clear :: "'hs connection_pool \<Rightarrow> 'hs connection_pool" where
  "ConnectionPool_clear pool = pool\<lparr>cp_connections := Map.empty\<rparr>"

subsection \<open>The pool keeps its limit\<close>

text \<open>A list of a host is there only when it has connections, and it has no more than the limit.\<close>

definition pool_ok :: "'hs connection_pool \<Rightarrow> bool" where
  "pool_ok pool \<longleftrightarrow> (\<forall>k cs. cp_connections pool k = Some cs \<longrightarrow> cs \<noteq> [] \<and> length cs \<le> max_idle_per_host pool)"

definition pool_host :: "'hs connection_pool \<Rightarrow> host \<Rightarrow> 'hs connection list" where
  "pool_host pool k = (case cp_connections pool k of None \<Rightarrow> [] | Some cs \<Rightarrow> cs)"

lemma pool_ok_new: "pool_ok (ConnectionPool_with_config cfg n)" "pool_ok ConnectionPool_new" "pool_ok (ConnectionPool_clear pool)"
  by (simp_all add: pool_ok_def ConnectionPool_new_def ConnectionPool_with_config_def ConnectionPool_clear_def)

lemma ready_position_Some:
  "ready_position H w cs = Some pos \<Longrightarrow> pos < length cs \<and> Connection_is_ready H (cs ! pos) w"
  using nth_length_takeWhile by (auto simp: ready_position_def Let_def split: if_splits)

lemma ready_position_None: "ready_position H w cs = None \<longleftrightarrow> (\<forall>c \<in> set cs. \<not> Connection_is_ready H c w)"
proof
  assume "ready_position H w cs = None"
  then have "length (takeWhile (\<lambda>c. \<not> Connection_is_ready H c w) cs) = length cs"
    using length_takeWhile_le [of "\<lambda>c. \<not> Connection_is_ready H c w" cs] by (auto simp: ready_position_def Let_def split: if_splits)
  then have "takeWhile (\<lambda>c. \<not> Connection_is_ready H c w) cs = cs" by (metis takeWhile_eq_take take_all_iff order_refl)
  then show "\<forall>c \<in> set cs. \<not> Connection_is_ready H c w" by (metis set_takeWhileD)
next
  assume "\<forall>c \<in> set cs. \<not> Connection_is_ready H c w"
  then have "takeWhile (\<lambda>c. \<not> Connection_is_ready H c w) cs = cs" by (simp add: takeWhile_eq_all_conv)
  then show "ready_position H w cs = None" unfolding ready_position_def Let_def by (simp only: less_irrefl if_False)
qed

text \<open>The pool opens a connection as the client does.\<close>

lemma pool_connection_eq:
  "ConnectionPool_connection F H addr port local_port pool w =
     (case ready_position H w (pool_host pool (addr, port)) of
        Some pos \<Rightarrow> Done (Inr pos, pool, w)
      | None \<Rightarrow>
          outcome_bind (DpdkHttpClient_connect F H (DpdkHttpClient_with_config (cp_config pool)) addr port local_port w) (\<lambda>(r, w).
            case r of
              Inl e \<Rightarrow> Done (Inl e, pool, w)
            | Inr conn \<Rightarrow>
                (let conns = pool_host pool (addr, port)
                 in if max_idle_per_host pool \<le> length conns \<and> conns = []
                    then Panic ''removal index (is 0) should be < len (is 0)''
                    else (let conns = (if max_idle_per_host pool \<le> length conns then tl conns else conns) @ [conn]
                          in Done (Inr (length conns - 1), pool\<lparr>cp_connections := (cp_connections pool)((addr, port) \<mapsto> conns)\<rparr>, w)))))"
proof (cases "cp_connections pool (addr, port)")
  case None
  then show ?thesis
    unfolding ConnectionPool_connection_def DpdkHttpClient_connect_def DpdkHttpClient_with_config_def pool_host_def
    by (simp add: Let_def ready_position_def)
next
  case (Some cs)
  show ?thesis
    unfolding ConnectionPool_connection_def DpdkHttpClient_connect_def DpdkHttpClient_with_config_def pool_host_def Let_def Some
      option.case dpdk_http_client.select_convs by (rule refl)
qed

text \<open>
  C18. The pool is well-formed and bounded for ever. Asking for a connection returns the position of a ready
  connection of the host without any other effect, or, when none is ready, opens one as the client would
  and appends it, dropping at most the oldest; no other host is touched, a failure to connect leaves the
  pool alone, and no host ever has more connections than the limit. With the limit 0 every new connection
  panics.
\<close>

theorem pool_connection_ok:
  assumes ok: "pool_ok pool"
  shows "case ConnectionPool_connection F H addr port local_port pool w of
      Panic m \<Rightarrow>
        DpdkHttpClient_connect F H (DpdkHttpClient_with_config (cp_config pool)) addr port local_port w = Panic m
        \<or> max_idle_per_host pool = 0
    | Done (r, pool', w') \<Rightarrow>
        pool_ok pool' \<and> (\<forall>k. k \<noteq> (addr, port) \<longrightarrow> cp_connections pool' k = cp_connections pool k)
        \<and> (case r of
             Inl e \<Rightarrow> pool' = pool
               \<and> DpdkHttpClient_connect F H (DpdkHttpClient_with_config (cp_config pool)) addr port local_port w = Done (Inl e, w')
           | Inr pos \<Rightarrow> 0 < max_idle_per_host pool \<and> pos < length (pool_host pool' (addr, port))
               \<and> (if \<exists>c \<in> set (pool_host pool (addr, port)). Connection_is_ready H c w
                   then pool' = pool \<and> w' = w \<and> Connection_is_ready H (pool_host pool (addr, port) ! pos) w
                   else (\<exists>conn k. DpdkHttpClient_connect F H (DpdkHttpClient_with_config (cp_config pool)) addr port local_port w = Done (Inr conn, w')
                     \<and> k \<le> 1 \<and> pool_host pool' (addr, port) = drop k (pool_host pool (addr, port)) @ [conn]
                     \<and> pos = length (pool_host pool' (addr, port)) - 1)))"
proof -
  let ?old = "pool_host pool (addr, port)"
  let ?connect = "DpdkHttpClient_connect F H (DpdkHttpClient_with_config (cp_config pool)) addr port local_port w"
  have len: "length ?old \<le> max_idle_per_host pool" using ok by (auto simp: pool_ok_def pool_host_def split: option.split)
  show ?thesis
  proof (cases "ready_position H w ?old")
    case (Some pos)
    with ready_position_Some [OF this] len ok show ?thesis
      by (auto simp: pool_connection_eq)
  next
    case None
    note nr = None [unfolded ready_position_None]
    show ?thesis
    proof (cases ?connect)
      case (Panic m)
      then show ?thesis using None by (simp add: pool_connection_eq)
    next
      case (Done x)
      obtain r w' where x: "x = (r, w')" by (cases x)
      show ?thesis
      proof (cases r)
        case (Inl e)
        then show ?thesis using None Done x ok by (simp add: pool_connection_eq)
      next
        case (Inr conn)
        have eq: "ConnectionPool_connection F H addr port local_port pool w = outcome_bind (Done x) (\<lambda>(r, w).
            case r of
              Inl e \<Rightarrow> Done (Inl e, pool, w)
            | Inr conn \<Rightarrow>
                (let conns = ?old
                 in if max_idle_per_host pool \<le> length conns \<and> conns = []
                    then Panic ''removal index (is 0) should be < len (is 0)''
                    else (let conns = (if max_idle_per_host pool \<le> length conns then tl conns else conns) @ [conn]
                          in Done (Inr (length conns - 1), pool\<lparr>cp_connections := (cp_connections pool)((addr, port) \<mapsto> conns)\<rparr>, w))))"
          using None Done by (simp add: pool_connection_eq)
        show ?thesis
        proof (cases "max_idle_per_host pool = 0")
          case True
          then show ?thesis using eq x Inr len by simp
        next
          case False
          define k where "k = (if max_idle_per_host pool \<le> length ?old then 1 else (0 :: nat))"
          let ?new = "drop k ?old @ [conn]"
          have new: "(if max_idle_per_host pool \<le> length ?old then tl ?old else ?old) @ [conn] = ?new" by (simp add: k_def drop_Suc)
          have "length ?new \<le> max_idle_per_host pool" using len False by (auto simp: k_def)
          then have "pool_ok (pool\<lparr>cp_connections := (cp_connections pool)((addr, port) \<mapsto> ?new)\<rparr>)"
            using ok by (auto simp: pool_ok_def)
          moreover have "ConnectionPool_connection F H addr port local_port pool w
              = Done (Inr (length ?new - 1), pool\<lparr>cp_connections := (cp_connections pool)((addr, port) \<mapsto> ?new)\<rparr>, w')"
            using eq x Inr False new by (auto simp: Let_def)
          moreover have "k \<le> 1" by (simp add: k_def)
          ultimately show ?thesis using nr Done x Inr False by (auto simp: pool_host_def)
        qed
      qed
    qed
  qed
qed

text \<open>A hyper whose handles are sockets: every handshake succeeds, and only handles from 1 on are ready.\<close>

definition sim_hyper :: "((nat, ref_event list, ref_set, unit) client_world, socket_handle, unit, unit, unit) hyper_ops" where
  "sim_hyper = \<lparr>wait_connected = (\<lambda>s w. (Inr (), w)), http1_handshake = (\<lambda>s w. (Inr (ts_handle s), w)),
     http2_handshake = (\<lambda>s w. (Inr (ts_handle s), w)), http1_is_ready = (\<lambda>h w. 0 < h), http2_is_ready = (\<lambda>h w. 0 < h),
     http1_send_request = (\<lambda>h q w. (Inr (), w)), http2_send_request = (\<lambda>h q w. (Inr (), w))\<rparr>"

definition sim_pool :: "socket_handle connection_pool" where
  "sim_pool = \<lparr>cp_config = ClientConfig_default,
     cp_connections = [(Ipv4Address (Ipv4 10 0 0 1), 80) \<mapsto> [Conn_Http1 0]], max_idle_per_host = 1\<rparr>"

theorem pool_connection_ok_witness:
  "\<exists>pool' w'. ConnectionPool_connection ref_smol sim_hyper (Ipv4Address (Ipv4 10 0 0 1)) 80 5000 sim_pool
      \<lparr>cw_reactor = ref_conn Closed 2, cw_hyper = ()\<rparr> = Done (Inr 0, pool', w')
    \<and> pool_ok pool' \<and> pool_host pool' (Ipv4Address (Ipv4 10 0 0 1), 80) = [Conn_Http1 1]"
proof -
  let ?a = "Ipv4Address (Ipv4 10 0 0 1)" and ?w = "\<lparr>cw_reactor = ref_conn Closed 2, cw_hyper = ()\<rparr>"
  have ok: "pool_ok sim_pool" by (simp add: pool_ok_def sim_pool_def)
  obtain w' where c: "DpdkHttpClient_connect ref_smol sim_hyper (DpdkHttpClient_with_config (cp_config sim_pool)) ?a 80 5000 ?w
      = Done (Inr (Conn_Http1 1), w')"
    by (simp add: DpdkHttpClient_connect_def DpdkHttpClient_with_config_def sim_pool_def ClientConfig_default_def Connection_http1_def
        Connection_connect_tcp_def TcpStream_connect_def sim_hyper_def ref_smol_def ref_conn_def Let_def)
  have old: "pool_host sim_pool (?a, 80) = [Conn_Http1 0]" "\<not> Connection_is_ready sim_hyper (Conn_Http1 0) ?w"
    by (simp_all add: pool_host_def sim_pool_def Connection_is_ready_def sim_hyper_def)
  obtain pool' where r: "ConnectionPool_connection ref_smol sim_hyper ?a 80 5000 sim_pool ?w = Done (Inr 0, pool', w')"
    using old by (simp add: pool_connection_eq c ready_position_def) (simp add: sim_pool_def)
  have "\<exists>k. k \<le> 1 \<and> pool_host pool' (?a, 80) = drop k [Conn_Http1 0] @ [Conn_Http1 1] \<and> length (pool_host pool' (?a, 80)) \<le> 1"
    "pool_ok pool'"
    using pool_connection_ok [OF ok, where F = ref_smol and H = sim_hyper and addr = ?a and port = 80 and local_port = 5000 and w = ?w] r old c
    by auto
  then show ?thesis using r by (auto simp: le_Suc_eq)
qed

end
