(* ===== verification/Bridge_Chan.thy ===== *)
theory Bridge_Chan
  imports Smoltcp
begin

section \<open>Channels and errors of the bridge (dpdk-net-util, bridge/error.rs)\<close>

text \<open>
  The bridge moves data between OS threads and lcores over the bounded channels of tokio, which are a
  parameter: the record \<open>mpsc\<close> has the operations the bridge calls, on the state of a channel. A \<open>send\<close> or a \<open>recv\<close>
  that is awaited is polled.
\<close>

text \<open>The constants of bridge/worker.rs.\<close>

definition DATA_CHANNEL_SIZE :: nat where
  "DATA_CHANNEL_SIZE = 256"

definition CMD_CHANNEL_SIZE :: nat where
  "CMD_CHANNEL_SIZE = 1024"

definition ACCEPT_CHANNEL_SIZE :: nat where
  "ACCEPT_CHANNEL_SIZE = 64"

definition UDP_CHANNEL_SIZE :: nat where
  "UDP_CHANNEL_SIZE = 1024"

definition RX_BUF_SIZE :: nat where
  "RX_BUF_SIZE = 65536"

definition TX_BUF_SIZE :: nat where
  "TX_BUF_SIZE = 65536"

definition UDP_RX_PACKETS :: nat where
  "UDP_RX_PACKETS = 256"

definition UDP_TX_PACKETS :: nat where
  "UDP_TX_PACKETS = 256"

definition UDP_MAX_PACKET_SIZE :: nat where
  "UDP_MAX_PACKET_SIZE = 1500"

subsection \<open>Channels\<close>

datatype try_send_error = Full | SendClosed
datatype try_recv_error = Empty | Disconnected

record ('c, 'a) mpsc =
  mp_new :: "nat \<Rightarrow> 'c"
  mp_poll_recv :: "'c \<Rightarrow> 'a option poll \<times> 'c"
  mp_try_recv :: "'c \<Rightarrow> (try_recv_error + 'a) \<times> 'c"
  mp_poll_send :: "'a \<Rightarrow> 'c \<Rightarrow> (unit + unit) poll \<times> 'c"
  mp_try_send :: "'a \<Rightarrow> 'c \<Rightarrow> (try_send_error + unit) \<times> 'c"
  mp_poll_reserve :: "'c \<Rightarrow> (unit + unit) poll \<times> 'c"
  mp_send_item :: "'a \<Rightarrow> 'c \<Rightarrow> (unit + unit) \<times> 'c"
  mp_abort_send :: "'c \<Rightarrow> 'c"
  mp_drop_tx :: "'c \<Rightarrow> 'c"
  mp_drop_rx :: "'c \<Rightarrow> 'c"

text \<open>
  What tokio documents: a channel is a queue. A receive takes the first value; it reports the end only when the
  queue is empty and the senders are gone. A send appends its value, waits, or fails when the receiver is
  gone; a reserved slot makes \<open>send_item\<close> append. Dropping the receiver drops the queue.
\<close>

locale mpsc_queue =
  fixes C :: "('c, 'a, 'z) mpsc_scheme" and items :: "'c \<Rightarrow> 'a list" and tx_open rx_open :: "'c \<Rightarrow> bool"
  assumes new: "items (mp_new C n) = []" "tx_open (mp_new C n)" "rx_open (mp_new C n)"
    and recv_some: "mp_poll_recv C c = (Ready (Some x), c') \<Longrightarrow> items c = x # items c' \<and> tx_open c' = tx_open c \<and> rx_open c' = rx_open c"
    and recv_none: "mp_poll_recv C c = (Ready None, c') \<Longrightarrow>
      items c = [] \<and> \<not> tx_open c \<and> items c' = [] \<and> tx_open c' = tx_open c \<and> rx_open c' = rx_open c"
    and recv_pending: "mp_poll_recv C c = (Pending, c') \<Longrightarrow>
      items c = [] \<and> tx_open c \<and> items c' = [] \<and> tx_open c' = tx_open c \<and> rx_open c' = rx_open c"
    and try_recv_ok: "mp_try_recv C c = (Inr x, c') \<Longrightarrow> items c = x # items c' \<and> tx_open c' = tx_open c \<and> rx_open c' = rx_open c"
    and try_recv_err: "mp_try_recv C c = (Inl e, c') \<Longrightarrow>
      items c = [] \<and> (e = Empty \<longleftrightarrow> tx_open c) \<and> items c' = [] \<and> tx_open c' = tx_open c \<and> rx_open c' = rx_open c"
    and send_ok: "mp_poll_send C x c = (Ready (Inr ()), c') \<Longrightarrow>
      rx_open c \<and> items c' = items c @ [x] \<and> tx_open c' = tx_open c \<and> rx_open c' = rx_open c"
    and send_err: "mp_poll_send C x c = (Ready (Inl ()), c') \<Longrightarrow>
      \<not> rx_open c \<and> items c' = items c \<and> tx_open c' = tx_open c \<and> rx_open c' = rx_open c"
    and send_pending: "mp_poll_send C x c = (Pending, c') \<Longrightarrow>
      rx_open c \<and> items c' = items c \<and> tx_open c' = tx_open c \<and> rx_open c' = rx_open c"
    and try_send_ok: "mp_try_send C x c = (Inr (), c') \<Longrightarrow>
      rx_open c \<and> items c' = items c @ [x] \<and> tx_open c' = tx_open c \<and> rx_open c' = rx_open c"
    and try_send_err: "mp_try_send C x c = (Inl f, c') \<Longrightarrow>
      (f = Full \<longleftrightarrow> rx_open c) \<and> items c' = items c \<and> tx_open c' = tx_open c \<and> rx_open c' = rx_open c"
    and reserve_items: "mp_poll_reserve C c = (r, c') \<Longrightarrow> items c' = items c \<and> tx_open c' = tx_open c \<and> rx_open c' = rx_open c"
    and reserve_ready: "mp_poll_reserve C c = (Ready (Inl ()), c') \<Longrightarrow> \<not> rx_open c"
    and item_ok: "mp_poll_reserve C c = (Ready (Inr ()), c1) \<Longrightarrow> mp_send_item C x c1 = (Inr (), c') \<Longrightarrow>
      items c' = items c @ [x] \<and> tx_open c' = tx_open c \<and> rx_open c' = rx_open c"
    and item_err: "mp_send_item C x c = (Inl (), c') \<Longrightarrow> items c' = items c \<and> tx_open c' = tx_open c \<and> rx_open c' = rx_open c"
    and abort: "items (mp_abort_send C c) = items c" "tx_open (mp_abort_send C c) = tx_open c" "rx_open (mp_abort_send C c) = rx_open c"
    and dropped_tx: "items (mp_drop_tx C c) = items c" "\<not> tx_open (mp_drop_tx C c)" "rx_open (mp_drop_tx C c) = rx_open c"
    and dropped_rx: "items (mp_drop_rx C c) = []" "\<not> rx_open (mp_drop_rx C c)" "tx_open (mp_drop_rx C c) = tx_open c"

text \<open>A channel that satisfies the laws: a list of at most \<open>lc_cap\<close> values, where a reserved slot counts.\<close>

record 'a list_chan =
  lc_items :: "'a list"
  lc_cap :: nat
  lc_reserved :: nat
  lc_tx :: bool
  lc_rx :: bool

definition lc_free :: "'a list_chan \<Rightarrow> bool" where
  "lc_free c \<longleftrightarrow> length (lc_items c) + lc_reserved c < lc_cap c"

definition list_mpsc :: "('a list_chan, 'a) mpsc" where
  "list_mpsc = \<lparr>
     mp_new = (\<lambda>n. \<lparr>lc_items = [], lc_cap = n, lc_reserved = 0, lc_tx = True, lc_rx = True\<rparr>),
     mp_poll_recv = (\<lambda>c. case lc_items c of
         x # xs \<Rightarrow> (Ready (Some x), c\<lparr>lc_items := xs\<rparr>) | [] \<Rightarrow> (if lc_tx c then Pending else Ready None, c)),
     mp_try_recv = (\<lambda>c. case lc_items c of
         x # xs \<Rightarrow> (Inr x, c\<lparr>lc_items := xs\<rparr>) | [] \<Rightarrow> (Inl (if lc_tx c then Empty else Disconnected), c)),
     mp_poll_send = (\<lambda>x c. if \<not> lc_rx c then (Ready (Inl ()), c)
         else if lc_free c then (Ready (Inr ()), c\<lparr>lc_items := lc_items c @ [x]\<rparr>) else (Pending, c)),
     mp_try_send = (\<lambda>x c. if \<not> lc_rx c then (Inl SendClosed, c)
         else if lc_free c then (Inr (), c\<lparr>lc_items := lc_items c @ [x]\<rparr>) else (Inl Full, c)),
     mp_poll_reserve = (\<lambda>c. if \<not> lc_rx c then (Ready (Inl ()), c)
         else if 0 < lc_reserved c then (Ready (Inr ()), c)
         else if lc_free c then (Ready (Inr ()), c\<lparr>lc_reserved := 1\<rparr>) else (Pending, c)),
     mp_send_item = (\<lambda>x c. if \<not> lc_rx c then (Inl (), c) else (Inr (), c\<lparr>lc_items := lc_items c @ [x], lc_reserved := 0\<rparr>)),
     mp_abort_send = (\<lambda>c. c\<lparr>lc_reserved := 0\<rparr>),
     mp_drop_tx = (\<lambda>c. c\<lparr>lc_tx := False\<rparr>),
     mp_drop_rx = (\<lambda>c. c\<lparr>lc_items := [], lc_rx := False\<rparr>)\<rparr>"

interpretation list_chan: mpsc_queue list_mpsc lc_items lc_tx lc_rx
  by unfold_locales (auto simp: list_mpsc_def split: list.splits if_splits)

subsection \<open>Errors\<close>

datatype bridge_error = BE_Disconnected | BE_ConnectionFailed | BE_Io io_error | BE_Connect connect_error
  | BE_Listen listen_error | BE_UdpBind udp_bind_error

text \<open>How the errors of smoltcp are displayed.\<close>

record smol_display =
  show_connect :: "connect_error \<Rightarrow> string"
  show_listen :: "listen_error \<Rightarrow> string"
  show_bind :: "udp_bind_error \<Rightarrow> string"

definition BridgeError_fmt :: "smol_display \<Rightarrow> bridge_error \<Rightarrow> string" where
  "BridgeError_fmt sh e =
     (case e of
        BE_Disconnected \<Rightarrow> ''DPDK lcore disconnected''
      | BE_ConnectionFailed \<Rightarrow> ''TCP connection failed''
      | BE_Io e \<Rightarrow> ''IO error: '' @ io_msg e
      | BE_Connect e \<Rightarrow> ''TCP connect error: '' @ show_connect sh e
      | BE_Listen e \<Rightarrow> ''TCP listen error: '' @ show_listen sh e
      | BE_UdpBind e \<Rightarrow> ''UDP bind error: '' @ show_bind sh e)"

definition io_Error_from :: "smol_display \<Rightarrow> bridge_error \<Rightarrow> io_error" where
  "io_Error_from sh e =
     (case e of
        BE_Io e \<Rightarrow> e
      | BE_Disconnected \<Rightarrow> IoError BrokenPipe ''DPDK lcore disconnected''
      | BE_ConnectionFailed \<Rightarrow> IoError ConnectionRefused ''TCP connection failed''
      | BE_Connect e \<Rightarrow> IoError ConnectionRefused (show_connect sh e)
      | BE_Listen e \<Rightarrow> IoError AddrInUse (show_listen sh e)
      | BE_UdpBind e \<Rightarrow> IoError AddrInUse (show_bind sh e))"

end
