(* ===== verification/Bridge_Stream.thy ===== *)
theory Bridge_Stream
  imports Bridge_Chan Tcp_Socket "HOL-Library.Sublist"
begin

section \<open>Bridged TCP streams (dpdk-net-util, bridge/stream.rs and relay\_task of bridge/worker.rs)\<close>

text \<open>
  A stream of an OS thread, the task on an lcore that owns the TCP stream behind it, and the two channels
  between them. \<open>relay_task\<close> is modelled by the place where it is suspended and one definition for each
  future it polls there; \<open>select!\<close> polls its branches in any order.
\<close>

subsection \<open>BridgeTcpStream\<close>

text \<open>The ends of the channels that the stream owns are in \<open>bridge_conn\<close> below.\<close>

record bridge_tcp_stream =
  bt_read_buf :: "u8 list"
  bt_close_tx :: bool

definition BridgeTcpStream_new :: bridge_tcp_stream where
  "BridgeTcpStream_new = \<lparr>bt_read_buf = [], bt_close_tx = True\<rparr>"

definition BridgeTcpStream_poll_read ::
  "smol_display \<Rightarrow> ('o, bridge_error + u8 list, 'z) mpsc_scheme \<Rightarrow> nat \<Rightarrow> bridge_tcp_stream \<Rightarrow> 'o
     \<Rightarrow> (io_error + u8 list) poll \<times> bridge_tcp_stream \<times> 'o" where
  "BridgeTcpStream_poll_read sh Q buf_len st q =
     (if bt_read_buf st \<noteq> []
      then (let n = min buf_len (length (bt_read_buf st))
            in (Ready (Inr (take n (bt_read_buf st))), st\<lparr>bt_read_buf := drop n (bt_read_buf st)\<rparr>, q))
      else (case mp_poll_recv Q q of
              (Ready (Some (Inr chunk)), q) \<Rightarrow>
                if chunk = [] then (Ready (Inr []), st, q)
                else (let n = min buf_len (length chunk)
                      in (Ready (Inr (take n chunk)),
                          if n < length chunk then st\<lparr>bt_read_buf := drop n chunk\<rparr> else st, q))
            | (Ready (Some (Inl e)), q) \<Rightarrow> (Ready (Inl (io_Error_from sh e)), st, q)
            | (Ready None, q) \<Rightarrow> (Ready (Inr []), st, q)
            | (Pending, q) \<Rightarrow> (Pending, st, q)))"

definition BridgeTcpStream_poll_write ::
  "('c, u8 list, 'z) mpsc_scheme \<Rightarrow> u8 list \<Rightarrow> 'c \<Rightarrow> (io_error + nat) poll \<times> 'c" where
  "BridgeTcpStream_poll_write C buf c =
     (case mp_poll_reserve C c of
        (Ready (Inr _), c) \<Rightarrow>
          (case mp_send_item C buf c of
             (Inl _, c) \<Rightarrow> (Ready (Inl (IoError BrokenPipe ''lcore gone'')), c)
           | (Inr _, c) \<Rightarrow> (Ready (Inr (length buf)), c))
      | (Ready (Inl _), c) \<Rightarrow> (Ready (Inl (IoError BrokenPipe ''lcore relay task exited'')), c)
      | (Pending, c) \<Rightarrow> (Pending, c))"

text \<open>\<open>poll_flush\<close> is always ready. \<open>poll_close\<close> sends the signal if it has not yet; the flag is whether it did.\<close>

definition BridgeTcpStream_poll_close :: "bridge_tcp_stream \<Rightarrow> bool \<times> bridge_tcp_stream" where
  "BridgeTcpStream_poll_close st = (bt_close_tx st, st\<lparr>bt_close_tx := False\<rparr>)"

subsection \<open>relay\_task\<close>

text \<open>
  Where the task is: in \<open>select!\<close>; sending a message to the OS thread, after which it stops or goes on; sending bytes on
  the TCP stream, the first so many of which are sent; closing the stream; after the loop; and gone, its
  locals dropped.
\<close>

datatype relay_state = Selecting | ToOs "bridge_error + u8 list" bool | ToTcp "u8 list" nat | ClosingTcp | Finished | Gone

definition relay_ingress ::
  "('S, 't, 'u, 'i, 'd, 'z) smol_scheme \<Rightarrow> tcp_stream \<Rightarrow> waker \<Rightarrow> ('d, 'i, 'S) reactor_inner
     \<Rightarrow> (relay_state \<times> ('d, 'i, 'S) reactor_inner) outcome" where
  "relay_ingress F s cx R =
     outcome_bind (TcpStream_recv F s cx 65536 R) (\<lambda>(r, R).
       Done (case r of
               Pending \<Rightarrow> Selecting
             | Ready (Inl e) \<Rightarrow> ToOs (Inl (BE_Io e)) True
             | Ready (Inr chunk) \<Rightarrow> if chunk = [] then ToOs (Inr []) True else ToOs (Inr chunk) False, R))"

definition relay_egress :: "('c, u8 list, 'z) mpsc_scheme \<Rightarrow> 'c \<Rightarrow> relay_state \<times> 'c" where
  "relay_egress C c =
     (case mp_poll_recv C c of
        (Pending, c) \<Rightarrow> (Selecting, c)
      | (Ready (Some bytes), c) \<Rightarrow> (ToTcp bytes 0, c)
      | (Ready None, c) \<Rightarrow> (Finished, c))"

definition relay_to_tcp ::
  "('S, 't, 'u, 'i, 'd, 'z) smol_scheme \<Rightarrow> tcp_stream \<Rightarrow> waker \<Rightarrow> u8 list \<Rightarrow> nat \<Rightarrow> ('d, 'i, 'S) reactor_inner
     \<Rightarrow> (relay_state \<times> nat \<times> ('d, 'i, 'S) reactor_inner) outcome" where
  "relay_to_tcp F s cx bytes offset R =
     outcome_bind (TcpStream_send F s cx bytes offset R) (\<lambda>(r, offset, R).
       Done (case r of
               Pending \<Rightarrow> ToTcp bytes offset
             | Ready (Inr _) \<Rightarrow> Selecting
             | Ready (Inl e) \<Rightarrow> ToOs (Inl (BE_Io e)) True, offset, R))"

definition relay_to_os ::
  "('o, bridge_error + u8 list, 'z) mpsc_scheme \<Rightarrow> bridge_error + u8 list \<Rightarrow> bool \<Rightarrow> 'o \<Rightarrow> relay_state \<times> 'o" where
  "relay_to_os Q msg stop q =
     (case mp_poll_send Q msg q of
        (Pending, q) \<Rightarrow> (ToOs msg stop, q)
      | (Ready (Inr _), q) \<Rightarrow> (if stop then Finished else Selecting, q)
      | (Ready (Inl _), q) \<Rightarrow> (Finished, q))"

definition relay_close ::
  "('S, 't, 'u, 'i, 'd, 'z) smol_scheme \<Rightarrow> tcp_stream \<Rightarrow> waker \<Rightarrow> ('d, 'i, 'S) reactor_inner
     \<Rightarrow> (relay_state \<times> ('d, 'i, 'S) reactor_inner) outcome" where
  "relay_close F s cx R =
     outcome_bind (TcpStream_close F s cx R) (\<lambda>(r, R).
       Done (case r of Pending \<Rightarrow> ClosingTcp | Ready _ \<Rightarrow> Finished, R))"

subsection \<open>A connection\<close>

text \<open>
  The two sides of a connection. \<open>br_os\<close> is the stream of the OS thread until it is dropped and \<open>br_close\<close> whether
  \<open>close_rx\<close> is ready. The last four fields are a record of the run: the bytes that \<open>poll_write\<close> accepted, those that
  \<open>poll_read\<close> delivered, and those that the TCP stream accepted and delivered since the connection was made.
\<close>

record ('d, 'i, 'S, 'c, 'o) bridge_conn =
  br_reactor :: "('d, 'i, 'S) reactor_inner"
  br_to_lcore :: 'c
  br_to_os :: 'o
  br_relay :: relay_state
  br_close :: bool
  br_os :: "bridge_tcp_stream option"
  br_written :: "u8 list"
  br_read :: "u8 list"
  br_sent :: "u8 list"
  br_got :: "u8 list"

definition delivered :: "('e + u8 list) poll \<Rightarrow> u8 list" where
  "delivered r = (case r of Ready (Inr bs) \<Rightarrow> bs | _ \<Rightarrow> [])"

definition accepted_write :: "u8 list \<Rightarrow> ('e + nat) poll \<Rightarrow> u8 list" where
  "accepted_write buf r = (case r of Ready (Inr n) \<Rightarrow> take n buf | _ \<Rightarrow> [])"

definition chunk_of :: "relay_state \<Rightarrow> u8 list" where
  "chunk_of r = (case r of ToOs (Inr bs) _ \<Rightarrow> bs | _ \<Rightarrow> [])"

definition leaves_stream ::
  "('S, 't, 'u, 'i, 'd, 'z) smol_scheme \<Rightarrow> ('t \<Rightarrow> u8 list) \<Rightarrow> ('t \<Rightarrow> u8 list) \<Rightarrow> tcp_stream \<Rightarrow> ('d, 'i, 'S) reactor_inner
     \<Rightarrow> ('d, 'i, 'S) reactor_inner \<Rightarrow> bool" where
  "leaves_stream F sent got s R R' \<longleftrightarrow>
     tcp_view F sent R' (ts_handle s) = tcp_view F sent R (ts_handle s) \<and> tcp_view F got R' (ts_handle s) = tcp_view F got R (ts_handle s)"

inductive bridge_step ::
  "('S, 't, 'u, 'i, 'd, 'z) smol_scheme \<Rightarrow> ('c, u8 list, 'x) mpsc_scheme \<Rightarrow> ('o, bridge_error + u8 list, 'y) mpsc_scheme
     \<Rightarrow> ('t \<Rightarrow> u8 list) \<Rightarrow> ('t \<Rightarrow> u8 list) \<Rightarrow> tcp_stream
     \<Rightarrow> ('d, 'i, 'S, 'c, 'o) bridge_conn \<Rightarrow> ('d, 'i, 'S, 'c, 'o) bridge_conn \<Rightarrow> bool"
  for F C Q sent got s where
  os_read: "bridge_step F C Q sent got s x (x\<lparr>br_os := Some st', br_to_os := q', br_read := br_read x @ delivered r\<rparr>)"
    if "br_os x = Some st" "BridgeTcpStream_poll_read sh Q n st (br_to_os x) = (r, st', q')"
| os_write: "bridge_step F C Q sent got s x (x\<lparr>br_to_lcore := c', br_written := br_written x @ accepted_write buf r\<rparr>)"
    if "br_os x = Some st" "BridgeTcpStream_poll_write C buf (br_to_lcore x) = (r, c')"
| os_close: "bridge_step F C Q sent got s x (x\<lparr>br_os := Some st', br_close := br_close x \<or> b\<rparr>)"
    if "br_os x = Some st" "BridgeTcpStream_poll_close st = (b, st')"
| os_drop: "bridge_step F C Q sent got s x
      (x\<lparr>br_os := None, br_to_lcore := mp_drop_tx C (br_to_lcore x), br_to_os := mp_drop_rx Q (br_to_os x), br_close := True\<rparr>)"
    if "br_os x \<noteq> None"
| select_ingress: "bridge_step F C Q sent got s x (x\<lparr>br_relay := r, br_reactor := R', br_got := br_got x @ chunk_of r\<rparr>)"
    if "br_relay x = Selecting" "relay_ingress F s cx (br_reactor x) = Done (r, R')"
| select_egress: "bridge_step F C Q sent got s x (x\<lparr>br_relay := r, br_to_lcore := c'\<rparr>)"
    if "br_relay x = Selecting" "relay_egress C (br_to_lcore x) = (r, c')"
| select_close: "bridge_step F C Q sent got s x (x\<lparr>br_relay := ClosingTcp\<rparr>)"
    if "br_relay x = Selecting" "br_close x"
| to_tcp: "bridge_step F C Q sent got s x
      (x\<lparr>br_relay := r, br_reactor := R', br_sent := br_sent x @ take (j - i) (drop i bytes)\<rparr>)"
    if "br_relay x = ToTcp bytes i" "relay_to_tcp F s cx bytes i (br_reactor x) = Done (r, j, R')"
| to_os: "bridge_step F C Q sent got s x (x\<lparr>br_relay := r, br_to_os := q'\<rparr>)"
    if "br_relay x = ToOs msg stop" "relay_to_os Q msg stop (br_to_os x) = (r, q')"
| closing: "bridge_step F C Q sent got s x (x\<lparr>br_relay := r, br_reactor := R'\<rparr>)"
    if "br_relay x = ClosingTcp" "relay_close F s cx (br_reactor x) = Done (r, R')"
| leave: "bridge_step F C Q sent got s x
      (x\<lparr>br_relay := Gone, br_reactor := R', br_to_lcore := mp_drop_rx C (br_to_lcore x), br_to_os := mp_drop_tx Q (br_to_os x)\<rparr>)"
    if "br_relay x = Finished" "TcpStream_drop F s (br_reactor x) = Done R'"
| others: "bridge_step F C Q sent got s x (x\<lparr>br_reactor := R'\<rparr>)"
    if "leaves_stream F sent got s (br_reactor x) R'"

definition bridge_start :: "('c, u8 list, 'x) mpsc_scheme \<Rightarrow> ('o, bridge_error + u8 list, 'y) mpsc_scheme
     \<Rightarrow> ('d, 'i, 'S) reactor_inner \<Rightarrow> ('d, 'i, 'S, 'c, 'o) bridge_conn" where
  "bridge_start C Q R = \<lparr>br_reactor = R, br_to_lcore = mp_new C DATA_CHANNEL_SIZE, br_to_os = mp_new Q DATA_CHANNEL_SIZE, br_relay = Selecting,
     br_close = False, br_os = Some BridgeTcpStream_new, br_written = [], br_read = [], br_sent = [], br_got = []\<rparr>"

subsection \<open>The bytes of a connection\<close>

definition oks :: "('e + u8 list) list \<Rightarrow> u8 list" where
  "oks ms = concat (map (case_sum (\<lambda>_. []) (\<lambda>bs. bs)) ms)"

lemma oks_simps [simp]: "oks [] = []" "oks (Inl e # ms) = oks ms" "oks (Inr bs # ms) = bs @ oks ms" "oks (ms @ ms') = oks ms @ oks ms'"
  by (simp_all add: oks_def)

text \<open>
  Egress: while the task serves the connection, what was written is what the TCP stream accepted, followed by
  the rest of the chunk being sent and the queue. Ingress: what the TCP stream delivered is what was read,
  followed by the read buffer, the queue and the chunk being passed on.
\<close>

definition egress_inv :: "('c \<Rightarrow> u8 list list) \<Rightarrow> ('d, 'i, 'S, 'c, 'o) bridge_conn \<Rightarrow> bool" where
  "egress_inv items x \<longleftrightarrow>
     (case br_relay x of
        Selecting \<Rightarrow> br_written x = br_sent x @ concat (items (br_to_lcore x))
      | ToOs (Inr _) False \<Rightarrow> br_written x = br_sent x @ concat (items (br_to_lcore x))
      | ToTcp bytes i \<Rightarrow> i \<le> length bytes \<and> br_written x = br_sent x @ drop i bytes @ concat (items (br_to_lcore x))
      | _ \<Rightarrow> prefix (br_sent x) (br_written x))"

definition ingress_inv ::
  "('o \<Rightarrow> (bridge_error + u8 list) list) \<Rightarrow> ('o \<Rightarrow> bool) \<Rightarrow> ('o \<Rightarrow> bool) \<Rightarrow> ('d, 'i, 'S, 'c, 'o) bridge_conn \<Rightarrow> bool" where
  "ingress_inv oitems otx orx x \<longleftrightarrow>
     prefix (br_read x) (br_got x)
     \<and> (\<forall>msg stop. br_relay x = ToOs msg stop \<longrightarrow> (stop \<longleftrightarrow> isl msg \<or> msg = Inr []))
     \<and> (\<forall>st. br_os x = Some st \<longrightarrow>
          orx (br_to_os x) \<and> (otx (br_to_os x) \<longleftrightarrow> br_relay x \<noteq> Gone)
          \<and> br_got x = br_read x @ bt_read_buf st @ oks (oitems (br_to_os x)) @ chunk_of (br_relay x)
          \<and> (Inr [] \<in> set (oitems (br_to_os x)) \<longrightarrow>
               br_relay x \<in> {Finished, Gone} \<and> Inr [] \<notin> set (butlast (oitems (br_to_os x)))))"

definition tcp_inv ::
  "('S, 't, 'u, 'i, 'd, 'z) smol_scheme \<Rightarrow> ('t \<Rightarrow> u8 list) \<Rightarrow> ('t \<Rightarrow> u8 list) \<Rightarrow> tcp_stream \<Rightarrow> u8 list \<Rightarrow> u8 list
     \<Rightarrow> ('d, 'i, 'S, 'c, 'o) bridge_conn \<Rightarrow> bool" where
  "tcp_inv F sent got s a b x \<longleftrightarrow>
     (br_relay x \<noteq> Gone \<longrightarrow>
        tcp_view F sent (br_reactor x) (ts_handle s) = Some (a @ br_sent x) \<and> tcp_view F got (br_reactor x) (ts_handle s) = Some (b @ br_got x))"

lemma relay_ingress_cases:
  assumes "relay_ingress F s cx R = Done (r, R')"
  obtains p where "poll_recv F s cx 65536 R = Done (p, R')" "chunk_of r = delivered p"
    "r = Selecting \<or> (\<exists>e. r = ToOs (Inl (BE_Io e)) True) \<or> r = ToOs (Inr []) True \<or> (\<exists>bs. bs \<noteq> [] \<and> r = ToOs (Inr bs) False)"
proof -
  obtain p R1 where p: "poll_recv F s cx 65536 R = Done (p, R1)"
    using assms by (cases "poll_recv F s cx 65536 R") (auto simp: relay_ingress_def TcpStream_recv_def)
  consider (wait) "p = Pending" | (err) e where "p = Ready (Inl e)" | (ok) bs where "p = Ready (Inr bs)"
    by (metis poll.exhaust sum.exhaust)
  then show thesis
    by cases (use assms p in \<open>auto simp: relay_ingress_def TcpStream_recv_def chunk_of_def delivered_def split: if_splits intro: that\<close>)
qed

lemma relay_close_cases: "relay_close F s cx R = Done (r, R') \<Longrightarrow> r = ClosingTcp \<or> r = Finished"
  by (cases "TcpStream_close F s cx R") (auto simp: relay_close_def split: poll.splits)

text \<open>What the TCP stream does in each of the places where the task uses it.\<close>

context byte_sink
begin

lemma sends_part:
  assumes "sends data i s j s'" and "ok s" and "i \<le> length data"
  shows "ok s' \<and> i \<le> j \<and> j \<le> length data \<and> accepted s' = accepted s @ take (j - i) (drop i data)"
  using assms(1)
proof (induction rule: sends.induct)
  case start
  then show ?case using assms by simp
next
  case (wrote j s1 cx n s2)
  then have "ok s2" and n: "n \<le> length (drop j data)" "accepted s2 = accepted s1 @ take n (drop j data)"
    using write_ok write_ready by blast+
  moreover have "take (j + n - i) (drop i data) = take (j - i) (drop i data) @ take n (drop j data)"
    using wrote.IH take_add [of "j - i" n "drop i data"] by simp
  ultimately show ?case using wrote.IH by auto
next
  case (failed j s1 cx e s2)
  then show ?case using write_ok write_error by metis
next
  case (waits j s1 cx s2)
  then show ?case using write_ok write_pending by metis
next
  case (others j s1 s2)
  then show ?case using env_keeps by metis
qed

end

context tcp_conn
begin

lemma recv_views:
  assumes "poll_recv F s cx n R = Done (r, R')" and "0 < n" and "tcp_view F got R (ts_handle s) = Some b"
    and "tcp_view F sent R (ts_handle s) = Some a"
  shows "tcp_view F got R' (ts_handle s) = Some (b @ delivered r) \<and> tcp_view F sent R' (ts_handle s) = Some a"
proof -
  from assms(3,4) obtain t where t: "sockets_get F (sockets R) (ts_handle s) = Some (Tcp_sock t)" and b: "b = got t" and a: "a = sent t"
    by (auto simp: tcp_view_Some)
  obtain y t1 where sl: "tcp_recv_slice F n t = (y, t1)" by fastforce
  have w: "with_tcp F (ts_handle s) (\<lambda>t.
             case tcp_recv_slice F n t of
               (Inr bs, t') \<Rightarrow>
                 if length bs = 0 then (Pending, tcp_register_recv_waker F cx t') else (Ready (Inr bs), t')
             | (Inl Recv_Finished, t') \<Rightarrow> (Ready (Inr []), t')
             | (Inl Recv_InvalidState, t') \<Rightarrow>
                 (Ready (Inl (IoError NotConnected ''socket in invalid state for receiving'')), t')) R = Done (r, R')"
    using assms(1,2) by (simp add: poll_recv_def)
  note g = with_tcp_get(1,2) [OF t w]
  show ?thesis
  proof (cases y)
    case (Inl e)
    with g sl streams(4) [of n t e t1] show ?thesis
      by (cases e) (auto simp: tcp_view_Some a b delivered_def)
  next
    case (Inr bs)
    with g sl streams(3) [of n t bs t1] show ?thesis
      by (auto simp: tcp_view_Some a b delivered_def streams split: if_splits)
  qed
qed

lemma close_views:
  assumes "poll_close_io F s cx R = Done (r, R')" and "tcp_at F (sockets R) (ts_handle s)"
  shows "tcp_view F got R' (ts_handle s) = tcp_view F got R (ts_handle s)"
    and "tcp_view F sent R' (ts_handle s) = tcp_view F sent R (ts_handle s)"
proof -
  have c: "sent (tcp_close F t) = sent t" "got (tcp_close F t) = got t" for t
    using stream_ok unfolding tcp_stream_law_def by blast+
  obtain t where t: "sockets_get F (sockets R) (ts_handle s) = Some (Tcp_sock t)" using assms(2) by (auto simp: tcp_at_iff)
  from assms(1) obtain fin R1 where w1: "with_tcp F (ts_handle s) (\<lambda>t.
         if tcp_state_of F t \<in> {Closed, TimeWait} then (True, t)
         else if tcp_state_of F t \<in> {FinWait1, FinWait2, Closing, LastAck} then (False, t)
         else (False, tcp_close F t)) R = Done (fin, R1)" and
    w2: "(if fin then Done (Ready (Inr ()), R1)
         else with_tcp F (ts_handle s) (\<lambda>t.
                if tcp_state_of F t \<in> {Closed, TimeWait} then (Ready (Inr ()), t)
                else (Pending, tcp_register_send_waker F cx t)) R1) = Done (r, R')"
    by (auto simp: poll_close_io_def)
  define t1 where "t1 = snd ((\<lambda>t. if tcp_state_of F t \<in> {Closed, TimeWait} then (True, t)
         else if tcp_state_of F t \<in> {FinWait1, FinWait2, Closing, LastAck} then (False, t)
         else (False, tcp_close F t)) t)"
  have g1: "sockets_get F (sockets R1) (ts_handle s) = Some (Tcp_sock t1)" using with_tcp_get(2) [OF t w1, of "ts_handle s"] t1_def by simp
  have v1: "sent t1 = sent t" "got t1 = got t" by (simp_all add: t1_def c)
  obtain t2 where g2: "sockets_get F (sockets R') (ts_handle s) = Some (Tcp_sock t2)" "sent t2 = sent t1" "got t2 = got t1"
  proof (cases fin)
    case True
    then show thesis using w2 g1 that [of t1] by simp
  next
    case False
    then have w2': "with_tcp F (ts_handle s) (\<lambda>t.
                if tcp_state_of F t \<in> {Closed, TimeWait} then (Ready (Inr ()), t)
                else (Pending, tcp_register_send_waker F cx t)) R1 = Done (r, R')" using w2 by simp
    show thesis using with_tcp_get(2) [OF g1 w2', of "ts_handle s"]
      by (intro that [of "snd ((\<lambda>t. if tcp_state_of F t \<in> {Closed, TimeWait} then (Ready (Inr ()) :: (io_error + unit) poll, t)
                else (Pending, tcp_register_send_waker F cx t)) t1)"]) (simp_all add: streams)
  qed
  show "tcp_view F got R' (ts_handle s) = tcp_view F got R (ts_handle s)"
    "tcp_view F sent R' (ts_handle s) = tcp_view F sent R (ts_handle s)"
    using t g2 v1 by (simp_all add: tcp_view_def)
qed

lemma poll_send_keeps_got:
  assumes "poll_send F s cx buf R = Done (r, R')" and "tcp_at F (sockets R) (ts_handle s)"
  shows "tcp_view F got R' (ts_handle s) = tcp_view F got R (ts_handle s)" "tcp_at F (sockets R') (ts_handle s)"
proof -
  obtain t where t: "sockets_get F (sockets R) (ts_handle s) = Some (Tcp_sock t)" using assms(2) by (auto simp: tcp_at_iff)
  obtain y t1 where sl: "tcp_send_slice F buf t = (y, t1)" by fastforce
  note g = with_tcp_get(1,2) [OF t assms(1) [unfolded poll_send_def]]
  have "got t1 = got t" using streams(1,2) [of buf t] sl by (cases y) auto
  then have "\<exists>t2. sockets_get F (sockets R') (ts_handle s) = Some (Tcp_sock t2) \<and> got t2 = got t"
    using g(2) [of "ts_handle s"] sl by (cases y) (auto simp: streams split: tcp_send_error.splits)
  then show "tcp_view F got R' (ts_handle s) = tcp_view F got R (ts_handle s)" "tcp_at F (sockets R') (ts_handle s)"
    using t by (auto simp: tcp_view_def tcp_at_iff)
qed

lemma send_keeps_got:
  assumes "TcpStream_send F s cx data i R = Done (r, j, R')" and "tcp_at F (sockets R) (ts_handle s)"
  shows "tcp_view F got R' (ts_handle s) = tcp_view F got R (ts_handle s)"
  using assms
proof (induction "length data - i" arbitrary: i R rule: less_induct)
  case less
  note step = TcpStream_send.simps [of F s cx data i R]
  show ?case
  proof (cases "i < length data")
    case False
    then show ?thesis using less.prems(1) step by simp
  next
    case True
    obtain y R1 where p: "poll_send F s cx (drop i data) R = Done (y, R1)" using sink.write_returns [OF less.prems(2)] by blast
    note k = poll_send_keeps_got [OF p less.prems(2)]
    show ?thesis
    proof (cases "\<exists>n. y = Ready (Inr n)")
      case False
      then show ?thesis using less.prems(1) step True p k by (auto split: poll.splits sum.splits)
    next
      case True
      then obtain n where n: "y = Ready (Inr n)" by blast
      have "0 < n" using poll_send_progress [OF p [unfolded n]] \<open>i < length data\<close> by simp
      moreover have "TcpStream_send F s cx data (i + n) R1 = Done (r, j, R')" using less.prems(1) step \<open>i < length data\<close> p n by simp
      ultimately show ?thesis using less.hyps [of "i + n" R1] \<open>i < length data\<close> k by simp
    qed
  qed
qed

lemma send_views:
  assumes "TcpStream_send F s cx data i R = Done (r, j, R')" and "i \<le> length data"
    and "tcp_view F sent R (ts_handle s) = Some a"
  shows "i \<le> j \<and> j \<le> length data \<and> tcp_view F sent R' (ts_handle s) = Some (a @ take (j - i) (drop i data))
    \<and> (\<forall>n. r = Ready (Inr n) \<longrightarrow> j = length data)"
proof -
  have at: "tcp_at F (sockets R) (ts_handle s)" using assms(3) tcp_view_at [of F sent R "ts_handle s"] by simp
  note p = send_poll_sends [OF assms(1,2) at]
  from sink.sends_part [OF _ at assms(2)] p
  have "tcp_at F (sockets R') (ts_handle s)" "i \<le> j" "j \<le> length data"
    "the (tcp_view F sent R' (ts_handle s)) = the (tcp_view F sent R (ts_handle s)) @ take (j - i) (drop i data)" by blast+
  then show ?thesis using assms(3) p tcp_view_at [of F sent R' "ts_handle s"] by auto
qed

end

subsection \<open>Every step keeps the bytes in order\<close>

locale bridge_link = conn: tcp_conn F sent got s + lc: mpsc_queue C items ctx crx + os: mpsc_queue Q oitems otx orx
  for F :: "('S, 't, 'u, 'i, 'd, 'z) smol_scheme" and sent got :: "'t \<Rightarrow> u8 list" and s :: tcp_stream
    and C :: "('c, u8 list, 'x) mpsc_scheme" and items :: "'c \<Rightarrow> u8 list list" and ctx crx :: "'c \<Rightarrow> bool"
    and Q :: "('o, bridge_error + u8 list, 'y) mpsc_scheme" and oitems :: "'o \<Rightarrow> (bridge_error + u8 list) list" and otx orx :: "'o \<Rightarrow> bool"
begin

lemma write_items:
  assumes "BridgeTcpStream_poll_write C buf c = (r, c')"
  shows "concat (items c') = concat (items c) @ accepted_write buf r"
proof -
  obtain p c1 where res: "mp_poll_reserve C c = (p, c1)" by fastforce
  note k = lc.reserve_items [OF res]
  show ?thesis
  proof (cases "\<exists>u. p = Ready (Inr u)")
    case True
    then have p: "p = Ready (Inr ())" by auto
    obtain q c2 where it: "mp_send_item C buf c1 = (q, c2)" by fastforce
    show ?thesis
    proof (cases q)
      case (Inl u)
      then show ?thesis using assms res p it k lc.item_err [of buf c1 c2] by (auto simp: BridgeTcpStream_poll_write_def accepted_write_def)
    next
      case (Inr u)
      then show ?thesis using assms res p it lc.item_ok [of c c1 buf c2] by (auto simp: BridgeTcpStream_poll_write_def accepted_write_def)
    qed
  next
    case False
    then show ?thesis using assms res k
      by (auto simp: BridgeTcpStream_poll_write_def accepted_write_def split: poll.splits sum.splits)
  qed
qed

text \<open>A read takes the next bytes, and reports the end only when the queue has none left.\<close>

lemma read_items:
  assumes "BridgeTcpStream_poll_read sh Q n st q = (r, st', q')"
  shows "bt_read_buf st @ oks (oitems q) = delivered r @ bt_read_buf st' @ oks (oitems q')"
    and "otx q' = otx q" "orx q' = orx q" "oitems q' = oitems q \<or> (\<exists>m. oitems q = m # oitems q')"
    and "r = Ready (Inr []) \<Longrightarrow> 0 < n \<Longrightarrow> bt_read_buf st = []
      \<and> ((\<exists>ms. oitems q = Inr [] # ms) \<or> oitems q = [] \<and> \<not> otx q)"
proof -
  have "bt_read_buf st @ oks (oitems q) = delivered r @ bt_read_buf st' @ oks (oitems q') \<and> otx q' = otx q \<and> orx q' = orx q
    \<and> (oitems q' = oitems q \<or> (\<exists>m. oitems q = m # oitems q'))
    \<and> (r = Ready (Inr []) \<longrightarrow> 0 < n \<longrightarrow> bt_read_buf st = [] \<and> ((\<exists>ms. oitems q = Inr [] # ms) \<or> oitems q = [] \<and> \<not> otx q))"
  proof (cases "bt_read_buf st = []")
    case False
    then show ?thesis using assms by (auto simp: BridgeTcpStream_poll_read_def Let_def delivered_def min_def split: if_splits)
  next
    case True
    obtain m q1 where m: "mp_poll_recv Q q = (m, q1)" by fastforce
    consider e where "m = Ready (Some (Inl e))" | bs where "m = Ready (Some (Inr bs))" | "m = Ready None" | "m = Pending"
      by (metis option.exhaust poll.exhaust sum.exhaust)
    then show ?thesis
    proof cases
      case 1
      then show ?thesis using assms True m os.recv_some [of q "Inl e" q1] by (auto simp: BridgeTcpStream_poll_read_def delivered_def)
    next
      case 2
      then show ?thesis using assms True m os.recv_some [of q "Inr bs" q1]
        by (auto simp: BridgeTcpStream_poll_read_def delivered_def Let_def min_def split: if_splits)
    next
      case 3
      then show ?thesis using assms True m os.recv_none [of q q1] by (auto simp: BridgeTcpStream_poll_read_def delivered_def)
    next
      case 4
      then show ?thesis using assms True m os.recv_pending [of q q1] by (auto simp: BridgeTcpStream_poll_read_def delivered_def)
    qed
  qed
  then show "bt_read_buf st @ oks (oitems q) = delivered r @ bt_read_buf st' @ oks (oitems q')"
    "otx q' = otx q" "orx q' = orx q" "oitems q' = oitems q \<or> (\<exists>m. oitems q = m # oitems q')"
    "r = Ready (Inr []) \<Longrightarrow> 0 < n \<Longrightarrow> bt_read_buf st = []
      \<and> ((\<exists>ms. oitems q = Inr [] # ms) \<or> oitems q = [] \<and> \<not> otx q)" by blast+
qed

lemma step_tcp:
  assumes "bridge_step F C Q sent got s x y" and "tcp_inv F sent got s a b x" and "egress_inv items x"
  shows "tcp_inv F sent got s a b y"
  using assms
proof (cases rule: bridge_step.cases)
  case (select_ingress cx r R')
  from relay_ingress_cases [OF select_ingress(3)] obtain p where
    p: "poll_recv F s cx 65536 (br_reactor x) = Done (p, R')" "chunk_of r = delivered p" by blast
  with conn.recv_views [OF p(1) _, of "b @ br_got x" "a @ br_sent x"] assms(2) select_ingress(1,2) show ?thesis
    by (simp add: tcp_inv_def)
next
  case (to_tcp bytes i cx r j R')
  from to_tcp(3) obtain p where p: "TcpStream_send F s cx bytes i (br_reactor x) = Done (p, j, R')"
    by (auto simp: relay_to_tcp_def)
  have v: "tcp_view F sent (br_reactor x) (ts_handle s) = Some (a @ br_sent x)" "tcp_view F got (br_reactor x) (ts_handle s) = Some (b @ br_got x)"
    using assms(2) to_tcp(2) by (simp_all add: tcp_inv_def)
  have i: "i \<le> length bytes" using assms(3) to_tcp(2) by (simp add: egress_inv_def)
  have "tcp_at F (sockets (br_reactor x)) (ts_handle s)" using v(1) tcp_view_at [of F sent "br_reactor x" "ts_handle s"] by simp
  from conn.send_views [OF p i v(1)] conn.send_keeps_got [OF p this] v show ?thesis
    by (simp add: to_tcp(1) tcp_inv_def)
next
  case (closing cx r R')
  from closing(3) obtain p where p: "poll_close_io F s cx (br_reactor x) = Done (p, R')"
    by (auto simp: relay_close_def TcpStream_close_def)
  have v: "tcp_view F sent (br_reactor x) (ts_handle s) = Some (a @ br_sent x)" "tcp_view F got (br_reactor x) (ts_handle s) = Some (b @ br_got x)"
    using assms(2) closing(2) by (simp_all add: tcp_inv_def)
  have "tcp_at F (sockets (br_reactor x)) (ts_handle s)" using v(1) tcp_view_at [of F sent "br_reactor x" "ts_handle s"] by simp
  from conn.close_views [OF p this] v show ?thesis by (simp add: closing(1) tcp_inv_def)
next
  case (others R')
  then show ?thesis using assms(2) by (auto simp: tcp_inv_def leaves_stream_def)
qed (auto simp: tcp_inv_def)

lemma step_egress:
  assumes "bridge_step F C Q sent got s x y" and "egress_inv items x" and "ingress_inv oitems otx orx x" and "tcp_inv F sent got s a b x"
  shows "egress_inv items y"
  using assms
proof (cases rule: bridge_step.cases)
  case (os_write st buf r c')
  have "concat (items c') = concat (items (br_to_lcore x)) @ accepted_write buf r" by (rule write_items [OF os_write(3)])
  then show ?thesis using assms(2)
    by (auto simp: os_write(1) egress_inv_def prefix_def split: relay_state.splits sum.splits bool.splits)
next
  case os_drop
  then show ?thesis using assms(2)
    by (cases "br_relay x") (auto simp: egress_inv_def lc.dropped_tx split: sum.splits bool.splits)
next
  case (select_ingress cx r R')
  have w: "br_written x = br_sent x @ concat (items (br_to_lcore x))" using assms(2) select_ingress(2) by (simp add: egress_inv_def)
  from relay_ingress_cases [OF select_ingress(3)]
  have "r = Selecting \<or> (\<exists>bs. r = ToOs (Inr bs) False) \<or> (\<exists>m. r = ToOs m True)" by metis
  then show ?thesis using w by (auto simp: select_ingress(1) egress_inv_def split: sum.splits)
next
  case (select_egress r c')
  have w: "br_written x = br_sent x @ concat (items (br_to_lcore x))" using assms(2) select_egress(2) by (simp add: egress_inv_def)
  obtain p c1 where p: "mp_poll_recv C (br_to_lcore x) = (p, c1)" by fastforce
  consider (none) "p = Ready None" | (some) bs where "p = Ready (Some bs)" | (wait) "p = Pending" by (metis option.exhaust poll.exhaust)
  then show ?thesis
  proof cases
    case none
    then show ?thesis using w p select_egress(3) by (auto simp: select_egress(1) relay_egress_def egress_inv_def)
  next
    case some
    then show ?thesis using w p select_egress(3) lc.recv_some [of "br_to_lcore x" bs c1]
      by (auto simp: select_egress(1) relay_egress_def egress_inv_def)
  next
    case wait
    then show ?thesis using w p select_egress(3) lc.recv_pending [of "br_to_lcore x" c1]
      by (auto simp: select_egress(1) relay_egress_def egress_inv_def)
  qed
next
  case select_close
  then show ?thesis using assms(2) by (simp add: egress_inv_def)
next
  case (to_tcp bytes i cx r j R')
  have i: "i \<le> length bytes" and w: "br_written x = br_sent x @ drop i bytes @ concat (items (br_to_lcore x))"
    using assms(2) to_tcp(2) by (simp_all add: egress_inv_def)
  from to_tcp(3) obtain p where p: "TcpStream_send F s cx bytes i (br_reactor x) = Done (p, j, R')" and
    r: "r = (case p of Pending \<Rightarrow> ToTcp bytes j | Ready (Inr _) \<Rightarrow> Selecting | Ready (Inl e) \<Rightarrow> ToOs (Inl (BE_Io e)) True)"
    by (auto simp: relay_to_tcp_def)
  have v: "tcp_view F sent (br_reactor x) (ts_handle s) = Some (a @ br_sent x)" using assms(4) to_tcp(2) by (simp add: tcp_inv_def)
  note sv = conn.send_views [OF p i v]
  have d: "drop i bytes = take (j - i) (drop i bytes) @ drop j bytes"
    using sv by (metis append_take_drop_id drop_drop le_add_diff_inverse2)
  have w': "br_written x = (br_sent x @ take (j - i) (drop i bytes)) @ drop j bytes @ concat (items (br_to_lcore x))"
    using w d by (metis append.assoc)
  show ?thesis
  proof (cases p)
    case Pending
    then show ?thesis using w' sv by (simp add: to_tcp(1) r egress_inv_def)
  next
    case (Ready y)
    then show ?thesis
    proof (cases y)
      case (Inl e)
      then show ?thesis using w' Inl Ready by (auto simp: to_tcp(1) r egress_inv_def)
    next
      case (Inr n)
      then have "j = length bytes" using sv Ready by simp
      then show ?thesis using w' Ready Inr by (simp add: to_tcp(1) r egress_inv_def)
    qed
  qed
next
  case (to_os msg stop r q')
  have st: "stop \<longleftrightarrow> isl msg \<or> msg = Inr []" using assms(3) to_os(2) by (simp add: ingress_inv_def)
  have "prefix (br_sent x) (br_written x)" "\<not> stop \<Longrightarrow> br_written x = br_sent x @ concat (items (br_to_lcore x))"
    using assms(2) to_os(2) st by (auto simp: egress_inv_def split: sum.splits bool.splits)
  moreover have "r = ToOs msg stop \<or> r = Finished \<or> r = Selecting \<and> \<not> stop" using to_os(3)
    by (auto simp: relay_to_os_def split: prod.splits poll.splits sum.splits if_splits)
  ultimately show ?thesis using st by (auto simp: to_os(1) egress_inv_def split: sum.splits bool.splits)
next
  case (closing cx r R')
  have "r = ClosingTcp \<or> r = Finished" by (rule relay_close_cases [OF closing(3)])
  then show ?thesis using assms(2) closing(2) by (auto simp: closing(1) egress_inv_def)
qed (auto simp: egress_inv_def split: relay_state.splits sum.splits bool.splits)

lemma step_ingress:
  assumes "bridge_step F C Q sent got s x y" and inv: "ingress_inv oitems otx orx x"
  shows "ingress_inv oitems otx orx y"
  using assms
proof (cases rule: bridge_step.cases)
  case (os_read st sh n r st' q')
  note rd = read_items [OF os_read(3)]
  have g: "br_got x = br_read x @ bt_read_buf st @ oks (oitems (br_to_os x)) @ chunk_of (br_relay x)"
    and o: "orx (br_to_os x)" "otx (br_to_os x) \<longleftrightarrow> br_relay x \<noteq> Gone"
      "Inr [] \<in> set (oitems (br_to_os x)) \<Longrightarrow> br_relay x \<in> {Finished, Gone} \<and> Inr [] \<notin> set (butlast (oitems (br_to_os x)))"
      "\<And>msg stop. br_relay x = ToOs msg stop \<Longrightarrow> (stop \<longleftrightarrow> isl msg \<or> msg = Inr [])"
    using inv os_read(2) by (auto simp: ingress_inv_def)
  have g': "br_got x = (br_read x @ delivered r) @ bt_read_buf st' @ oks (oitems q') @ chunk_of (br_relay x)"
    using g rd(1) by (metis append.assoc)
  moreover have "set (oitems q') \<subseteq> set (oitems (br_to_os x))" "set (butlast (oitems q')) \<subseteq> set (butlast (oitems (br_to_os x)))"
    using rd(4) by auto
  ultimately show ?thesis using o rd(2,3) by (auto simp: os_read(1) ingress_inv_def)
next
  case (select_ingress cx r R')
  from relay_ingress_cases [OF select_ingress(3)]
  have r: "r = Selecting \<or> (\<exists>e. r = ToOs (Inl (BE_Io e)) True) \<or> r = ToOs (Inr []) True \<or> (\<exists>bs. bs \<noteq> [] \<and> r = ToOs (Inr bs) False)" by metis
  have "r \<noteq> Gone" using r by auto
  moreover have "chunk_of (br_relay x) = []" "Inr [] \<notin> set (oitems (br_to_os x))" if "br_os x \<noteq> None"
    using inv select_ingress(2) that by (auto simp: ingress_inv_def chunk_of_def)
  moreover have "stop \<longleftrightarrow> isl msg \<or> msg = Inr []" if "r = ToOs msg stop" for msg stop using r that by auto
  ultimately show ?thesis using inv select_ingress(2) by (auto simp: select_ingress(1) ingress_inv_def)
next
  case (select_egress r c')
  have r: "r = Selecting \<or> r = Finished \<or> (\<exists>bs. r = ToTcp bs 0)"
    using select_egress(3) by (auto simp: relay_egress_def split: prod.splits poll.splits option.splits)
  then have "chunk_of r = []" "r \<noteq> Gone" "\<And>m b. r \<noteq> ToOs m b" by (auto simp: chunk_of_def)
  then show ?thesis using inv select_egress(2) by (auto simp: select_egress(1) ingress_inv_def chunk_of_def)
next
  case select_close
  then show ?thesis using inv by (auto simp: ingress_inv_def chunk_of_def)
next
  case (to_tcp bytes i cx r j R')
  from to_tcp(3) have "r = Selecting \<or> (\<exists>e. r = ToOs (Inl (BE_Io e)) True) \<or> (\<exists>k. r = ToTcp bytes k)"
    by (cases "TcpStream_send F s cx bytes i (br_reactor x)") (auto simp: relay_to_tcp_def split: poll.splits sum.splits)
  then show ?thesis using inv to_tcp(2) by (auto simp: to_tcp(1) ingress_inv_def chunk_of_def)
next
  case (to_os msg stop r q')
  have st: "stop \<longleftrightarrow> isl msg \<or> msg = Inr []" using inv to_os(2) by (simp add: ingress_inv_def)
  obtain p q1 where p: "mp_poll_send Q msg (br_to_os x) = (p, q1)" by fastforce
  show ?thesis
  proof (cases "br_os x")
    case None
    then show ?thesis using inv st to_os(3) p
      by (auto simp: to_os(1) ingress_inv_def relay_to_os_def split: poll.splits sum.splits if_splits)
  next
    case (Some s')
    then have o: "orx (br_to_os x)" "otx (br_to_os x)" "Inr [] \<notin> set (oitems (br_to_os x))"
      "br_got x = br_read x @ bt_read_buf s' @ oks (oitems (br_to_os x)) @ chunk_of (ToOs msg stop)" "prefix (br_read x) (br_got x)"
      using inv to_os(2) by (auto simp: ingress_inv_def)
    consider (wait) "p = Pending" | (ok) "p = Ready (Inr ())" | (err) "p = Ready (Inl ())" by (metis poll.exhaust sum.exhaust old.unit.exhaust)
    then show ?thesis
    proof cases
      case wait
      then show ?thesis using o st Some to_os p os.send_pending [of msg "br_to_os x" q1] by (auto simp: ingress_inv_def relay_to_os_def)
    next
      case ok
      have c: "chunk_of (ToOs msg stop) = oks [msg]" by (cases msg) (simp_all add: chunk_of_def)
      have m: "msg = Inr [] \<Longrightarrow> stop" using st by simp
      from ok show ?thesis using o m c Some to_os p os.send_ok [of msg "br_to_os x" q1]
        by (cases stop) (auto simp: ingress_inv_def relay_to_os_def chunk_of_def)
    next
      case err
      then show ?thesis using o p os.send_err [of msg "br_to_os x" q1] by auto
    qed
  qed
next
  case (closing cx r R')
  have "r = ClosingTcp \<or> r = Finished" by (rule relay_close_cases [OF closing(3)])
  then show ?thesis using inv closing(2) by (auto simp: closing(1) ingress_inv_def chunk_of_def)
next
  case (leave R')
  then show ?thesis using inv by (auto simp: ingress_inv_def chunk_of_def os.dropped_tx)
qed (auto simp: ingress_inv_def os.dropped_rx BridgeTcpStream_poll_close_def)

lemma run_inv:
  assumes "(bridge_step F C Q sent got s)\<^sup>*\<^sup>* (bridge_start C Q R) x"
    and "tcp_view F sent R (ts_handle s) = Some a" and "tcp_view F got R (ts_handle s) = Some b"
  shows "tcp_inv F sent got s a b x \<and> egress_inv items x \<and> ingress_inv oitems otx orx x"
  using assms(1)
proof (induction rule: rtranclp_induct)
  case base
  show ?case using assms(2,3)
    by (simp add: bridge_start_def tcp_inv_def egress_inv_def ingress_inv_def lc.new os.new BridgeTcpStream_new_def chunk_of_def)
next
  case (step x y)
  then show ?case using step_tcp step_egress step_ingress by blast
qed

lemma egress_prefix: "egress_inv items x \<Longrightarrow> prefix (br_sent x) (br_written x)"
  by (auto simp: egress_inv_def split: relay_state.splits sum.splits bool.splits)

text \<open>The end of the stream is reported only after all that the TCP stream delivered.\<close>

lemma eof_complete:
  assumes inv: "ingress_inv oitems otx orx x" and os: "br_os x = Some st"
    and rd: "BridgeTcpStream_poll_read sh Q n st (br_to_os x) = (Ready (Inr []), st', q')" and n: "0 < n"
  shows "br_read x = br_got x"
proof -
  note r = read_items(5) [OF rd refl n]
  show ?thesis
  proof (cases "oitems (br_to_os x)")
    case Nil
    then show ?thesis using r inv os by (auto simp: ingress_inv_def chunk_of_def)
  next
    case (Cons m ms)
    then have "m = Inr []" using r by auto
    moreover have "ms = []" using inv os Cons calculation by (cases ms) (auto simp: ingress_inv_def)
    ultimately show ?thesis using r inv os Cons by (auto simp: ingress_inv_def chunk_of_def)
  qed
qed

end

interpretation sim_link: bridge_link ref_smol r_sent r_got s list_mpsc lc_items lc_tx lc_rx list_mpsc lc_items lc_tx lc_rx for s
  by unfold_locales

text \<open>
  C5. A bridged connection is a pair of byte streams. Whatever the order in which the OS thread, the relay task
  and the rest of the lcore take their steps, the TCP stream has accepted an initial part of the bytes written
  to the bridge and the reader has got an initial part of the bytes that the TCP stream delivered: none is
  lost in between, repeated or reordered. When the task waits and the queue is empty all that was written
  has been passed on, and a read reports the end of the stream only after everything delivered was read.
\<close>

theorem bridge_fifo:
  assumes "set_law F" "poll_law F" "tcp_state_law F" "tcp_stream_law F sent got"
    and "mpsc_queue C items ctx crx" and "mpsc_queue Q oitems otx orx"
    and "tcp_view F sent R (ts_handle s) = Some a" and "tcp_view F got R (ts_handle s) = Some b"
    and "(bridge_step F C Q sent got s)\<^sup>*\<^sup>* (bridge_start C Q R) x"
  shows "prefix (br_sent x) (br_written x) \<and> prefix (br_read x) (br_got x)
    \<and> (br_relay x \<noteq> Gone \<longrightarrow> tcp_view F sent (br_reactor x) (ts_handle s) = Some (a @ br_sent x)
         \<and> tcp_view F got (br_reactor x) (ts_handle s) = Some (b @ br_got x))
    \<and> (br_relay x = Selecting \<and> items (br_to_lcore x) = [] \<longrightarrow> br_sent x = br_written x)
    \<and> (\<forall>st sh n st' q'. br_os x = Some st \<longrightarrow> 0 < n \<longrightarrow>
         BridgeTcpStream_poll_read sh Q n st (br_to_os x) = (Ready (Inr []), st', q') \<longrightarrow> br_read x = br_got x)"
proof -
  note l = bridge_link.intro [OF tcp_connI [OF assms(1-4)] assms(5,6)]
  note inv = bridge_link.run_inv [OF l assms(9,7,8)]
  have "prefix (br_sent x) (br_written x)" using bridge_link.egress_prefix [OF l] inv by blast
  moreover have "prefix (br_read x) (br_got x)" using inv by (simp add: ingress_inv_def)
  moreover have "br_relay x = Selecting \<and> items (br_to_lcore x) = [] \<longrightarrow> br_sent x = br_written x"
    using inv by (auto simp: egress_inv_def)
  moreover have "\<forall>st sh n st' q'. br_os x = Some st \<longrightarrow> 0 < n \<longrightarrow>
         BridgeTcpStream_poll_read sh Q n st (br_to_os x) = (Ready (Inr []), st', q') \<longrightarrow> br_read x = br_got x"
    using bridge_link.eof_complete [OF l] inv by blast
  ultimately show ?thesis using inv by (simp add: tcp_inv_def)
qed

text \<open>Steps of a connection on the reference stack, with the two bytes 1 and 2.\<close>

abbreviation (input) sim_step :: "(nat, ref_event list, ref_set, u8 list list_chan, (bridge_error + u8 list) list_chan) bridge_conn
    \<Rightarrow> (nat, ref_event list, ref_set, u8 list list_chan, (bridge_error + u8 list) list_chan) bridge_conn \<Rightarrow> bool" where
  "sim_step \<equiv> bridge_step ref_smol list_mpsc list_mpsc r_sent r_got \<lparr>ts_handle = 0\<rparr>"

abbreviation (input) sim_start :: "(nat, ref_event list, ref_set, u8 list list_chan, (bridge_error + u8 list) list_chan) bridge_conn" where
  "sim_start \<equiv> bridge_start list_mpsc list_mpsc (ref_conn Established 2)"

definition sim_written :: "(nat, ref_event list, ref_set, u8 list list_chan, (bridge_error + u8 list) list_chan) bridge_conn" where
  "sim_written = sim_start\<lparr>br_to_lcore := \<lparr>lc_items = [[1, 2]], lc_cap = 256, lc_reserved = 0, lc_tx = True, lc_rx = True\<rparr>, br_written := [1, 2]\<rparr>"

lemma sim_write: "sim_step sim_start sim_written"
proof -
  have "BridgeTcpStream_poll_write list_mpsc [1, 2] (br_to_lcore sim_start)
      = (Ready (Inr 2), \<lparr>lc_items = [[1, 2]], lc_cap = 256, lc_reserved = 0, lc_tx = True, lc_rx = True\<rparr>)"
    by (simp add: BridgeTcpStream_poll_write_def list_mpsc_def bridge_start_def DATA_CHANNEL_SIZE_def lc_free_def)
  from bridge_step.os_write [OF _ this, where st = BridgeTcpStream_new and F = ref_smol and Q = list_mpsc and sent = r_sent
      and got = r_got and s = "\<lparr>ts_handle = 0\<rparr>"]
  show ?thesis by (simp add: sim_written_def bridge_start_def DATA_CHANNEL_SIZE_def accepted_write_def)
qed

theorem bridge_fifo_witness:
  "\<exists>x. sim_step\<^sup>*\<^sup>* sim_start x \<and> br_sent x = [1, 2] \<and> tcp_view ref_smol r_sent (br_reactor x) 0 = Some [1, 2]"
proof -
  let ?s = "\<lparr>ts_handle = 0\<rparr>" and ?R = "ref_conn Established 2"
  let ?y = "sim_written\<lparr>br_relay := ToTcp [1, 2] 0, br_to_lcore := \<lparr>lc_items = [], lc_cap = 256, lc_reserved = 0, lc_tx = True, lc_rx = True\<rparr>\<rparr>"
  have v: "tcp_view ref_smol r_sent ?R (ts_handle ?s) = Some []" "tcp_view ref_smol r_got ?R (ts_handle ?s) = Some []"
    by (simp_all add: tcp_view_def ref_conn_def ref_smol_def)
  have "relay_egress list_mpsc (br_to_lcore sim_written) = (ToTcp [1, 2] 0, \<lparr>lc_items = [], lc_cap = 256, lc_reserved = 0, lc_tx = True, lc_rx = True\<rparr>)"
    by (simp add: relay_egress_def list_mpsc_def sim_written_def)
  from bridge_step.select_egress [OF _ this] have 1: "sim_step sim_written ?y" by (simp add: sim_written_def bridge_start_def DATA_CHANNEL_SIZE_def)
  obtain R' where "relay_to_tcp ref_smol ?s 7 [1, 2] 0 ?R = Done (Selecting, 2, R')"
    by (simp add: relay_to_tcp_def TcpStream_send.simps poll_send_def with_tcp_def get_tcp_def ref_conn_def ref_smol_def ref_send_def Let_def)
  moreover have "br_relay ?y = ToTcp [1, 2] 0" "br_reactor ?y = ?R" by (simp_all add: sim_written_def bridge_start_def DATA_CHANNEL_SIZE_def)
  ultimately have 2: "sim_step ?y (?y\<lparr>br_relay := Selecting, br_reactor := R', br_sent := br_sent ?y @ take (2 - 0) (drop 0 [1, 2])\<rparr>)"
    by (intro bridge_step.to_tcp [where cx = 7]) simp_all
  define x where "x = ?y\<lparr>br_relay := Selecting, br_reactor := R', br_sent := br_sent ?y @ take (2 - 0) (drop 0 [1, 2])\<rparr>"
  have run: "sim_step\<^sup>*\<^sup>* sim_start x" unfolding x_def using sim_write 1 2 by (meson rtranclp.intros)
  have "br_sent x = [1, 2]" "br_relay x = Selecting" by (simp_all add: x_def sim_written_def bridge_start_def DATA_CHANNEL_SIZE_def)
  with bridge_fifo [OF ref_set_law ref_poll_law ref_tcp_state_law ref_stream_law list_chan.mpsc_queue_axioms list_chan.mpsc_queue_axioms v run] run
  show ?thesis by auto
qed

text \<open>
  C39. Closing a bridged stream can lose what was written. \<open>poll_write\<close> has accepted two bytes, \<open>poll_close\<close> has returned,
  and no step failed; but \<open>select!\<close> may take the signal before the queue: the task closes the TCP stream and ends
  with none of the bytes sent.
\<close>

theorem close_drops_writes:
  "\<exists>x. sim_step\<^sup>*\<^sup>* sim_start x \<and> br_relay x = Gone \<and> br_os x = Some \<lparr>bt_read_buf = [], bt_close_tx = False\<rparr>
     \<and> br_written x = [1, 2] \<and> br_sent x = []"
proof -
  let ?s = "\<lparr>ts_handle = 0\<rparr>" and ?R = "ref_conn Established 2"
  let ?st = "\<lparr>bt_read_buf = [], bt_close_tx = False\<rparr>"
  let ?y = "sim_written\<lparr>br_os := Some ?st, br_close := True\<rparr>"
  have "sim_step sim_written (sim_written\<lparr>br_os := Some ?st, br_close := br_close sim_written \<or> True\<rparr>)"
    by (rule bridge_step.os_close [where st = BridgeTcpStream_new])
      (simp_all add: sim_written_def bridge_start_def DATA_CHANNEL_SIZE_def BridgeTcpStream_poll_close_def BridgeTcpStream_new_def)
  then have 1: "sim_step sim_written ?y" by simp
  have 2: "sim_step ?y (?y\<lparr>br_relay := ClosingTcp\<rparr>)"
    by (rule bridge_step.select_close) (simp_all add: sim_written_def bridge_start_def DATA_CHANNEL_SIZE_def)
  obtain R1 where r1: "relay_close ref_smol ?s 7 ?R = Done (ClosingTcp, R1)" and
    v1: "tcp_view ref_smol r_sent R1 0 = Some []" "tcp_view ref_smol r_got R1 0 = Some []"
    by (simp add: relay_close_def TcpStream_close_def poll_close_io_def with_tcp_def get_tcp_def ref_conn_def ref_smol_def tcp_view_def)
  have 3: "sim_step (?y\<lparr>br_relay := ClosingTcp\<rparr>) (?y\<lparr>br_relay := ClosingTcp, br_reactor := R1\<rparr>)"
    using bridge_step.closing [of "?y\<lparr>br_relay := ClosingTcp\<rparr>" ref_smol ?s 7 ClosingTcp R1 list_mpsc list_mpsc r_sent r_got] r1
    by (simp add: sim_written_def bridge_start_def DATA_CHANNEL_SIZE_def)
  let ?R2 = "ref_conn Closed 2"
  have "leaves_stream ref_smol r_sent r_got ?s R1 ?R2"
    using v1 by (simp add: leaves_stream_def) (simp add: tcp_view_def ref_conn_def ref_smol_def)
  then have 4: "sim_step (?y\<lparr>br_relay := ClosingTcp, br_reactor := R1\<rparr>) (?y\<lparr>br_relay := ClosingTcp, br_reactor := ?R2\<rparr>)"
    using bridge_step.others [of ref_smol r_sent r_got ?s "?y\<lparr>br_relay := ClosingTcp, br_reactor := R1\<rparr>" ?R2] by simp
  obtain R3 where r3: "relay_close ref_smol ?s 7 ?R2 = Done (Finished, R3)" and
    d3: "\<exists>R4. TcpStream_drop ref_smol ?s R3 = Done R4"
    by (simp add: relay_close_def TcpStream_close_def poll_close_io_def with_tcp_def get_tcp_def ref_conn_def ref_smol_def TcpStream_drop_def)
  have 5: "sim_step (?y\<lparr>br_relay := ClosingTcp, br_reactor := ?R2\<rparr>) (?y\<lparr>br_relay := Finished, br_reactor := R3\<rparr>)"
    using bridge_step.closing [of "?y\<lparr>br_relay := ClosingTcp, br_reactor := ?R2\<rparr>" ref_smol ?s 7 Finished R3 list_mpsc list_mpsc r_sent r_got] r3 by simp
  from d3 obtain R4 where r4: "TcpStream_drop ref_smol ?s R3 = Done R4" by blast
  let ?x = "?y\<lparr>br_relay := Gone, br_reactor := R4, br_to_lcore := mp_drop_rx list_mpsc (br_to_lcore ?y), br_to_os := mp_drop_tx list_mpsc (br_to_os ?y)\<rparr>"
  have 6: "sim_step (?y\<lparr>br_relay := Finished, br_reactor := R3\<rparr>) ?x"
    using bridge_step.leave [of "?y\<lparr>br_relay := Finished, br_reactor := R3\<rparr>" ref_smol ?s R4 list_mpsc list_mpsc r_sent r_got] r4 by simp
  have "sim_step\<^sup>*\<^sup>* sim_start ?x" using sim_write 1 2 3 4 5 6 by (meson rtranclp.intros)
  then show ?thesis by (intro exI [of _ ?x]) (simp add: sim_written_def bridge_start_def DATA_CHANNEL_SIZE_def)
qed

end
