(* ===== verification/Bridge_Worker.thy ===== *)
theory Bridge_Worker
  imports Bridge_Stream Udp_Socket
begin

section \<open>The workers of the bridge (dpdk-net-util, bridge/worker.rs, handle.rs, command.rs, listener.rs)\<close>

text \<open>
  The registry in which OS threads find an lcore, the commands that they send to it, and the loop on the lcore
  that carries them out with the sockets of the library.
\<close>

subsection \<open>Choosing a worker\<close>

text \<open>\<open>'c\<close> is a command channel; \<open>next\<close> is an \<open>AtomicUsize\<close>, whose \<open>fetch_add\<close> wraps.\<close>

record 'c worker_registry =
  rg_workers :: "'c list"
  rg_next :: "u64"

definition WorkerRegistry_new :: "'c worker_registry" where
  "WorkerRegistry_new = \<lparr>rg_workers = [], rg_next = 0\<rparr>"

definition WorkerRegistry_select :: "'c worker_registry \<Rightarrow> 'c option \<times> 'c worker_registry" where
  "WorkerRegistry_select rg =
     (if rg_workers rg = [] then (None, rg)
      else (let idx = unat (rg_next rg) mod length (rg_workers rg)
            in (Some (rg_workers rg ! idx), rg\<lparr>rg_next := rg_next rg + 1\<rparr>)))"

text \<open>The part of \<open>spawn\<close> that registers the command channel of a new worker.\<close>

definition BridgeWorkers_spawn :: "'c \<Rightarrow> 'c worker_registry \<Rightarrow> 'c worker_registry" where
  "BridgeWorkers_spawn cmd_tx rg = rg\<lparr>rg_workers := rg_workers rg @ [cmd_tx]\<rparr>"

fun selects :: "nat \<Rightarrow> 'c worker_registry \<Rightarrow> 'c option list" where
  "selects 0 rg = []"
| "selects (Suc n) rg = (case WorkerRegistry_select rg of (c, rg') \<Rightarrow> c # selects n rg')"

lemma selects_nth:
  assumes "rg_workers rg \<noteq> []" and "unat (rg_next rg) + n \<le> 2 ^ 64"
  shows "selects n rg = map (\<lambda>k. Some (rg_workers rg ! ((unat (rg_next rg) + k) mod length (rg_workers rg)))) [0..<n]"
  using assms
proof (induction n arbitrary: rg)
  case (Suc n)
  let ?rg = "rg\<lparr>rg_next := rg_next rg + 1\<rparr>"
  have sel: "WorkerRegistry_select rg = (Some (rg_workers rg ! (unat (rg_next rg) mod length (rg_workers rg))), ?rg)"
    using Suc.prems(1) by (simp add: WorkerRegistry_select_def)
  show ?case
  proof (cases n)
    case 0
    then show ?thesis by (simp add: sel)
  next
    case (Suc m)
    then have "unat (rg_next rg + 1) = unat (rg_next rg) + 1"
      using Suc.prems(2) by (simp add: unat_word_ariths)
    then have "selects n ?rg = map (\<lambda>k. Some (rg_workers rg ! ((unat (rg_next rg) + Suc k) mod length (rg_workers rg)))) [0..<n]"
      using Suc.IH [of ?rg] Suc.prems by simp
    moreover have "[0..<Suc n] = 0 # map Suc [0..<n]" by (simp add: map_Suc_upt upt_conv_Cons)
    ultimately show ?thesis by (simp add: sel)
  qed
qed simp

text \<open>
  Selection is fair: as many calls in a row as there are workers choose every worker once, starting after the
  last one, as long as the counter does not wrap on the way.
\<close>

lemma selects_rotate:
  assumes "unat (rg_next rg) + length (rg_workers rg) \<le> 2 ^ 64"
  shows "selects (length (rg_workers rg)) rg = map Some (rotate (unat (rg_next rg)) (rg_workers rg))"
proof (cases "rg_workers rg = []")
  case False
  show ?thesis
    unfolding selects_nth [OF False assms] by (rule nth_equalityI) (simp_all add: nth_rotate)
qed simp

subsection \<open>Ephemeral ports\<close>

record ephemeral_ports =
  ep_next :: u16

definition EphemeralPorts_new :: ephemeral_ports where
  "EphemeralPorts_new = \<lparr>ep_next = 49152\<rparr>"

definition EphemeralPorts_allocate :: "ephemeral_ports \<Rightarrow> u16 \<times> ephemeral_ports" where
  "EphemeralPorts_allocate p = (ep_next p, p\<lparr>ep_next := (if ep_next p = 65535 then 49152 else ep_next p + 1)\<rparr>)"

fun allocations :: "nat \<Rightarrow> ephemeral_ports \<Rightarrow> u16 list" where
  "allocations 0 p = []"
| "allocations (Suc n) p = (case EphemeralPorts_allocate p of (port, p') \<Rightarrow> port # allocations n p')"

lemma unat_port: "unat (word_of_nat (49152 + k mod 16384) :: u16) = 49152 + k mod 16384"
proof -
  have "49152 + k mod 16384 < 65536" by simp
  then show ?thesis by (simp only: unsigned_of_nat) (simp add: take_bit_nat_eq_self)
qed

lemma next_port: "ep_next p = word_of_nat (49152 + k mod 16384) \<Longrightarrow>
    EphemeralPorts_allocate p = (word_of_nat (49152 + k mod 16384), \<lparr>ep_next = word_of_nat (49152 + Suc k mod 16384)\<rparr>)"
proof -
  assume p: "ep_next p = word_of_nat (49152 + k mod 16384)"
  have u: "unat (ep_next p) = 49152 + k mod 16384" unfolding p by (rule unat_port)
  have wrap: "ep_next p = 65535 \<longleftrightarrow> k mod 16384 = 16383"
    by (simp add: word_unat_eq_iff u)
  have "p = \<lparr>ep_next = ep_next p\<rparr>" by simp
  then show ?thesis
  proof (cases "k mod 16384 = 16383")
    case True
    then have "Suc k mod 16384 = 0" by (simp add: mod_Suc)
    then show ?thesis using True wrap p by (simp add: EphemeralPorts_allocate_def)
  next
    case False
    then have "Suc k mod 16384 = Suc (k mod 16384)" by (simp add: mod_Suc)
    then show ?thesis using False wrap p by (simp add: EphemeralPorts_allocate_def add.commute)
  qed
qed

text \<open>
  C38. The port allocator stays in the ephemeral range and goes round it. The k-th allocation is port
  49152 + k mod 16384, so that 16384 allocations in a row are distinct and the next one repeats the
  first, whether or not the connection that has this port is still open.
\<close>

theorem ephemeral_ports_cycle:
  "allocations n EphemeralPorts_new = map (\<lambda>k. word_of_nat (49152 + k mod 16384)) [0..<n]
   \<and> distinct (allocations 16384 EphemeralPorts_new)
   \<and> unat ` set (allocations n EphemeralPorts_new) \<subseteq> {49152..65535}"
proof -
  have gen: "allocations m \<lparr>ep_next = word_of_nat (49152 + j mod 16384)\<rparr> = map (\<lambda>k. word_of_nat (49152 + (j + k) mod 16384)) [0..<m]" for m j
  proof (induction m arbitrary: j)
    case (Suc m)
    have "[0..<Suc m] = 0 # map Suc [0..<m]" by (simp add: map_Suc_upt upt_conv_Cons)
    then show ?case using Suc.IH [of "Suc j"] next_port [of "\<lparr>ep_next = word_of_nat (49152 + j mod 16384)\<rparr>" j] by simp
  qed simp
  have all: "allocations m EphemeralPorts_new = map (\<lambda>k. word_of_nat (49152 + k mod 16384)) [0..<m]" for m
    using gen [of m 0] by (simp add: EphemeralPorts_new_def)
  have "inj_on (\<lambda>k. word_of_nat (49152 + k mod 16384) :: u16) {0..<16384}"
  proof (rule inj_onI)
    fix i j :: nat
    assume "i \<in> {0..<16384}" "j \<in> {0..<16384}" "(word_of_nat (49152 + i mod 16384) :: u16) = word_of_nat (49152 + j mod 16384)"
    then show "i = j" using unat_port [of i] unat_port [of j] by simp
  qed
  then have "distinct (allocations 16384 EphemeralPorts_new)" by (simp add: all distinct_map)
  moreover have "unat ` set (allocations n EphemeralPorts_new) \<subseteq> {49152..65535}"
    using unat_port by (auto simp: all less_Suc_eq_le [symmetric])
  ultimately show ?thesis using all by blast
qed

subsection \<open>Addresses\<close>

text \<open>
  \<open>std::net\<close> addresses. smoltcp is built for IPv4 only, so that the matches on its addresses in the source have no other
  arm; the second arm of \<open>std_ip_of\<close> is for the addresses that smoltcp has otherwise.
\<close>

datatype std_ip = V4 ipv4 | V6 "u8 list"

record socket_addr =
  sa_ip :: std_ip
  sa_port :: u16

definition to_smoltcp_endpoint :: "socket_addr \<Rightarrow> ip_endpoint outcome" where
  "to_smoltcp_endpoint addr =
     (case sa_ip addr of
        V4 v4 \<Rightarrow> Done \<lparr>ep_addr = Ipv4Address v4, ep_port = sa_port addr\<rparr>
      | V6 _ \<Rightarrow> Panic ''not implemented: IPv6 not supported by smoltcp config'')"

definition std_ip_of :: "ip_address \<Rightarrow> std_ip" where
  "std_ip_of a = (case a of Ipv4Address v4 \<Rightarrow> V4 v4 | Ipv6Address b \<Rightarrow> V6 b)"

definition from_smoltcp_endpoint :: "ip_endpoint \<Rightarrow> socket_addr" where
  "from_smoltcp_endpoint ep = \<lparr>sa_ip = std_ip_of (ep_addr ep), sa_port = ep_port ep\<rparr>"

lemma endpoint_round_trip:
  "ep_addr ep = Ipv4Address v \<Longrightarrow> to_smoltcp_endpoint (from_smoltcp_endpoint ep) = Done ep"
  "to_smoltcp_endpoint a = Done ep \<Longrightarrow> from_smoltcp_endpoint ep = a"
  by (auto simp: to_smoltcp_endpoint_def from_smoltcp_endpoint_def std_ip_of_def split: std_ip.splits)

subsection \<open>Commands\<close>

datatype bridge_command = Connect ip_address u16 | ListenOn u16 | BindUdp u16

text \<open>
  What a command is answered with, besides an error, and the task that the worker spawns for it. The ends of the
  channels in an answer are those of \<open>bridge_start\<close>; a bound UDP socket knows its local address.
\<close>

datatype bridge_reply = StreamChannels | Listening | UdpBound socket_addr
datatype worker_task = RelayTask tcp_stream | AcceptLoop tcp_listener | UdpRelayTask udp_socket

type_synonym ('d, 'i, 'S) command_result =
  "((bridge_error + bridge_reply) \<times> worker_task option) \<times> ephemeral_ports \<times> ('d, 'i, 'S) reactor_inner"

text \<open>\<open>await\<close> is how \<open>wait_connected().await\<close> ends, while the reactor and the other tasks of the lcore run.\<close>

definition worker_connect ::
  "('S, 't, 'u, 'i, 'd, 'z) smol_scheme \<Rightarrow> (tcp_stream \<Rightarrow> ('d, 'i, 'S) reactor_inner \<Rightarrow> (unit + unit) \<times> ('d, 'i, 'S) reactor_inner)
     \<Rightarrow> ip_address \<Rightarrow> u16 \<Rightarrow> ephemeral_ports \<Rightarrow> ('d, 'i, 'S) reactor_inner \<Rightarrow> ('d, 'i, 'S) command_result outcome" where
  "worker_connect F await remote_addr remote_port ports R =
     (case EphemeralPorts_allocate ports of
        (local_port, ports) \<Rightarrow>
          (case TcpStream_connect F remote_addr remote_port local_port RX_BUF_SIZE TX_BUF_SIZE R of
             (Inl e, R) \<Rightarrow> Done ((Inl (BE_Connect e), None), ports, R)
           | (Inr stream, R) \<Rightarrow>
               (case await stream R of
                  (Inl _, R) \<Rightarrow> outcome_bind (TcpStream_drop F stream R) (\<lambda>R. Done ((Inl BE_ConnectionFailed, None), ports, R))
                | (Inr _, R) \<Rightarrow> Done ((Inr StreamChannels, Some (RelayTask stream)), ports, R))))"

definition worker_listen ::
  "('S, 't, 'u, 'i, 'd, 'z) smol_scheme \<Rightarrow> u16 \<Rightarrow> ephemeral_ports \<Rightarrow> ('d, 'i, 'S) reactor_inner \<Rightarrow> ('d, 'i, 'S) command_result" where
  "worker_listen F port ports R =
     (case TcpListener_bind F port RX_BUF_SIZE TX_BUF_SIZE R of
        (Inl e, R) \<Rightarrow> ((Inl (BE_Listen e), None), ports, R)
      | (Inr listener, R) \<Rightarrow> ((Inr Listening, Some (AcceptLoop listener)), ports, R))"

definition worker_bind_udp ::
  "('S, 't, 'u, 'i, 'd, 'z) smol_scheme \<Rightarrow> u16 \<Rightarrow> ephemeral_ports \<Rightarrow> ('d, 'i, 'S) reactor_inner \<Rightarrow> ('d, 'i, 'S) command_result" where
  "worker_bind_udp F port ports R =
     (case UdpSocket_bind F port UDP_RX_PACKETS UDP_TX_PACKETS UDP_MAX_PACKET_SIZE R of
        (Inl e, R) \<Rightarrow> ((Inl (BE_UdpBind e), None), ports, R)
      | (Inr socket, R) \<Rightarrow>
          (let local_ip = (case ReactorHandle_ip_addr F R of Some ip \<Rightarrow> ip | None \<Rightarrow> Ipv4Address (Ipv4 0 0 0 0))
           in ((Inr (UdpBound \<lparr>sa_ip = std_ip_of local_ip, sa_port = port\<rparr>), Some (UdpRelayTask socket)), ports, R)))"

text \<open>The loop over the commands, until the OS threads have dropped the channel.\<close>

primrec bridge_worker ::
  "('S, 't, 'u, 'i, 'd, 'z) smol_scheme \<Rightarrow> (tcp_stream \<Rightarrow> ('d, 'i, 'S) reactor_inner \<Rightarrow> (unit + unit) \<times> ('d, 'i, 'S) reactor_inner)
     \<Rightarrow> bridge_command list \<Rightarrow> ephemeral_ports \<Rightarrow> ('d, 'i, 'S) reactor_inner
     \<Rightarrow> (((bridge_error + bridge_reply) \<times> worker_task option) list \<times> ('d, 'i, 'S) reactor_inner) outcome" where
  "bridge_worker F await [] ports R = Done ([], R)"
| "bridge_worker F await (cmd # cmds) ports R =
     outcome_bind
       (case cmd of
          Connect remote_addr remote_port \<Rightarrow> worker_connect F await remote_addr remote_port ports R
        | ListenOn port \<Rightarrow> Done (worker_listen F port ports R)
        | BindUdp port \<Rightarrow> Done (worker_bind_udp F port ports R))
       (\<lambda>(r, ports, R). outcome_bind (bridge_worker F await cmds ports R) (\<lambda>(rs, R). Done (r # rs, R)))"

text \<open>Every command is answered once, and a task is spawned exactly for those that succeed.\<close>

lemma bridge_worker_answers:
  "bridge_worker F await cmds ports R = Done (rs, R') \<Longrightarrow>
     length rs = length cmds \<and> (\<forall>(r, t) \<in> set rs. isl r \<longleftrightarrow> t = None)"
proof (induction cmds arbitrary: ports R rs)
  case (Cons cmd cmds)
  from Cons.prems obtain r t ports1 R1 rs1 where
    step: "(case cmd of
          Connect remote_addr remote_port \<Rightarrow> worker_connect F await remote_addr remote_port ports R
        | ListenOn port \<Rightarrow> Done (worker_listen F port ports R)
        | BindUdp port \<Rightarrow> Done (worker_bind_udp F port ports R)) = Done ((r, t), ports1, R1)" and
    rest: "bridge_worker F await cmds ports1 R1 = Done (rs1, R')" "rs = (r, t) # rs1"
    by (cases cmd) (auto simp: outcome_bind_Done split: prod.splits)
  have "isl r \<longleftrightarrow> t = None" using step
    by (auto simp: worker_connect_def worker_listen_def worker_bind_udp_def Let_def outcome_bind_Done
        split: bridge_command.splits prod.splits sum.splits)
  then show ?case using Cons.IH [OF rest(1)] rest(2) by auto
qed simp

subsection \<open>The handle of OS threads\<close>

text \<open>
  \<open>send\<close> is how the awaited send on the chosen command channel ends and \<open>reply\<close> what comes back on the one-shot
  channel, nothing if the worker dropped its end.
\<close>

definition DpdkBridge_connect ::
  "'c worker_registry \<Rightarrow> ('c \<Rightarrow> bridge_command \<Rightarrow> unit + unit) \<Rightarrow> ('c \<Rightarrow> (bridge_error + bridge_reply) option)
     \<Rightarrow> ip_address \<Rightarrow> u16 \<Rightarrow> (bridge_error + bridge_tcp_stream) \<times> 'c worker_registry" where
  "DpdkBridge_connect rg send reply remote_addr remote_port =
     (case WorkerRegistry_select rg of
        (None, rg) \<Rightarrow> (Inl BE_Disconnected, rg)
      | (Some worker, rg) \<Rightarrow>
          (case send worker (Connect remote_addr remote_port) of
             Inl _ \<Rightarrow> (Inl BE_Disconnected, rg)
           | Inr _ \<Rightarrow>
               (case reply worker of
                  None \<Rightarrow> (Inl BE_Disconnected, rg)
                | Some (Inl e) \<Rightarrow> (Inl e, rg)
                | Some (Inr channels) \<Rightarrow> (Inr BridgeTcpStream_new, rg))))"

definition DpdkBridge_listen ::
  "'c worker_registry \<Rightarrow> ('c \<Rightarrow> bridge_command \<Rightarrow> unit + unit) \<Rightarrow> ('c \<Rightarrow> (bridge_error + bridge_reply) option)
     \<Rightarrow> u16 \<Rightarrow> (bridge_error + bridge_reply) \<times> 'c worker_registry" where
  "DpdkBridge_listen rg send reply port =
     (case WorkerRegistry_select rg of
        (None, rg) \<Rightarrow> (Inl BE_Disconnected, rg)
      | (Some worker, rg) \<Rightarrow>
          (case send worker (ListenOn port) of
             Inl _ \<Rightarrow> (Inl BE_Disconnected, rg)
           | Inr _ \<Rightarrow> (case reply worker of None \<Rightarrow> (Inl BE_Disconnected, rg) | Some r \<Rightarrow> (r, rg))))"

definition DpdkBridge_bind_udp ::
  "'c worker_registry \<Rightarrow> ('c \<Rightarrow> bridge_command \<Rightarrow> unit + unit) \<Rightarrow> ('c \<Rightarrow> (bridge_error + bridge_reply) option)
     \<Rightarrow> u16 \<Rightarrow> (bridge_error + bridge_reply) \<times> 'c worker_registry" where
  "DpdkBridge_bind_udp rg send reply port =
     (case WorkerRegistry_select rg of
        (None, rg) \<Rightarrow> (Inl BE_Disconnected, rg)
      | (Some worker, rg) \<Rightarrow>
          (case send worker (BindUdp port) of
             Inl _ \<Rightarrow> (Inl BE_Disconnected, rg)
           | Inr _ \<Rightarrow> (case reply worker of None \<Rightarrow> (Inl BE_Disconnected, rg) | Some r \<Rightarrow> (r, rg))))"

definition BridgeTcpListener_accept ::
  "('a, bridge_error + 'st, 'z) mpsc_scheme \<Rightarrow> 'a \<Rightarrow> (bridge_error + 'st) poll \<times> 'a" where
  "BridgeTcpListener_accept A q =
     (case mp_poll_recv A q of
        (Ready (Some r), q) \<Rightarrow> (Ready r, q)
      | (Ready None, q) \<Rightarrow> (Ready (Inl BE_Disconnected), q)
      | (Pending, q) \<Rightarrow> (Pending, q))"

text \<open>The accept loop, over the results of \<open>accept\<close>. \<open>send\<close> is the awaited send on the accept channel; the loop hands over the
  accepted streams to relay tasks, and ends with the stream for which nobody is there any more.\<close>

primrec accept_loop ::
  "('q \<Rightarrow> bridge_error + bridge_tcp_stream \<Rightarrow> (unit + unit) \<times> 'q) \<Rightarrow> (listen_error + tcp_stream) list \<Rightarrow> 'q
     \<Rightarrow> tcp_stream list \<times> tcp_stream option \<times> 'q" where
  "accept_loop send [] q = ([], None, q)"
| "accept_loop send (a # as) q =
     (case a of
        Inl e \<Rightarrow> (case send q (Inl (BE_Listen e)) of (_, q) \<Rightarrow> accept_loop send as q)
      | Inr stream \<Rightarrow>
          (case send q (Inr BridgeTcpStream_new) of
             (Inl _, q) \<Rightarrow> ([], Some stream, q)
           | (Inr _, q) \<Rightarrow> (case accept_loop send as q of (rs, d, q) \<Rightarrow> (stream # rs, d, q))))"

text \<open>An error of \<open>accept\<close> never ends the loop, not even when the receiver of the errors is gone.\<close>

lemma accept_errors_continue:
  "\<forall>a \<in> set as. isl a \<Longrightarrow> fst (accept_loop send as q) = [] \<and> fst (snd (accept_loop send as q)) = None"
  by (induction as arbitrary: q) (auto split: prod.splits sum.splits)

subsection \<open>Waiting for a worker\<close>

text \<open>
  \<open>Notify\<close> of tokio: \<open>nt_notified\<close> creates the future of \<open>notified()\<close>, \<open>nt_woken\<close> whether it is ready. An OS thread in \<open>wait_ready\<close> is about to look at
  the workers, has seen none, waits for the future, or has returned. An lcore in \<open>spawn\<close> has registered its
  channel and is about to call \<open>notify_waiters\<close>, \<open>ws_spawning\<close> counts them.
\<close>

record ('n, 'k) notify =
  nt_new :: 'n
  nt_notified :: "'n \<Rightarrow> 'k \<times> 'n"
  nt_notify_waiters :: "'n \<Rightarrow> 'n"
  nt_woken :: "'k \<Rightarrow> 'n \<Rightarrow> bool"

datatype 'k waiter = Looking | SawNone | Awaiting 'k | Returned

record ('c, 'n, 'k) wait_sys =
  ws_registry :: "'c worker_registry"
  ws_ready :: 'n
  ws_waiter :: "'k waiter"
  ws_spawning :: nat

inductive os_step :: "('n, 'k, 'z) notify_scheme \<Rightarrow> ('c, 'n, 'k) wait_sys \<Rightarrow> ('c, 'n, 'k) wait_sys \<Rightarrow> bool" for N where
  look: "os_step N x (x\<lparr>ws_waiter := (if rg_workers (ws_registry x) \<noteq> [] then Returned else SawNone)\<rparr>)"
    if "ws_waiter x = Looking"
| notified: "os_step N x (x\<lparr>ws_waiter := Awaiting k, ws_ready := n\<rparr>)"
    if "ws_waiter x = SawNone" "nt_notified N (ws_ready x) = (k, n)"
| woken: "os_step N x (x\<lparr>ws_waiter := Looking\<rparr>)"
    if "ws_waiter x = Awaiting k" "nt_woken N k (ws_ready x)"

inductive lcore_step :: "('n, 'k, 'z) notify_scheme \<Rightarrow> ('c, 'n, 'k) wait_sys \<Rightarrow> ('c, 'n, 'k) wait_sys \<Rightarrow> bool" for N where
  register: "lcore_step N x (x\<lparr>ws_registry := BridgeWorkers_spawn cmd_tx (ws_registry x), ws_spawning := Suc (ws_spawning x)\<rparr>)"
| announce: "lcore_step N x (x\<lparr>ws_ready := nt_notify_waiters N (ws_ready x), ws_spawning := ws_spawning x - 1\<rparr>)"
    if "0 < ws_spawning x"

definition wait_start :: "('n, 'k, 'z) notify_scheme \<Rightarrow> ('c, 'n, 'k) wait_sys" where
  "wait_start N = \<lparr>ws_registry = WorkerRegistry_new, ws_ready = nt_new N, ws_waiter = Looking, ws_spawning = 0\<rparr>"

abbreviation wait_step :: "('n, 'k, 'z) notify_scheme \<Rightarrow> ('c, 'n, 'k) wait_sys \<Rightarrow> ('c, 'n, 'k) wait_sys \<Rightarrow> bool" where
  "wait_step N x y \<equiv> os_step N x y \<or> lcore_step N x y"

lemma wait_ready_sound:
  assumes "(wait_step N)\<^sup>*\<^sup>* (wait_start N) x" and "ws_waiter x = Returned"
  shows "rg_workers (ws_registry x) \<noteq> []"
proof -
  have "ws_waiter x = Returned \<longrightarrow> rg_workers (ws_registry x) \<noteq> []" using assms(1)
    by (induction rule: rtranclp_induct)
      (auto simp: wait_start_def BridgeWorkers_spawn_def elim!: os_step.cases lcore_step.cases split: if_splits)
  with assms(2) show ?thesis by blast
qed

lemma not_woken_stuck:
  assumes "(os_step N)\<^sup>*\<^sup>* x y" and "ws_waiter x = Awaiting k" and "\<not> nt_woken N k (ws_ready x)"
  shows "y = x"
  using assms by (induction rule: rtranclp_induct) (auto elim: os_step.cases)

text \<open>
  C37. \<open>DpdkBridge::wait_ready\<close> can miss the only worker. The thread sees no worker; the worker registers and notifies the
  waiters; then the thread creates its \<open>notified()\<close> future, which that notification does not reach. The worker is
  registered, no lcore is in \<open>spawn\<close> any more, and the thread waits for ever unless one more worker registers.
\<close>

theorem wait_ready_lost_wakeup:
  fixes N :: "('n, 'k, 'z) notify_scheme" and cmd_tx :: 'c
  assumes "\<And>n k n'. nt_notified N n = (k, n') \<Longrightarrow> \<not> nt_woken N k n'"
  shows "\<exists>x. (wait_step N)\<^sup>*\<^sup>* (wait_start N) x \<and> rg_workers (ws_registry x) = [cmd_tx] \<and> ws_spawning x = 0
    \<and> (\<forall>y. (os_step N)\<^sup>*\<^sup>* x y \<longrightarrow> ws_waiter y \<noteq> Returned)"
proof -
  let ?a = "wait_start N :: ('c, 'n, 'k) wait_sys"
  let ?b = "?a\<lparr>ws_waiter := SawNone\<rparr>"
  let ?c = "?b\<lparr>ws_registry := BridgeWorkers_spawn cmd_tx WorkerRegistry_new, ws_spawning := 1\<rparr>"
  let ?d = "?c\<lparr>ws_ready := nt_notify_waiters N (nt_new N), ws_spawning := 0\<rparr>"
  obtain k n where k: "nt_notified N (nt_notify_waiters N (nt_new N)) = (k, n)" by fastforce
  let ?x = "?d\<lparr>ws_waiter := Awaiting k, ws_ready := n\<rparr>"
  have 1: "os_step N ?a ?b" using os_step.look [of ?a N] by (simp add: wait_start_def WorkerRegistry_new_def)
  have 2: "lcore_step N ?b ?c" using lcore_step.register [of N ?b cmd_tx] by (simp add: wait_start_def)
  have 3: "lcore_step N ?c ?d" using lcore_step.announce [of ?c N] by (simp add: wait_start_def)
  have 4: "os_step N ?d ?x" using os_step.notified [of ?d N k n] k by simp
  have "(wait_step N)\<^sup>*\<^sup>* ?a ?x"
    using 1 2 3 4 by (intro converse_rtranclp_into_rtranclp [of "wait_step N" ?a ?b] converse_rtranclp_into_rtranclp [of "wait_step N" ?b ?c]
      converse_rtranclp_into_rtranclp [of "wait_step N" ?c ?d] r_into_rtranclp [of "wait_step N" ?d]) blast+
  moreover have "\<forall>y. (os_step N)\<^sup>*\<^sup>* ?x y \<longrightarrow> ws_waiter y \<noteq> Returned"
  proof (intro allI impI)
    fix y
    assume "(os_step N)\<^sup>*\<^sup>* ?x y"
    then have "y = ?x" using assms [OF k] by (intro not_woken_stuck [where k = k]) simp_all
    then show "ws_waiter y \<noteq> Returned" by simp
  qed
  ultimately show ?thesis by (intro exI [of _ ?x]) (simp add: BridgeWorkers_spawn_def WorkerRegistry_new_def)
qed

text \<open>A \<open>Notify\<close> that counts the calls of \<open>notify_waiters\<close>, of which a future remembers those before its creation.\<close>

definition count_notify :: "(nat, nat) notify" where
  "count_notify = \<lparr>nt_new = 0, nt_notified = (\<lambda>n. (n, n)), nt_notify_waiters = Suc, nt_woken = (\<lambda>k n. k < n)\<rparr>"

theorem wait_ready_lost_wakeup_witness:
  "\<exists>x. (wait_step count_notify)\<^sup>*\<^sup>* (wait_start count_notify) x \<and> rg_workers (ws_registry x) = [5 :: nat] \<and> ws_spawning x = 0
    \<and> (\<forall>y. (os_step count_notify)\<^sup>*\<^sup>* x y \<longrightarrow> ws_waiter y \<noteq> Returned)"
  by (rule wait_ready_lost_wakeup) (simp add: count_notify_def)

end
