(* ===== verification/Bridge_Udp.thy ===== *)
theory Bridge_Udp
  imports Bridge_Worker
begin

section \<open>Bridged UDP sockets (dpdk-net-util, bridge/udp.rs and udp\_relay\_task of bridge/worker.rs)\<close>

text \<open>
  A UDP socket of OS threads, the task on an lcore that owns the UDP socket behind it, and the two channels of
  datagrams between them.
\<close>

subsection \<open>BridgeUdpSocket\<close>

record udp_datagram =
  dg_payload :: "u8 list"
  dg_addr :: socket_addr

text \<open>
  The ends of the channels that the socket owns are passed along. The three mutexes are taken by one call at a time;
  a flag is set while a suspended call holds the mutex. \<open>get_ref\<close> of a \<open>PollSender\<close> is none when it was closed.
\<close>

record bridge_udp_socket =
  bu_tx_locked :: bool
  bu_rx_locked :: bool
  bu_peeked :: "udp_datagram option"
  bu_local_addr :: socket_addr
  bu_peer_addr :: "socket_addr option"
  bu_peer_locked :: bool

record ('c, 'a) poll_sender = "('c, 'a) mpsc" +
  ps_get_ref :: "'c \<Rightarrow> bool"

definition BridgeUdpSocket_new :: "socket_addr \<Rightarrow> bridge_udp_socket" where
  "BridgeUdpSocket_new local_addr =
     \<lparr>bu_tx_locked = False, bu_rx_locked = False, bu_peeked = None, bu_local_addr = local_addr, bu_peer_addr = None, bu_peer_locked = False\<rparr>"

definition broken_pipe :: io_error where
  "broken_pipe = IoError BrokenPipe ''lcore relay task exited''"

definition connection_reset :: io_error where
  "connection_reset = IoError ConnectionReset ''lcore relay task exited''"

definition would_block :: io_error where
  "would_block = IoError WouldBlock ''operation would block''"

definition not_connected :: io_error where
  "not_connected = IoError NotConnected ''not connected''"

text \<open>
  One poll of the future of \<open>send_to\<close>; \<open>holds\<close> is whether it has the mutex already, which it keeps over a suspension in the send.
\<close>

definition BridgeUdpSocket_send_to ::
  "('c, udp_datagram, 'z) poll_sender_scheme \<Rightarrow> u8 list \<Rightarrow> socket_addr \<Rightarrow> bool \<Rightarrow> bridge_udp_socket \<Rightarrow> 'c
     \<Rightarrow> (io_error + nat) poll \<times> bool \<times> bridge_udp_socket \<times> 'c" where
  "BridgeUdpSocket_send_to C buf target holds sk c =
     (if \<not> holds \<and> bu_tx_locked sk then (Pending, False, sk, c)
      else if \<not> holds \<and> \<not> ps_get_ref C c then (Ready (Inl broken_pipe), False, sk, c)
      else (case mp_poll_send C \<lparr>dg_payload = buf, dg_addr = target\<rparr> c of
              (Pending, c) \<Rightarrow> (Pending, True, sk\<lparr>bu_tx_locked := True\<rparr>, c)
            | (Ready (Inl _), c) \<Rightarrow> (Ready (Inl broken_pipe), False, sk\<lparr>bu_tx_locked := False\<rparr>, c)
            | (Ready (Inr _), c) \<Rightarrow> (Ready (Inr (length buf)), False, sk\<lparr>bu_tx_locked := False\<rparr>, c)))"

text \<open>What a datagram leaves in a buffer of the given length.\<close>

definition udp_copy :: "nat \<Rightarrow> udp_datagram \<Rightarrow> u8 list \<times> socket_addr" where
  "udp_copy buf_len dg = (let n = min buf_len (length (dg_payload dg)) in (take n (dg_payload dg), dg_addr dg))"

definition BridgeUdpSocket_recv_from ::
  "('o, udp_datagram, 'z) mpsc_scheme \<Rightarrow> nat \<Rightarrow> bool \<Rightarrow> bridge_udp_socket \<Rightarrow> 'o
     \<Rightarrow> (io_error + u8 list \<times> socket_addr) poll \<times> bool \<times> bridge_udp_socket \<times> 'o" where
  "BridgeUdpSocket_recv_from Q buf_len holds sk q =
     (if \<not> holds \<and> bu_rx_locked sk then (Pending, False, sk, q)
      else (case (holds, bu_peeked sk) of
              (False, Some dg) \<Rightarrow> (Ready (Inr (udp_copy buf_len dg)), False, sk\<lparr>bu_peeked := None\<rparr>, q)
            | _ \<Rightarrow>
                (case mp_poll_recv Q q of
                   (Pending, q) \<Rightarrow> (Pending, True, sk\<lparr>bu_rx_locked := True\<rparr>, q)
                 | (Ready None, q) \<Rightarrow> (Ready (Inl connection_reset), False, sk\<lparr>bu_rx_locked := False\<rparr>, q)
                 | (Ready (Some dg), q) \<Rightarrow> (Ready (Inr (udp_copy buf_len dg)), False, sk\<lparr>bu_rx_locked := False\<rparr>, q))))"

definition BridgeUdpSocket_try_send_to ::
  "('c, udp_datagram, 'z) poll_sender_scheme \<Rightarrow> u8 list \<Rightarrow> socket_addr \<Rightarrow> bridge_udp_socket \<Rightarrow> 'c \<Rightarrow> (io_error + nat) \<times> 'c" where
  "BridgeUdpSocket_try_send_to C buf target sk c =
     (if bu_tx_locked sk then (Inl would_block, c)
      else if \<not> ps_get_ref C c then (Inl broken_pipe, c)
      else (case mp_try_send C \<lparr>dg_payload = buf, dg_addr = target\<rparr> c of
              (Inl Full, c) \<Rightarrow> (Inl would_block, c)
            | (Inl SendClosed, c) \<Rightarrow> (Inl broken_pipe, c)
            | (Inr _, c) \<Rightarrow> (Inr (length buf), c)))"

definition BridgeUdpSocket_try_recv_from ::
  "('o, udp_datagram, 'z) mpsc_scheme \<Rightarrow> nat \<Rightarrow> bridge_udp_socket \<Rightarrow> 'o
     \<Rightarrow> (io_error + u8 list \<times> socket_addr) \<times> bridge_udp_socket \<times> 'o" where
  "BridgeUdpSocket_try_recv_from Q buf_len sk q =
     (if bu_rx_locked sk then (Inl would_block, sk, q)
      else (case bu_peeked sk of
              Some dg \<Rightarrow> (Inr (udp_copy buf_len dg), sk\<lparr>bu_peeked := None\<rparr>, q)
            | None \<Rightarrow>
                (case mp_try_recv Q q of
                   (Inl Empty, q) \<Rightarrow> (Inl would_block, sk, q)
                 | (Inl Disconnected, q) \<Rightarrow> (Inl connection_reset, sk, q)
                 | (Inr dg, q) \<Rightarrow> (Inr (udp_copy buf_len dg), sk, q))))"

definition BridgeUdpSocket_poll_send_to ::
  "('c, udp_datagram, 'z) poll_sender_scheme \<Rightarrow> u8 list \<Rightarrow> socket_addr \<Rightarrow> bridge_udp_socket \<Rightarrow> 'c \<Rightarrow> (io_error + nat) poll \<times> 'c" where
  "BridgeUdpSocket_poll_send_to C buf target sk c =
     (if bu_tx_locked sk then (Pending, c)
      else (case mp_poll_reserve C c of
              (Ready (Inr _), c) \<Rightarrow>
                (case mp_send_item C \<lparr>dg_payload = buf, dg_addr = target\<rparr> c of
                   (Inl _, c) \<Rightarrow> (Ready (Inl broken_pipe), c)
                 | (Inr _, c) \<Rightarrow> (Ready (Inr (length buf)), c))
            | (Ready (Inl _), c) \<Rightarrow> (Ready (Inl broken_pipe), c)
            | (Pending, c) \<Rightarrow> (Pending, c)))"

text \<open>\<open>buf_len\<close> is what remains of the buffer.\<close>

definition BridgeUdpSocket_poll_recv_from ::
  "('o, udp_datagram, 'z) mpsc_scheme \<Rightarrow> nat \<Rightarrow> bridge_udp_socket \<Rightarrow> 'o
     \<Rightarrow> (io_error + u8 list \<times> socket_addr) poll \<times> bridge_udp_socket \<times> 'o" where
  "BridgeUdpSocket_poll_recv_from Q buf_len sk q =
     (if bu_rx_locked sk then (Pending, sk, q)
      else (case bu_peeked sk of
              Some dg \<Rightarrow> (Ready (Inr (udp_copy buf_len dg)), sk\<lparr>bu_peeked := None\<rparr>, q)
            | None \<Rightarrow>
                (case mp_poll_recv Q q of
                   (Ready (Some dg), q) \<Rightarrow> (Ready (Inr (udp_copy buf_len dg)), sk, q)
                 | (Ready None, q) \<Rightarrow> (Ready (Inl connection_reset), sk, q)
                 | (Pending, q) \<Rightarrow> (Pending, sk, q))))"

definition BridgeUdpSocket_poll_send_ready ::
  "('c, udp_datagram, 'z) poll_sender_scheme \<Rightarrow> bridge_udp_socket \<Rightarrow> 'c \<Rightarrow> (io_error + unit) poll \<times> 'c" where
  "BridgeUdpSocket_poll_send_ready C sk c =
     (if bu_tx_locked sk then (Pending, c)
      else (case mp_poll_reserve C c of
              (Ready (Inr _), c) \<Rightarrow> (Ready (Inr ()), mp_abort_send C c)
            | (Ready (Inl _), c) \<Rightarrow> (Ready (Inl broken_pipe), c)
            | (Pending, c) \<Rightarrow> (Pending, c)))"

definition BridgeUdpSocket_poll_recv_ready ::
  "('o, udp_datagram, 'z) mpsc_scheme \<Rightarrow> bridge_udp_socket \<Rightarrow> 'o \<Rightarrow> (io_error + unit) poll \<times> bridge_udp_socket \<times> 'o" where
  "BridgeUdpSocket_poll_recv_ready Q sk q =
     (if bu_rx_locked sk then (Pending, sk, q)
      else if bu_peeked sk \<noteq> None then (Ready (Inr ()), sk, q)
      else (case mp_poll_recv Q q of
              (Ready (Some dg), q) \<Rightarrow> (Ready (Inr ()), sk\<lparr>bu_peeked := Some dg\<rparr>, q)
            | (Ready None, q) \<Rightarrow> (Ready (Inl connection_reset), sk, q)
            | (Pending, q) \<Rightarrow> (Pending, sk, q)))"

subsection \<open>Connected mode\<close>

definition BridgeUdpSocket_connect :: "socket_addr \<Rightarrow> bridge_udp_socket \<Rightarrow> (io_error + unit) poll \<times> bridge_udp_socket" where
  "BridgeUdpSocket_connect addr sk =
     (if bu_peer_locked sk then (Pending, sk) else (Ready (Inr ()), sk\<lparr>bu_peer_addr := Some addr\<rparr>))"

text \<open>
  One poll of the future of \<open>send\<close>: it is still to take the mutex of the peer, or it has it, up to its end, and polls its
  \<open>send_to\<close>.
\<close>

datatype udp_send_fut = SendStart | SendPeer socket_addr bool

definition BridgeUdpSocket_send ::
  "('c, udp_datagram, 'z) poll_sender_scheme \<Rightarrow> u8 list \<Rightarrow> udp_send_fut \<Rightarrow> bridge_udp_socket \<Rightarrow> 'c
     \<Rightarrow> (io_error + nat) poll \<times> udp_send_fut \<times> bridge_udp_socket \<times> 'c" where
  "BridgeUdpSocket_send C buf fut sk c =
     (let sending = (\<lambda>addr holds sk.
            (case BridgeUdpSocket_send_to C buf addr holds sk c of
               (Pending, holds, sk, c) \<Rightarrow> (Pending, SendPeer addr holds, sk, c)
             | (Ready r, holds, sk, c) \<Rightarrow> (Ready r, SendStart, sk\<lparr>bu_peer_locked := False\<rparr>, c)))
      in case fut of
           SendStart \<Rightarrow>
             (if bu_peer_locked sk then (Pending, SendStart, sk, c)
              else (case bu_peer_addr sk of
                      None \<Rightarrow> (Ready (Inl not_connected), SendStart, sk, c)
                    | Some addr \<Rightarrow> sending addr False (sk\<lparr>bu_peer_locked := True\<rparr>)))
         | SendPeer addr holds \<Rightarrow> sending addr holds sk)"

definition BridgeUdpSocket_recv ::
  "('o, udp_datagram, 'z) mpsc_scheme \<Rightarrow> nat \<Rightarrow> bool \<Rightarrow> bridge_udp_socket \<Rightarrow> 'o
     \<Rightarrow> (io_error + u8 list) poll \<times> bool \<times> bridge_udp_socket \<times> 'o" where
  "BridgeUdpSocket_recv Q buf_len holds sk q =
     (case BridgeUdpSocket_recv_from Q buf_len holds sk q of
        (Ready (Inr (bs, _)), h, sk, q) \<Rightarrow> (Ready (Inr bs), h, sk, q)
      | (Ready (Inl e), h, sk, q) \<Rightarrow> (Ready (Inl e), h, sk, q)
      | (Pending, h, sk, q) \<Rightarrow> (Pending, h, sk, q))"

definition BridgeUdpSocket_poll_send ::
  "('c, udp_datagram, 'z) poll_sender_scheme \<Rightarrow> u8 list \<Rightarrow> bridge_udp_socket \<Rightarrow> 'c \<Rightarrow> (io_error + nat) poll \<times> 'c" where
  "BridgeUdpSocket_poll_send C buf sk c =
     (if bu_peer_locked sk then (Pending, c)
      else (case bu_peer_addr sk of
              Some addr \<Rightarrow> BridgeUdpSocket_poll_send_to C buf addr sk c
            | None \<Rightarrow> (Ready (Inl not_connected), c)))"

definition BridgeUdpSocket_poll_recv ::
  "('o, udp_datagram, 'z) mpsc_scheme \<Rightarrow> nat \<Rightarrow> bridge_udp_socket \<Rightarrow> 'o
     \<Rightarrow> (io_error + u8 list) poll \<times> bridge_udp_socket \<times> 'o" where
  "BridgeUdpSocket_poll_recv Q buf_len sk q =
     (case BridgeUdpSocket_poll_recv_from Q buf_len sk q of
        (Ready (Inr (bs, _)), sk, q) \<Rightarrow> (Ready (Inr bs), sk, q)
      | (Ready (Inl e), sk, q) \<Rightarrow> (Ready (Inl e), sk, q)
      | (Pending, sk, q) \<Rightarrow> (Pending, sk, q))"

definition BridgeUdpSocket_local_addr :: "bridge_udp_socket \<Rightarrow> io_error + socket_addr" where
  "BridgeUdpSocket_local_addr sk = Inr (bu_local_addr sk)"

definition BridgeUdpSocket_peer_addr :: "bridge_udp_socket \<Rightarrow> io_error + socket_addr" where
  "BridgeUdpSocket_peer_addr sk =
     (if bu_peer_locked sk then Inl (IoError WouldBlock ''lock contention'')
      else (case bu_peer_addr sk of Some a \<Rightarrow> Inr a | None \<Rightarrow> Inl not_connected))"

subsection \<open>udp\_relay\_task\<close>

text \<open>
  Where the task is: in \<open>select!\<close>; sending a datagram; after the loop; unwinding after a panic; and gone, its locals dropped.
\<close>

datatype udp_relay_state = UdpSelecting | UdpSending "u8 list" ip_endpoint | UdpFinished | UdpUnwinding string | UdpGone

definition udp_relay_egress :: "('c, udp_datagram, 'z) mpsc_scheme \<Rightarrow> 'c \<Rightarrow> udp_relay_state \<times> 'c" where
  "udp_relay_egress C c =
     (case mp_poll_recv C c of
        (Pending, c) \<Rightarrow> (UdpSelecting, c)
      | (Ready None, c) \<Rightarrow> (UdpFinished, c)
      | (Ready (Some dg), c) \<Rightarrow>
          (case to_smoltcp_endpoint (dg_addr dg) of
             Done endpoint \<Rightarrow> (UdpSending (dg_payload dg) endpoint, c)
           | Panic m \<Rightarrow> (UdpUnwinding m, c)))"

definition udp_relay_send ::
  "('S, 't, 'u, 'i, 'd, 'z) smol_scheme \<Rightarrow> udp_socket \<Rightarrow> waker \<Rightarrow> u8 list \<Rightarrow> ip_endpoint \<Rightarrow> ('d, 'i, 'S) reactor_inner
     \<Rightarrow> (udp_relay_state \<times> (udp_send_error + nat) poll \<times> ('d, 'i, 'S) reactor_inner) outcome" where
  "udp_relay_send F s cx payload endpoint R =
     outcome_bind (UdpSendFuture_poll F s payload endpoint cx R) (\<lambda>(r, R).
       Done (case r of Pending \<Rightarrow> UdpSending payload endpoint | Ready _ \<Rightarrow> UdpSelecting, r, R))"

text \<open>The result has the datagram that was received, if one was, and whether the channel took it.\<close>

definition udp_relay_ingress ::
  "('S, 't, 'u, 'i, 'd, 'z) smol_scheme \<Rightarrow> ('o, udp_datagram, 'y) mpsc_scheme \<Rightarrow> udp_socket \<Rightarrow> waker \<Rightarrow> 'o \<Rightarrow> ('d, 'i, 'S) reactor_inner
     \<Rightarrow> ((udp_datagram \<times> bool) option \<times> 'o \<times> ('d, 'i, 'S) reactor_inner) outcome" where
  "udp_relay_ingress F Q s cx q R =
     outcome_bind (UdpRecvFuture_poll F s UDP_MAX_PACKET_SIZE cx R) (\<lambda>(r, R).
       case r of
         Ready (Inr (bs, endpoint)) \<Rightarrow>
           (let dg = \<lparr>dg_payload = bs, dg_addr = from_smoltcp_endpoint endpoint\<rparr>
            in case mp_try_send Q dg q of (t, q) \<Rightarrow> Done (Some (dg, \<not> isl t), q, R))
       | Ready (Inl _) \<Rightarrow> Done (None, q, R)
       | Pending \<Rightarrow> Done (None, q, R))"

subsection \<open>A bridged socket\<close>

text \<open>
  The two sides. The last six fields are a record of the run: the datagrams that sends of the OS threads accepted,
  those that the task took from the queue and those that the UDP socket accepted from it; the datagrams that the
  task received, those that it could pass on, and what receives of the OS threads returned.
\<close>

record ('d, 'i, 'S, 'c, 'o) udp_conn =
  ub_reactor :: "('d, 'i, 'S) reactor_inner"
  ub_to_lcore :: 'c
  ub_to_os :: 'o
  ub_relay :: udp_relay_state
  ub_sock :: "bridge_udp_socket option"
  ub_accepted :: "udp_datagram list"
  ub_tried :: "udp_datagram list"
  ub_sent :: "(u8 list \<times> ip_endpoint) list"
  ub_got :: "udp_datagram list"
  ub_passed :: "udp_datagram list"
  ub_delivered :: "(u8 list \<times> socket_addr) list"

definition accepted_dg :: "u8 list \<Rightarrow> socket_addr \<Rightarrow> (io_error + nat) poll \<Rightarrow> udp_datagram list" where
  "accepted_dg buf target r = (case r of Ready (Inr _) \<Rightarrow> [\<lparr>dg_payload = buf, dg_addr = target\<rparr>] | _ \<Rightarrow> [])"

definition delivered_dg :: "(io_error + 'a) poll \<Rightarrow> 'a list" where
  "delivered_dg r = (case r of Ready (Inr x) \<Rightarrow> [x] | _ \<Rightarrow> [])"

definition sent_dg :: "u8 list \<Rightarrow> ip_endpoint \<Rightarrow> (udp_send_error + nat) poll \<Rightarrow> (u8 list \<times> ip_endpoint) list" where
  "sent_dg payload endpoint r = (case r of Ready (Inr _) \<Rightarrow> [(payload, endpoint)] | _ \<Rightarrow> [])"

definition taken_dg :: "udp_relay_state \<Rightarrow> udp_datagram list" where
  "taken_dg r = (case r of UdpSending bs ep \<Rightarrow> [\<lparr>dg_payload = bs, dg_addr = from_smoltcp_endpoint ep\<rparr>] | _ \<Rightarrow> [])"

text \<open>
  A receive that has the mutex has it alone. Otherwise \<open>holds\<close> and the futures of \<open>send\<close> may be anything: this allows more than
  what the threads can do. A future may be dropped, which releases its mutexes.
\<close>

inductive udp_step ::
  "('S, 't, 'u, 'i, 'd, 'z) smol_scheme \<Rightarrow> ('c, udp_datagram, 'x) poll_sender_scheme \<Rightarrow> ('o, udp_datagram, 'y) mpsc_scheme
     \<Rightarrow> ('u \<Rightarrow> (u8 list \<times> ip_endpoint) list) \<Rightarrow> udp_socket
     \<Rightarrow> ('d, 'i, 'S, 'c, 'o) udp_conn \<Rightarrow> ('d, 'i, 'S, 'c, 'o) udp_conn \<Rightarrow> bool"
  for F C Q dsent s where
  send_to: "udp_step F C Q dsent s x
      (x\<lparr>ub_sock := Some sk', ub_to_lcore := c', ub_accepted := ub_accepted x @ accepted_dg buf target r\<rparr>)"
    if "ub_sock x = Some sk" "BridgeUdpSocket_send_to C buf target holds sk (ub_to_lcore x) = (r, holds', sk', c')"
| send: "udp_step F C Q dsent s x
      (x\<lparr>ub_sock := Some sk', ub_to_lcore := c', ub_accepted := ub_accepted x @ accepted_dg buf (the (bu_peer_addr sk)) r\<rparr>)"
    if "ub_sock x = Some sk" "BridgeUdpSocket_send C buf SendStart sk (ub_to_lcore x) = (r, fut', sk', c')"
| send_on: "udp_step F C Q dsent s x
      (x\<lparr>ub_sock := Some sk', ub_to_lcore := c', ub_accepted := ub_accepted x @ accepted_dg buf addr r\<rparr>)"
    if "ub_sock x = Some sk" "BridgeUdpSocket_send C buf (SendPeer addr holds) sk (ub_to_lcore x) = (r, fut', sk', c')"
| try_send_to: "udp_step F C Q dsent s x (x\<lparr>ub_to_lcore := c', ub_accepted := ub_accepted x @ accepted_dg buf target (Ready r)\<rparr>)"
    if "ub_sock x = Some sk" "BridgeUdpSocket_try_send_to C buf target sk (ub_to_lcore x) = (r, c')"
| poll_send_to: "udp_step F C Q dsent s x (x\<lparr>ub_to_lcore := c', ub_accepted := ub_accepted x @ accepted_dg buf target r\<rparr>)"
    if "ub_sock x = Some sk" "BridgeUdpSocket_poll_send_to C buf target sk (ub_to_lcore x) = (r, c')"
| poll_send_ready: "udp_step F C Q dsent s x (x\<lparr>ub_to_lcore := c'\<rparr>)"
    if "ub_sock x = Some sk" "BridgeUdpSocket_poll_send_ready C sk (ub_to_lcore x) = (r', c')"
| recv_from: "udp_step F C Q dsent s x
      (x\<lparr>ub_sock := Some sk', ub_to_os := q', ub_delivered := ub_delivered x @ delivered_dg d\<rparr>)"
    if "ub_sock x = Some sk" "holds \<longrightarrow> bu_rx_locked sk" "BridgeUdpSocket_recv_from Q n holds sk (ub_to_os x) = (d, holds', sk', q')"
| try_recv_from: "udp_step F C Q dsent s x
      (x\<lparr>ub_sock := Some sk', ub_to_os := q', ub_delivered := ub_delivered x @ delivered_dg (Ready d')\<rparr>)"
    if "ub_sock x = Some sk" "BridgeUdpSocket_try_recv_from Q n sk (ub_to_os x) = (d', sk', q')"
| poll_recv_from: "udp_step F C Q dsent s x
      (x\<lparr>ub_sock := Some sk', ub_to_os := q', ub_delivered := ub_delivered x @ delivered_dg d\<rparr>)"
    if "ub_sock x = Some sk" "BridgeUdpSocket_poll_recv_from Q n sk (ub_to_os x) = (d, sk', q')"
| poll_recv_ready: "udp_step F C Q dsent s x (x\<lparr>ub_sock := Some sk', ub_to_os := q'\<rparr>)"
    if "ub_sock x = Some sk" "BridgeUdpSocket_poll_recv_ready Q sk (ub_to_os x) = (r', sk', q')"
| connect: "udp_step F C Q dsent s x (x\<lparr>ub_sock := Some sk'\<rparr>)"
    if "ub_sock x = Some sk" "BridgeUdpSocket_connect target sk = (r', sk')"
| cancel: "udp_step F C Q dsent s x (x\<lparr>ub_sock := Some (sk\<lparr>bu_tx_locked := t \<and> bu_tx_locked sk,
        bu_rx_locked := u \<and> bu_rx_locked sk, bu_peer_locked := v \<and> bu_peer_locked sk\<rparr>)\<rparr>)"
    if "ub_sock x = Some sk"
| os_drop: "udp_step F C Q dsent s x
      (x\<lparr>ub_sock := None, ub_to_lcore := mp_drop_tx C (ub_to_lcore x), ub_to_os := mp_drop_rx Q (ub_to_os x)\<rparr>)"
    if "ub_sock x \<noteq> None"
| egress: "udp_step F C Q dsent s x (x\<lparr>ub_relay := rs, ub_to_lcore := c', ub_tried := ub_tried x @ taken_dg rs\<rparr>)"
    if "ub_relay x = UdpSelecting" "udp_relay_egress C (ub_to_lcore x) = (rs, c')"
| sending: "udp_step F C Q dsent s x (x\<lparr>ub_relay := rs, ub_reactor := R', ub_sent := ub_sent x @ sent_dg payload endpoint p\<rparr>)"
    if "ub_relay x = UdpSending payload endpoint" "udp_relay_send F s cx payload endpoint (ub_reactor x) = Done (rs, p, R')"
| ingress: "udp_step F C Q dsent s x (x\<lparr>ub_to_os := q', ub_reactor := R',
        ub_got := ub_got x @ (case m of Some (dg, _) \<Rightarrow> [dg] | None \<Rightarrow> []),
        ub_passed := ub_passed x @ (case m of Some (dg, True) \<Rightarrow> [dg] | _ \<Rightarrow> [])\<rparr>)"
    if "ub_relay x = UdpSelecting" "udp_relay_ingress F Q s cx (ub_to_os x) (ub_reactor x) = Done (m, q', R')"
| leave: "udp_step F C Q dsent s x
      (x\<lparr>ub_relay := UdpGone, ub_reactor := R', ub_to_lcore := mp_drop_rx C (ub_to_lcore x), ub_to_os := mp_drop_tx Q (ub_to_os x)\<rparr>)"
    if "ub_relay x = UdpFinished \<or> (\<exists>m. ub_relay x = UdpUnwinding m)" "UdpSocket_drop F s (ub_reactor x) = Done R'"
| others: "udp_step F C Q dsent s x (x\<lparr>ub_reactor := R'\<rparr>)"
    if "udp_view F dsent R' (us_handle s) = udp_view F dsent (ub_reactor x) (us_handle s)"

definition udp_start :: "('c, udp_datagram, 'x) poll_sender_scheme \<Rightarrow> ('o, udp_datagram, 'y) mpsc_scheme \<Rightarrow> socket_addr
     \<Rightarrow> ('d, 'i, 'S) reactor_inner \<Rightarrow> ('d, 'i, 'S, 'c, 'o) udp_conn" where
  "udp_start C Q local_addr R = \<lparr>ub_reactor = R, ub_to_lcore = mp_new C UDP_CHANNEL_SIZE, ub_to_os = mp_new Q UDP_CHANNEL_SIZE,
     ub_relay = UdpSelecting, ub_sock = Some (BridgeUdpSocket_new local_addr),
     ub_accepted = [], ub_tried = [], ub_sent = [], ub_got = [], ub_passed = [], ub_delivered = []\<rparr>"

subsection \<open>The datagrams of a bridged socket\<close>

definition of_wire :: "u8 list \<times> ip_endpoint \<Rightarrow> udp_datagram" where
  "of_wire p = \<lparr>dg_payload = fst p, dg_addr = from_smoltcp_endpoint (snd p)\<rparr>"

text \<open>A receive returns the first bytes of a datagram, as many as the buffer holds, and its address.\<close>

definition read_of :: "u8 list \<times> socket_addr \<Rightarrow> udp_datagram \<Rightarrow> bool" where
  "read_of r dg \<longleftrightarrow> prefix (fst r) (dg_payload dg) \<and> snd r = dg_addr dg"

lemma read_of_copy [simp]: "read_of (udp_copy n dg) dg"
  by (simp add: read_of_def udp_copy_def Let_def take_is_prefix)

definition serving :: "udp_relay_state \<Rightarrow> bool" where
  "serving r \<longleftrightarrow> (case r of UdpSelecting \<Rightarrow> True | UdpSending _ _ \<Rightarrow> True | _ \<Rightarrow> False)"

definition waiting_dgs :: "('o \<Rightarrow> udp_datagram list) \<Rightarrow> bridge_udp_socket \<Rightarrow> 'o \<Rightarrow> udp_datagram list" where
  "waiting_dgs oitems sk q = (case bu_peeked sk of Some dg \<Rightarrow> [dg] | None \<Rightarrow> []) @ oitems q"

text \<open>The two directions, and the mutex of the receiver, which nobody holds over a suspension while a datagram is peeked.\<close>

definition udp_egress_inv :: "('c \<Rightarrow> udp_datagram list) \<Rightarrow> ('d, 'i, 'S, 'c, 'o) udp_conn \<Rightarrow> bool" where
  "udp_egress_inv items x \<longleftrightarrow>
     prefix (ub_tried x) (ub_accepted x)
     \<and> (serving (ub_relay x) \<longrightarrow> ub_accepted x = ub_tried x @ items (ub_to_lcore x))
     \<and> (\<exists>ts. ub_tried x = ts @ taken_dg (ub_relay x) \<and> subseq (map of_wire (ub_sent x)) ts)"

definition udp_ingress_inv :: "('o \<Rightarrow> udp_datagram list) \<Rightarrow> ('d, 'i, 'S, 'c, 'o) udp_conn \<Rightarrow> bool" where
  "udp_ingress_inv oitems x \<longleftrightarrow>
     subseq (ub_passed x) (ub_got x)
     \<and> (\<exists>ds. list_all2 read_of (ub_delivered x) ds \<and> prefix ds (ub_passed x)
          \<and> (\<forall>sk. ub_sock x = Some sk \<longrightarrow>
               (bu_rx_locked sk \<longrightarrow> bu_peeked sk = None) \<and> ub_passed x = ds @ waiting_dgs oitems sk (ub_to_os x)))"

definition udp_wire_inv ::
  "('S, 't, 'u, 'i, 'd, 'z) smol_scheme \<Rightarrow> ('u \<Rightarrow> (u8 list \<times> ip_endpoint) list) \<Rightarrow> udp_socket \<Rightarrow> (u8 list \<times> ip_endpoint) list
     \<Rightarrow> ('d, 'i, 'S, 'c, 'o) udp_conn \<Rightarrow> bool" where
  "udp_wire_inv F dsent s a x \<longleftrightarrow> (ub_relay x \<noteq> UdpGone \<longrightarrow> udp_view F dsent (ub_reactor x) (us_handle s) = Some (a @ ub_sent x))"

text \<open>Receiving does not touch what was sent.\<close>

definition udp_recv_law :: "('S, 't, 'u, 'i, 'd, 'z) smol_scheme \<Rightarrow> ('u \<Rightarrow> (u8 list \<times> ip_endpoint) list) \<Rightarrow> bool" where
  "udp_recv_law F dsent \<longleftrightarrow>
     (\<forall>n u. dsent (snd (udp_recv_slice F n u)) = dsent u) \<and> (\<forall>k u. dsent (udp_register_recv_waker F k u) = dsent u)"

lemma udp_recv_poll:
  assumes "set_law F" "udp_recv_law F dsent" and "udp_view F dsent R (us_handle s) = Some ds"
    and "UdpRecvFuture_poll F s n cx R = Done (r, R')"
  shows "udp_view F dsent R' (us_handle s) = Some ds"
proof -
  from assms(3) obtain u where u: "sockets_get F (sockets R) (us_handle s) = Some (Udp_sock u)" "ds = dsent u"
    by (auto simp: udp_view_Some)
  obtain x u1 where sl: "udp_recv_slice F n u = (x, u1)" by fastforce
  have "dsent u1 = dsent u" "dsent (udp_register_recv_waker F cx u1) = dsent u1"
    using assms(2) sl unfolding udp_recv_law_def by (metis snd_conv, blast)
  moreover have "sockets_get F (sockets_put F (us_handle s) y (sockets R)) (us_handle s) = Some y" for y
    using set_lawD(4) [OF assms(1)] u(1) by simp
  moreover have "R' = R\<lparr>sockets := sockets R'\<rparr>" using assms(4) by (auto simp: UdpRecvFuture_poll_def with_udp_Done [OF u(1)])
  ultimately show ?thesis using assms(4) sl u
    by (auto simp: UdpRecvFuture_poll_def with_udp_Done [OF u(1)] udp_view_def split: sum.splits udp_recv_error.splits)
qed

lemma udp_relay_ingress_cases:
  assumes "udp_relay_ingress F Q s cx q R = Done (m, q', R')"
  obtains r where "UdpRecvFuture_poll F s UDP_MAX_PACKET_SIZE cx R = Done (r, R')"
    "m = None \<and> q' = q \<or> (\<exists>dg t. m = Some (dg, \<not> isl t) \<and> mp_try_send Q dg q = (t, q'))"
proof -
  obtain r R1 where p: "UdpRecvFuture_poll F s UDP_MAX_PACKET_SIZE cx R = Done (r, R1)"
    using assms by (auto simp: udp_relay_ingress_def)
  consider (wait) "r = Pending" | (err) e where "r = Ready (Inl e)" | (ok) bs ep where "r = Ready (Inr (bs, ep))"
    by (metis poll.exhaust sum.exhaust surj_pair)
  then show thesis
  proof cases
    case ok
    obtain t q1 where t: "mp_try_send Q \<lparr>dg_payload = bs, dg_addr = from_smoltcp_endpoint ep\<rparr> q = (t, q1)" by fastforce
    then have "m = Some (\<lparr>dg_payload = bs, dg_addr = from_smoltcp_endpoint ep\<rparr>, \<not> isl t)" "q' = q1" "R' = R1"
      using assms p ok by (auto simp: udp_relay_ingress_def Let_def)
    then show thesis using p t by (intro that [of r]) blast+
  qed (use assms p that [of r] in \<open>simp_all add: udp_relay_ingress_def\<close>)
qed

locale udp_link = lc: mpsc_queue C items ctx crx + os: mpsc_queue Q oitems otx orx
  for C :: "('c, udp_datagram, 'x) poll_sender_scheme" and items :: "'c \<Rightarrow> udp_datagram list" and ctx crx :: "'c \<Rightarrow> bool"
    and Q :: "('o, udp_datagram, 'y) mpsc_scheme" and oitems :: "'o \<Rightarrow> udp_datagram list" and otx orx :: "'o \<Rightarrow> bool"
begin

text \<open>What the sends append to the queue.\<close>

lemma send_to_items:
  assumes "BridgeUdpSocket_send_to C buf target holds sk c = (r, holds', sk', c')"
  shows "items c' = items c @ accepted_dg buf target r \<and> bu_peeked sk' = bu_peeked sk \<and> bu_rx_locked sk' = bu_rx_locked sk"
proof -
  let ?dg = "\<lparr>dg_payload = buf, dg_addr = target\<rparr>"
  obtain p c1 where p: "mp_poll_send C ?dg c = (p, c1)" by fastforce
  consider (wait) "p = Pending" | (ok) "p = Ready (Inr ())" | (err) "p = Ready (Inl ())" by (metis poll.exhaust sum.exhaust old.unit.exhaust)
  then show ?thesis
    by cases (use assms p lc.send_ok [of ?dg c c1] lc.send_err [of ?dg c c1] lc.send_pending [of ?dg c c1] in
      \<open>auto simp: BridgeUdpSocket_send_to_def accepted_dg_def split: if_splits\<close>)
qed

lemma send_items:
  assumes "BridgeUdpSocket_send C buf fut sk c = (r, fut', sk', c')"
    and "addr = (case fut of SendStart \<Rightarrow> the (bu_peer_addr sk) | SendPeer a _ \<Rightarrow> a)"
  shows "items c' = items c @ accepted_dg buf addr r \<and> bu_peeked sk' = bu_peeked sk \<and> bu_rx_locked sk' = bu_rx_locked sk"
proof -
  have ?thesis if "(case BridgeUdpSocket_send_to C buf addr holds sk0 c of
               (Pending, holds, sk, c) \<Rightarrow> (Pending, SendPeer addr holds, sk, c)
             | (Ready r, holds, sk, c) \<Rightarrow> (Ready r, SendStart, sk\<lparr>bu_peer_locked := False\<rparr>, c)) = (r, fut', sk', c')"
    "bu_peeked sk0 = bu_peeked sk" "bu_rx_locked sk0 = bu_rx_locked sk" for holds sk0
  proof -
    obtain r1 h1 sk1 c1 where st: "BridgeUdpSocket_send_to C buf addr holds sk0 c = (r1, h1, sk1, c1)" by (metis prod_cases4)
    with send_to_items [OF st] that show ?thesis by (cases r1) auto
  qed
  note step = this
  show ?thesis
  proof (cases fut)
    case (SendPeer a holds)
    then show ?thesis using assms by (intro step [of holds sk]) (auto simp: BridgeUdpSocket_send_def Let_def)
  next
    case SendStart
    show ?thesis
    proof (cases "bu_peer_locked sk \<or> bu_peer_addr sk = None")
      case True
      then show ?thesis using assms(1) SendStart by (auto simp: BridgeUdpSocket_send_def Let_def accepted_dg_def split: if_splits)
    next
      case False
      then have "bu_peer_addr sk = Some addr" using assms(2) SendStart by auto
      then show ?thesis using assms(1) SendStart False
        by (intro step [of False "sk\<lparr>bu_peer_locked := True\<rparr>"]) (simp_all add: BridgeUdpSocket_send_def Let_def)
    qed
  qed
qed

lemma try_send_to_items:
  assumes "BridgeUdpSocket_try_send_to C buf target sk c = (r, c')"
  shows "items c' = items c @ accepted_dg buf target (Ready r)"
proof -
  let ?dg = "\<lparr>dg_payload = buf, dg_addr = target\<rparr>"
  obtain p c1 where p: "mp_try_send C ?dg c = (p, c1)" by fastforce
  consider (ok) "p = Inr ()" | (err) e where "p = Inl e" by (metis sum.exhaust old.unit.exhaust)
  then show ?thesis
  proof cases
    case ok
    then show ?thesis using assms p lc.try_send_ok [of ?dg c c1] by (auto simp: BridgeUdpSocket_try_send_to_def accepted_dg_def split: if_splits)
  next
    case err
    then show ?thesis using assms p lc.try_send_err [of ?dg c e c1]
      by (cases e) (auto simp: BridgeUdpSocket_try_send_to_def accepted_dg_def split: if_splits)
  qed
qed

lemma poll_send_to_items:
  assumes "BridgeUdpSocket_poll_send_to C buf target sk c = (r, c')"
  shows "items c' = items c @ accepted_dg buf target r"
proof (cases "bu_tx_locked sk")
  case True
  then show ?thesis using assms by (auto simp: BridgeUdpSocket_poll_send_to_def accepted_dg_def)
next
  case False
  let ?dg = "\<lparr>dg_payload = buf, dg_addr = target\<rparr>"
  obtain p c1 where res: "mp_poll_reserve C c = (p, c1)" by fastforce
  note k = lc.reserve_items [OF res]
  show ?thesis
  proof (cases "p = Ready (Inr ())")
    case True
    obtain q c2 where it: "mp_send_item C ?dg c1 = (q, c2)" by fastforce
    show ?thesis
    proof (cases q)
      case (Inl u)
      then show ?thesis using assms False res True it k lc.item_err [of ?dg c1 c2]
        by (auto simp: BridgeUdpSocket_poll_send_to_def accepted_dg_def)
    next
      case (Inr u)
      then show ?thesis using assms False res True it lc.item_ok [of c c1 ?dg c2]
        by (auto simp: BridgeUdpSocket_poll_send_to_def accepted_dg_def)
    qed
  next
    case no: False
    then show ?thesis using assms False res k
      by (auto simp: BridgeUdpSocket_poll_send_to_def accepted_dg_def split: poll.splits sum.splits)
  qed
qed

lemma poll_send_ready_items:
  assumes "BridgeUdpSocket_poll_send_ready C sk c = (r, c')"
  shows "items c' = items c"
proof -
  obtain p c1 where res: "mp_poll_reserve C c = (p, c1)" by fastforce
  have "c' = c \<or> c' = c1 \<or> c' = mp_abort_send C c1"
    using assms res by (auto simp: BridgeUdpSocket_poll_send_ready_def split: if_splits poll.splits sum.splits)
  then show ?thesis using lc.reserve_items [OF res] lc.abort(1) [of c1] by auto
qed

text \<open>What the receives take from the queue.\<close>

lemma recv_from_items:
  assumes "BridgeUdpSocket_recv_from Q n holds sk q = (d, holds', sk', q')" and "holds \<longrightarrow> bu_rx_locked sk"
    and "bu_rx_locked sk \<longrightarrow> bu_peeked sk = None"
  shows "(\<exists>ds. list_all2 read_of (delivered_dg d) ds \<and> waiting_dgs oitems sk q = ds @ waiting_dgs oitems sk' q')
    \<and> (bu_rx_locked sk' \<longrightarrow> bu_peeked sk' = None)"
proof (cases "\<not> holds \<and> bu_rx_locked sk \<or> \<not> holds \<and> bu_peeked sk \<noteq> None")
  case True
  then show ?thesis using assms
    by (auto simp: BridgeUdpSocket_recv_from_def delivered_dg_def waiting_dgs_def list_all2_Cons1 split: if_splits)
next
  case False
  then have n: "bu_peeked sk = None" using assms by auto
  obtain m q1 where m: "mp_poll_recv Q q = (m, q1)" by fastforce
  have recv: "(case m of
        Pending \<Rightarrow> (Pending, True, sk\<lparr>bu_rx_locked := True\<rparr>, q1)
      | Ready None \<Rightarrow> (Ready (Inl connection_reset), False, sk\<lparr>bu_rx_locked := False\<rparr>, q1)
      | Ready (Some dg) \<Rightarrow> (Ready (Inr (udp_copy n dg)), False, sk\<lparr>bu_rx_locked := False\<rparr>, q1)) = (d, holds', sk', q')"
    using assms(1) False n m by (cases holds) (auto simp: BridgeUdpSocket_recv_from_def split: poll.splits option.splits)
  consider (some) dg where "m = Ready (Some dg)" | (none) "m = Ready None" | (wait) "m = Pending" by (metis option.exhaust poll.exhaust)
  then show ?thesis
  proof cases
    case some
    then have "d = Ready (Inr (udp_copy n dg))" "q' = q1" "sk' = sk\<lparr>bu_rx_locked := False\<rparr>" using recv by simp_all
    then show ?thesis using n some m os.recv_some [of q dg q1] by (simp add: delivered_dg_def waiting_dgs_def list_all2_Cons1)
  next
    case none
    then show ?thesis using n m recv os.recv_none [of q q1] by (auto simp: delivered_dg_def waiting_dgs_def)
  next
    case wait
    then show ?thesis using n m recv os.recv_pending [of q q1] by (auto simp: delivered_dg_def waiting_dgs_def)
  qed
qed

lemma poll_recv_from_items:
  assumes "BridgeUdpSocket_poll_recv_from Q n sk q = (d, sk', q')"
  shows "(\<exists>ds. list_all2 read_of (delivered_dg d) ds \<and> waiting_dgs oitems sk q = ds @ waiting_dgs oitems sk' q')
    \<and> bu_rx_locked sk' = bu_rx_locked sk \<and> (bu_peeked sk = None \<longrightarrow> bu_peeked sk' = None)"
proof (cases "bu_rx_locked sk \<or> bu_peeked sk \<noteq> None")
  case True
  then show ?thesis using assms
    by (auto simp: BridgeUdpSocket_poll_recv_from_def delivered_dg_def waiting_dgs_def list_all2_Cons1 split: if_splits)
next
  case False
  obtain m q1 where m: "mp_poll_recv Q q = (m, q1)" by fastforce
  consider (some) dg where "m = Ready (Some dg)" | (none) "m = Ready None" | (wait) "m = Pending" by (metis option.exhaust poll.exhaust)
  then show ?thesis
  proof cases
    case some
    then have "d = Ready (Inr (udp_copy n dg))" "q' = q1" "sk' = sk"
      using assms False m by (simp_all add: BridgeUdpSocket_poll_recv_from_def)
    then show ?thesis using False some m os.recv_some [of q dg q1] by (simp add: delivered_dg_def waiting_dgs_def list_all2_Cons1)
  next
    case none
    then show ?thesis using assms False m os.recv_none [of q q1]
      by (auto simp: BridgeUdpSocket_poll_recv_from_def delivered_dg_def waiting_dgs_def)
  next
    case wait
    then show ?thesis using assms False m os.recv_pending [of q q1]
      by (auto simp: BridgeUdpSocket_poll_recv_from_def delivered_dg_def waiting_dgs_def)
  qed
qed

lemma try_recv_from_items:
  assumes "BridgeUdpSocket_try_recv_from Q n sk q = (d, sk', q')"
  shows "(\<exists>ds. list_all2 read_of (delivered_dg (Ready d)) ds \<and> waiting_dgs oitems sk q = ds @ waiting_dgs oitems sk' q')
    \<and> bu_rx_locked sk' = bu_rx_locked sk \<and> (bu_peeked sk = None \<longrightarrow> bu_peeked sk' = None)"
proof (cases "bu_rx_locked sk \<or> bu_peeked sk \<noteq> None")
  case True
  then show ?thesis using assms
    by (auto simp: BridgeUdpSocket_try_recv_from_def delivered_dg_def waiting_dgs_def list_all2_Cons1 split: if_splits)
next
  case False
  obtain m q1 where m: "mp_try_recv Q q = (m, q1)" by fastforce
  show ?thesis
  proof (cases m)
    case (Inl e)
    then show ?thesis using assms False m os.try_recv_err [of q e q1]
      by (cases e) (auto simp: BridgeUdpSocket_try_recv_from_def delivered_dg_def waiting_dgs_def)
  next
    case (Inr dg)
    then have "d = Inr (udp_copy n dg)" "q' = q1" "sk' = sk" using assms False m by (simp_all add: BridgeUdpSocket_try_recv_from_def)
    then show ?thesis using False Inr m os.try_recv_ok [of q dg q1] by (simp add: delivered_dg_def waiting_dgs_def list_all2_Cons1)
  qed
qed

text \<open>\<open>poll_recv_ready\<close> moves a datagram to the peek slot and loses none.\<close>

lemma poll_recv_ready_items:
  assumes "BridgeUdpSocket_poll_recv_ready Q sk q = (r, sk', q')"
  shows "waiting_dgs oitems sk q = waiting_dgs oitems sk' q' \<and> bu_rx_locked sk' = bu_rx_locked sk
    \<and> (bu_rx_locked sk \<longrightarrow> bu_peeked sk' = bu_peeked sk)"
proof (cases "bu_rx_locked sk \<or> bu_peeked sk \<noteq> None")
  case True
  then show ?thesis using assms by (auto simp: BridgeUdpSocket_poll_recv_ready_def split: if_splits)
next
  case False
  obtain m q1 where m: "mp_poll_recv Q q = (m, q1)" by fastforce
  consider (some) dg where "m = Ready (Some dg)" | (none) "m = Ready None" | (wait) "m = Pending" by (metis option.exhaust poll.exhaust)
  then show ?thesis
  proof cases
    case some
    then show ?thesis using assms False m os.recv_some [of q dg q1] by (auto simp: BridgeUdpSocket_poll_recv_ready_def waiting_dgs_def)
  next
    case none
    then show ?thesis using assms False m os.recv_none [of q q1] by (auto simp: BridgeUdpSocket_poll_recv_ready_def waiting_dgs_def)
  next
    case wait
    then show ?thesis using assms False m os.recv_pending [of q q1] by (auto simp: BridgeUdpSocket_poll_recv_ready_def waiting_dgs_def)
  qed
qed

subsection \<open>Every step keeps the datagrams in order\<close>

lemma egress_appends:
  assumes "udp_egress_inv items x" and "items c' = items (ub_to_lcore x) @ new"
  shows "udp_egress_inv items (x\<lparr>ub_sock := sk', ub_to_lcore := c', ub_accepted := ub_accepted x @ new\<rparr>)"
    "udp_egress_inv items (x\<lparr>ub_to_lcore := c', ub_accepted := ub_accepted x @ new\<rparr>)"
  using assms by (auto simp: udp_egress_inv_def)

lemma step_udp_egress:
  assumes "udp_step F C Q dsent s x y" and inv: "udp_egress_inv items x"
  shows "udp_egress_inv items y"
  using assms(1)
proof (cases rule: udp_step.cases)
  case (send_to sk buf target holds r holds' sk' c')
  show ?thesis unfolding send_to(1) by (rule egress_appends(1) [OF inv send_to_items [OF send_to(3), THEN conjunct1]])
next
  case (send sk buf r fut' sk' c')
  show ?thesis unfolding send(1) by (rule egress_appends(1) [OF inv send_items [OF send(3) refl, THEN conjunct1, simplified]])
next
  case (send_on sk buf addr holds r fut' sk' c')
  show ?thesis unfolding send_on(1) by (rule egress_appends(1) [OF inv send_items [OF send_on(3) refl, THEN conjunct1, simplified]])
next
  case (try_send_to sk buf target r c')
  show ?thesis unfolding try_send_to(1) by (rule egress_appends(2) [OF inv try_send_to_items [OF try_send_to(3)]])
next
  case (poll_send_to sk buf target r c')
  show ?thesis unfolding poll_send_to(1) by (rule egress_appends(2) [OF inv poll_send_to_items [OF poll_send_to(3)]])
next
  case (poll_send_ready sk r c')
  then show ?thesis using inv poll_send_ready_items [OF poll_send_ready(3)] by (simp add: udp_egress_inv_def)
next
  case (egress rs c')
  have w: "ub_accepted x = ub_tried x @ items (ub_to_lcore x)" and sub: "subseq (map of_wire (ub_sent x)) (ub_tried x)"
    using inv egress(2) by (auto simp: udp_egress_inv_def serving_def taken_dg_def)
  obtain p c1 where p: "mp_poll_recv C (ub_to_lcore x) = (p, c1)" by fastforce
  consider (none) "p = Ready None" | (some) dg where "p = Ready (Some dg)" | (wait) "p = Pending" by (metis option.exhaust poll.exhaust)
  then show ?thesis
  proof cases
    case some
    show ?thesis
    proof (cases "to_smoltcp_endpoint (dg_addr dg)")
      case (Done ep)
      then have "\<lparr>dg_payload = dg_payload dg, dg_addr = from_smoltcp_endpoint ep\<rparr> = dg" using endpoint_round_trip(2) by simp
      then show ?thesis using egress(1,3) some p Done w sub lc.recv_some [of "ub_to_lcore x" dg c1]
        by (auto simp: udp_egress_inv_def udp_relay_egress_def serving_def taken_dg_def)
    next
      case (Panic m)
      then show ?thesis using egress(1,3) some p w sub by (auto simp: udp_egress_inv_def udp_relay_egress_def serving_def taken_dg_def)
    qed
  next
    case none
    then show ?thesis using egress(1,3) p w sub by (auto simp: udp_egress_inv_def udp_relay_egress_def serving_def taken_dg_def)
  next
    case wait
    then show ?thesis using egress(1,3) p w sub lc.recv_pending [of "ub_to_lcore x" c1]
      by (auto simp: udp_egress_inv_def udp_relay_egress_def serving_def taken_dg_def)
  qed
next
  case (sending payload endpoint cx rs p R')
  let ?dg = "of_wire (payload, endpoint)"
  obtain ts where ts: "ub_tried x = ts @ [?dg]" "subseq (map of_wire (ub_sent x)) ts"
    and w: "ub_accepted x = ub_tried x @ items (ub_to_lcore x)"
    using inv sending(2) by (auto simp: udp_egress_inv_def serving_def taken_dg_def of_wire_def)
  have r: "rs = (case p of Pending \<Rightarrow> UdpSending payload endpoint | Ready _ \<Rightarrow> UdpSelecting)"
    using sending(3) by (auto simp: udp_relay_send_def)
  have "subseq (map of_wire (ub_sent x @ sent_dg payload endpoint p)) (ts @ [?dg])"
    using ts(2) by (auto simp: sent_dg_def list_emb_append_mono subseq_drop_many split: poll.splits sum.splits)
  moreover have "p = Pending \<Longrightarrow> sent_dg payload endpoint p = []" by (simp add: sent_dg_def)
  ultimately show ?thesis using sending(1) ts w r
    by (cases p) (auto simp: udp_egress_inv_def serving_def taken_dg_def of_wire_def)
next
  case (leave R')
  then show ?thesis using inv by (auto simp: udp_egress_inv_def serving_def taken_dg_def)
qed (use inv in \<open>auto simp: udp_egress_inv_def lc.dropped_tx\<close>)

text \<open>A receive takes the next datagram.\<close>

lemma ingress_takes:
  assumes inv: "udp_ingress_inv oitems x" and "ub_sock x = Some sk"
    and "(\<exists>ds. list_all2 read_of new ds \<and> waiting_dgs oitems sk (ub_to_os x) = ds @ waiting_dgs oitems sk' q')"
    and "bu_rx_locked sk' \<longrightarrow> bu_peeked sk' = None"
  shows "udp_ingress_inv oitems (x\<lparr>ub_sock := Some sk', ub_to_os := q', ub_delivered := ub_delivered x @ new\<rparr>)"
proof -
  obtain ds where ds: "list_all2 read_of (ub_delivered x) ds" "ub_passed x = ds @ waiting_dgs oitems sk (ub_to_os x)" "subseq (ub_passed x) (ub_got x)"
    using inv assms(2) by (auto simp: udp_ingress_inv_def)
  obtain ds' where "list_all2 read_of new ds'" "waiting_dgs oitems sk (ub_to_os x) = ds' @ waiting_dgs oitems sk' q'" using assms(3) by blast
  then have "list_all2 read_of (ub_delivered x @ new) (ds @ ds')" "ub_passed x = (ds @ ds') @ waiting_dgs oitems sk' q'"
    using ds by (simp_all add: list_all2_appendI)
  then show ?thesis using ds(3) assms(4) unfolding udp_ingress_inv_def by (intro conjI exI [of _ "ds @ ds'"]) auto
qed

lemma ingress_keeps:
  assumes "udp_ingress_inv oitems x" and "ub_sock x = Some sk" and "bu_peeked sk' = bu_peeked sk" and "bu_rx_locked sk' \<longrightarrow> bu_rx_locked sk"
  shows "udp_ingress_inv oitems (x\<lparr>ub_sock := Some sk', ub_to_lcore := c', ub_accepted := ac\<rparr>)"
    "udp_ingress_inv oitems (x\<lparr>ub_sock := Some sk'\<rparr>)"
  using assms by (auto simp: udp_ingress_inv_def waiting_dgs_def)

lemma step_udp_ingress:
  assumes "udp_step F C Q dsent s x y" and inv: "udp_ingress_inv oitems x"
  shows "udp_ingress_inv oitems y"
  using assms(1)
proof (cases rule: udp_step.cases)
  case (send_to sk buf target holds r holds' sk' c')
  then show ?thesis using ingress_keeps(1) [OF inv, of sk sk'] send_to_items [OF send_to(3)] by simp
next
  case (send sk buf r fut' sk' c')
  then show ?thesis using ingress_keeps(1) [OF inv, of sk sk'] send_items [OF send(3) refl] by simp
next
  case (send_on sk buf addr holds r fut' sk' c')
  then show ?thesis using ingress_keeps(1) [OF inv, of sk sk'] send_items [OF send_on(3) refl] by simp
next
  case (recv_from sk holds n d holds' sk' q')
  have "bu_rx_locked sk \<longrightarrow> bu_peeked sk = None" using inv recv_from(2) by (auto simp: udp_ingress_inv_def)
  from recv_from_items [OF recv_from(4,3) this] show ?thesis
    unfolding recv_from(1) by (intro ingress_takes [OF inv recv_from(2)]) blast+
next
  case (try_recv_from sk n d' sk' q')
  have "bu_rx_locked sk \<longrightarrow> bu_peeked sk = None" using inv try_recv_from(2) by (auto simp: udp_ingress_inv_def)
  with try_recv_from_items [OF try_recv_from(3)] show ?thesis
    unfolding try_recv_from(1) by (intro ingress_takes [OF inv try_recv_from(2)]) auto
next
  case (poll_recv_from sk n d sk' q')
  have "bu_rx_locked sk \<longrightarrow> bu_peeked sk = None" using inv poll_recv_from(2) by (auto simp: udp_ingress_inv_def)
  with poll_recv_from_items [OF poll_recv_from(3)] show ?thesis
    unfolding poll_recv_from(1) by (intro ingress_takes [OF inv poll_recv_from(2)]) auto
next
  case (poll_recv_ready sk r sk' q')
  then show ?thesis using inv poll_recv_ready_items [OF poll_recv_ready(3)] by (simp add: udp_ingress_inv_def)
next
  case (connect sk target r sk')
  then have "bu_peeked sk' = bu_peeked sk" "bu_rx_locked sk' = bu_rx_locked sk" by (auto simp: BridgeUdpSocket_connect_def split: if_splits)
  then show ?thesis unfolding connect(1) by (intro ingress_keeps(2) [OF inv connect(2)]) simp_all
next
  case (cancel sk t u v)
  then show ?thesis unfolding cancel(1) by (intro ingress_keeps(2) [OF inv cancel(2)]) simp_all
next
  case (ingress cx m q' R')
  have q: "oitems q' = oitems (ub_to_os x) @ (case m of Some (dg, True) \<Rightarrow> [dg] | _ \<Rightarrow> [])"
  proof (rule udp_relay_ingress_cases [OF ingress(3)], elim disjE exE conjE)
    fix dg t
    assume "m = Some (dg, \<not> isl t)" "mp_try_send Q dg (ub_to_os x) = (t, q')"
    then show ?thesis using os.try_send_ok [of dg "ub_to_os x" q'] os.try_send_err [of dg "ub_to_os x" _ q'] by (cases t) auto
  qed simp
  have "subseq (ub_passed x @ (case m of Some (dg, True) \<Rightarrow> [dg] | _ \<Rightarrow> [])) (ub_got x @ (case m of Some (dg, _) \<Rightarrow> [dg] | None \<Rightarrow> []))"
    using inv by (intro list_emb_append_mono) (auto simp: udp_ingress_inv_def split: option.splits prod.splits bool.splits)
  moreover obtain ds where "list_all2 read_of (ub_delivered x) ds" "prefix ds (ub_passed x)"
    "\<And>sk. ub_sock x = Some sk \<Longrightarrow> (bu_rx_locked sk \<longrightarrow> bu_peeked sk = None) \<and> ub_passed x = ds @ waiting_dgs oitems sk (ub_to_os x)"
    using inv by (auto simp: udp_ingress_inv_def)
  ultimately show ?thesis unfolding ingress(1) using q
    by (auto simp: udp_ingress_inv_def waiting_dgs_def intro!: exI [of _ ds])
next
  case (leave R')
  then show ?thesis using inv by (auto simp: udp_ingress_inv_def waiting_dgs_def os.dropped_tx)
qed (use inv in \<open>auto simp: udp_ingress_inv_def waiting_dgs_def\<close>)

lemma step_udp_wire:
  assumes "udp_step F C Q dsent s x y" and "set_law F" "udp_law F dsent" "udp_recv_law F dsent" and inv: "udp_wire_inv F dsent s a x"
  shows "udp_wire_inv F dsent s a y"
  using assms(1)
proof (cases rule: udp_step.cases)
  case (sending payload endpoint cx rs p R')
  have v: "udp_view F dsent (ub_reactor x) (us_handle s) = Some (a @ ub_sent x)" using inv sending(2) by (simp add: udp_wire_inv_def)
  have "UdpSendFuture_poll F s payload endpoint cx (ub_reactor x) = Done (p, R')"
    using sending(3) by (auto simp: udp_relay_send_def)
  from udp_send_poll [OF assms(2,3) v this] show ?thesis
    unfolding sending(1) by (auto simp: udp_wire_inv_def sent_dg_def split: poll.splits sum.splits)
next
  case (ingress cx m q' R')
  have v: "udp_view F dsent (ub_reactor x) (us_handle s) = Some (a @ ub_sent x)" using inv ingress(2) by (simp add: udp_wire_inv_def)
  obtain r where "UdpRecvFuture_poll F s UDP_MAX_PACKET_SIZE cx (ub_reactor x) = Done (r, R')"
    by (rule udp_relay_ingress_cases [OF ingress(3)])
  from udp_recv_poll [OF assms(2,4) v this] show ?thesis unfolding ingress(1) by (simp add: udp_wire_inv_def)
qed (use inv in \<open>auto simp: udp_wire_inv_def\<close>)

lemma udp_run_inv:
  assumes "(udp_step F C Q dsent s)\<^sup>*\<^sup>* (udp_start C Q local_addr R) x" and "set_law F" "udp_law F dsent" "udp_recv_law F dsent"
    and "udp_view F dsent R (us_handle s) = Some a"
  shows "udp_egress_inv items x \<and> udp_ingress_inv oitems x \<and> udp_wire_inv F dsent s a x"
  using assms(1)
proof (induction rule: rtranclp_induct)
  case base
  show ?case using assms(5)
    by (simp add: udp_start_def udp_egress_inv_def udp_ingress_inv_def udp_wire_inv_def serving_def taken_dg_def waiting_dgs_def
        BridgeUdpSocket_new_def lc.new os.new)
next
  case (step x y)
  then show ?case using step_udp_egress step_udp_ingress step_udp_wire [OF _ assms(2-4)] by blast
qed

end

text \<open>The channel of lists with a sender that is never closed.\<close>

definition list_sender :: "('a list_chan, 'a) poll_sender" where
  "list_sender = \<lparr>mp_new = mp_new list_mpsc, mp_poll_recv = mp_poll_recv list_mpsc, mp_try_recv = mp_try_recv list_mpsc,
     mp_poll_send = mp_poll_send list_mpsc, mp_try_send = mp_try_send list_mpsc, mp_poll_reserve = mp_poll_reserve list_mpsc,
     mp_send_item = mp_send_item list_mpsc, mp_abort_send = mp_abort_send list_mpsc, mp_drop_tx = mp_drop_tx list_mpsc,
     mp_drop_rx = mp_drop_rx list_mpsc, ps_get_ref = (\<lambda>c. True)\<rparr>"

interpretation list_send: mpsc_queue list_sender lc_items lc_tx lc_rx
  by unfold_locales (auto simp: list_sender_def list_mpsc_def split: list.splits if_splits)

interpretation sim_udp: udp_link list_sender lc_items lc_tx lc_rx list_mpsc lc_items lc_tx lc_rx
  by unfold_locales

lemma ref_udp_recv_law: "udp_recv_law ref_smol r_out"
  by (auto simp: udp_recv_law_def ref_smol_def split: list.splits)


abbreviation (input) sim_udp_step :: "(nat, ref_event list, ref_set, udp_datagram list_chan, udp_datagram list_chan) udp_conn
    \<Rightarrow> (nat, ref_event list, ref_set, udp_datagram list_chan, udp_datagram list_chan) udp_conn \<Rightarrow> bool" where
  "sim_udp_step \<equiv> udp_step ref_smol list_sender list_mpsc r_out \<lparr>us_handle = 0\<rparr>"

abbreviation (input) v4_addr :: socket_addr where
  "v4_addr \<equiv> \<lparr>sa_ip = V4 (Ipv4 10 0 0 1), sa_port = 53\<rparr>"

abbreviation (input) v6_addr :: socket_addr where
  "v6_addr \<equiv> \<lparr>sa_ip = V6 [1], sa_port = 53\<rparr>"

abbreviation (input) sim_udp_start :: "(nat, ref_event list, ref_set, udp_datagram list_chan, udp_datagram list_chan) udp_conn" where
  "sim_udp_start \<equiv> udp_start list_sender list_mpsc v4_addr ref_udp_reactor"

definition sim_udp_sent :: "socket_addr \<Rightarrow> (nat, ref_event list, ref_set, udp_datagram list_chan, udp_datagram list_chan) udp_conn" where
  "sim_udp_sent target = sim_udp_start\<lparr>ub_to_lcore := \<lparr>lc_items = [\<lparr>dg_payload = [1, 2], dg_addr = target\<rparr>], lc_cap = 1024, lc_reserved = 0, lc_tx = True, lc_rx = True\<rparr>,
     ub_accepted := [\<lparr>dg_payload = [1, 2], dg_addr = target\<rparr>]\<rparr>"

lemmas sim_udp_defs = udp_start_def UDP_CHANNEL_SIZE_def list_sender_def list_mpsc_def BridgeUdpSocket_new_def lc_free_def

lemma sim_udp_send: "sim_udp_step sim_udp_start (sim_udp_sent target)"
proof -
  have "BridgeUdpSocket_try_send_to list_sender [1, 2] target (BridgeUdpSocket_new v4_addr) (ub_to_lcore sim_udp_start)
      = (Inr 2, ub_to_lcore (sim_udp_sent target))"
    by (simp add: BridgeUdpSocket_try_send_to_def sim_udp_sent_def sim_udp_defs)
  from udp_step.try_send_to [OF _ this, where F = ref_smol and Q = list_mpsc and dsent = r_out and s = "\<lparr>us_handle = 0\<rparr>"]
  show ?thesis by (simp add: sim_udp_sent_def udp_start_def accepted_dg_def)
qed



end
