(* ===== verification/App_Run.thy ===== *)
theory App_Run
  imports Eth_Port Lcore_Launch Dpdk_Device Reactor "HOL-Library.Multiset"
begin

section \<open>Running an application on all lcores (dpdk-net-util, app.rs and context.rs)\<close>

text \<open>
  \<open>DpdkApp\<close> configures a port with one queue per lcore, starts a worker for its queue on every lcore and runs
  one itself. The calls into DPDK are those of the API theories, on one world; the interface of smoltcp and
  the tokio runtime are parameters.
\<close>

unbundle bit_operations_syntax

definition app_DEFAULT_MBUF_HEADROOM :: nat where
  "app_DEFAULT_MBUF_HEADROOM = 128"

definition app_DEFAULT_MBUF_DATA_ROOM_SIZE :: u16 where
  "app_DEFAULT_MBUF_DATA_ROOM_SIZE = 2048 + of_nat app_DEFAULT_MBUF_HEADROOM"

definition app_DEFAULT_MTU :: nat where
  "app_DEFAULT_MTU = 1500"

subsection \<open>The builder\<close>

record dpdk_app =
  app_port_id :: u16
  app_ip_addr :: "ipv4 option"
  app_gateway :: "ipv4 option"
  app_mbufs_per_queue :: u32
  app_rx_desc :: u16
  app_tx_desc :: u16

definition DpdkApp_new :: dpdk_app where
  "DpdkApp_new = \<lparr>app_port_id = 0, app_ip_addr = None, app_gateway = None, app_mbufs_per_queue = 8192,
     app_rx_desc = 1024, app_tx_desc = 1024\<rparr>"

definition DpdkApp_eth_dev :: "dpdk_app \<Rightarrow> u16 \<Rightarrow> dpdk_app" where
  "DpdkApp_eth_dev app port_id = app\<lparr>app_port_id := port_id\<rparr>"

definition DpdkApp_ip :: "dpdk_app \<Rightarrow> ipv4 \<Rightarrow> dpdk_app" where
  "DpdkApp_ip app addr = app\<lparr>app_ip_addr := Some addr\<rparr>"

definition DpdkApp_gateway :: "dpdk_app \<Rightarrow> ipv4 \<Rightarrow> dpdk_app" where
  "DpdkApp_gateway app addr = app\<lparr>app_gateway := Some addr\<rparr>"

definition DpdkApp_mbufs_per_queue :: "dpdk_app \<Rightarrow> u32 \<Rightarrow> dpdk_app" where
  "DpdkApp_mbufs_per_queue app n = app\<lparr>app_mbufs_per_queue := n\<rparr>"

definition DpdkApp_descriptors :: "dpdk_app \<Rightarrow> u16 \<Rightarrow> u16 \<Rightarrow> dpdk_app" where
  "DpdkApp_descriptors app rx tx = app\<lparr>app_rx_desc := rx, app_tx_desc := tx\<rparr>"

subsection \<open>A worker\<close>

text \<open>What a worker is called with. The shared ARP cache is named as in \<open>dpdk_device\<close>.\<close>

record worker_job =
  wk_queue_id :: u16
  wk_port_id :: u16
  wk_mempool :: mem_pool
  wk_mac_addr :: mac
  wk_ip_addr :: ipv4
  wk_gateway :: ipv4
  wk_arp_cache :: "nat option"

record worker_context =
  wc_lcore :: lcore
  wc_queue_id :: u16
  wc_socket_id :: u32

text \<open>
  \<open>ae_block_on\<close> runs the reactor on the given state and the future of the server, which gets the context, until the
  server has returned and the reactor was cancelled.
\<close>

record ('w, 'i, 'S) app_env =
  ae_interface_new :: "mac \<Rightarrow> dpdk_device \<Rightarrow> 'i"
  ae_push_ip_addr :: "ip_address \<Rightarrow> nat \<Rightarrow> 'i \<Rightarrow> 'i option"
  ae_add_default_route :: "ipv4 \<Rightarrow> 'i \<Rightarrow> 'i option"
  ae_block_on :: "(dpdk_device, 'i, 'S) reactor_inner \<Rightarrow> worker_context \<Rightarrow> 'w lcore_rt \<Rightarrow> 'w lcore_rt outcome"

definition unwrap_failed :: string where
  "unwrap_failed = ''called `Result::unwrap()` on an `Err` value''"

definition worker_device :: "worker_job \<Rightarrow> dpdk_device outcome" where
  "worker_device job =
     (let mbuf_capacity = unat app_DEFAULT_MBUF_DATA_ROOM_SIZE - app_DEFAULT_MBUF_HEADROOM
      in outcome_bind (DpdkDevice_new (RxQueue_new (wk_port_id job) (wk_queue_id job)) (TxQueue_new (wk_port_id job) (wk_queue_id job))
                         (wk_mempool job) app_DEFAULT_MTU mbuf_capacity) (\<lambda>device.
           Done (case wk_arp_cache job of
                   Some cache \<Rightarrow> with_shared_arp_cache device (wk_queue_id job) cache (wk_mac_addr job) (wk_ip_addr job)
                 | None \<Rightarrow> device)))"

definition DpdkApp_run_worker ::
  "('S, 't, 'u, 'i, dpdk_device, 'z) smol_scheme \<Rightarrow> ('w, 'y) lcore_ffi_scheme \<Rightarrow> ('w, 'i, 'S, 'x) app_env_scheme
     \<Rightarrow> worker_job \<Rightarrow> 'w lcore_rt \<Rightarrow> 'w lcore_rt outcome" where
  "DpdkApp_run_worker F fl env job rt =
     (case Lcore_current fl (lc_world rt) of
        None \<Rightarrow> Panic ''Not running on an lcore''
      | Some lcore \<Rightarrow>
          outcome_bind (worker_device job) (\<lambda>device.
            case ae_push_ip_addr env (Ipv4Address (wk_ip_addr job)) 24 (ae_interface_new env (wk_mac_addr job) device) of
              None \<Rightarrow> Panic unwrap_failed
            | Some ifc \<Rightarrow>
                (case ae_add_default_route env (wk_gateway job) ifc of
                   None \<Rightarrow> Panic unwrap_failed
                 | Some ifc \<Rightarrow>
                     ae_block_on env (Reactor_new F device ifc)
                       \<lparr>wc_lcore = lcore, wc_queue_id = wk_queue_id job, wc_socket_id = Lcore_socket_id fl lcore (lc_world rt)\<rparr> rt)))"

subsection \<open>run\<close>

text \<open>
  The loop that launches the workers: the queue of the main lcore, which it skips, and the jobs handed to the others.
  A launched closure returns 0.
\<close>

fun launch_workers ::
  "('w, 'y) lcore_ffi_scheme \<Rightarrow> (u16 \<Rightarrow> worker_job) \<Rightarrow> (nat \<times> lcore) list \<Rightarrow> u16 \<Rightarrow> (lcore \<times> worker_job) list \<Rightarrow> 'w lcore_rt
     \<Rightarrow> (u16 \<times> (lcore \<times> worker_job) list \<times> 'w lcore_rt) outcome" where
  "launch_workers fl job [] main_queue_id launched rt = Done (main_queue_id, launched, rt)"
| "launch_workers fl job ((i, lcore) # rest) main_queue_id launched rt =
     (if Lcore_is_main fl lcore (lc_world rt) then launch_workers fl job rest (of_nat i) launched rt
      else (case Lcore_launch fl lcore 0 rt of
              (Inl e, rt) \<Rightarrow> Panic ''Failed to launch on worker lcore''
            | (Inr _, rt) \<Rightarrow> launch_workers fl job rest main_queue_id (launched @ [(lcore, job (of_nat i))]) rt))"

text \<open>The configuration of the port, for the given number of queues and the size of the device's redirection table.\<close>

definition app_eth_conf :: "'k rss_hf_consts_scheme \<Rightarrow> nat \<Rightarrow> u16 \<Rightarrow> eth_conf" where
  "app_eth_conf k num_queues reta_size =
     (if 0 < unat reta_size \<and> 1 < num_queues
      then EthConf_rss_with_hash EthConf_new (HF_NONFRAG_IPV4_TCP k OR HF_NONFRAG_IPV6_TCP k)
      else EthConf_new)"

definition app_builder :: "'k rss_hf_consts_scheme \<Rightarrow> dpdk_app \<Rightarrow> nat \<Rightarrow> u16 \<Rightarrow> ('r, 't) eth_dev_builder" where
  "app_builder k app num_queues reta_size =
     EthDevBuilder_tx_queue_conf
       (EthDevBuilder_rx_queue_conf
         (EthDevBuilder_nb_tx_queues
           (EthDevBuilder_nb_rx_queues
             (EthDevBuilder_eth_conf (EthDevBuilder_new (app_port_id app)) (app_eth_conf k num_queues reta_size))
             (of_nat num_queues))
           (of_nat num_queues))
         (RxQueueConf_nb_desc RxQueueConf_default (app_rx_desc app)))
       (TxQueueConf_nb_desc TxQueueConf_default (app_tx_desc app))"

text \<open>The multiplication is on \<open>u32\<close> and wraps, as in a release build.\<close>

definition app_pool_config :: "u32 \<Rightarrow> u32 \<Rightarrow> dpdk_app \<Rightarrow> nat \<Rightarrow> mem_pool_config" where
  "app_pool_config dataroom headroom app num_queues =
     MemPoolConfig_data_room_size
       (MemPoolConfig_num_mbufs (MemPoolConfig_default dataroom headroom) (app_mbufs_per_queue app * of_nat num_queues))
       app_DEFAULT_MBUF_DATA_ROOM_SIZE"

definition app_pool_name :: "u8 list" where
  "app_pool_name = map of_char ''dpdk_app_pool''"

primrec mac_of :: "ether_addr \<Rightarrow> mac" where
  "mac_of (EtherAddr a b c d e f) = Mac a b c d e f"

text \<open>
  The device is there when the workers start: the world, the device, the pool and the job of each queue. \<open>arc\<close> is the
  cache that \<open>SharedArpCache::new\<close> makes.
\<close>

definition app_setup ::
  "('w, 'z1) pool_ffi_scheme \<Rightarrow> ('w, 'j, 's, 'r, 't, 'z2) eth_ffi_scheme \<Rightarrow> 'k rss_hf_consts_scheme \<Rightarrow> u32 \<Rightarrow> u32 \<Rightarrow> nat
     \<Rightarrow> dpdk_app \<Rightarrow> nat \<Rightarrow> ipv4 \<Rightarrow> ipv4 \<Rightarrow> 'w \<Rightarrow> (eth_dev \<times> mem_pool \<times> (u16 \<Rightarrow> worker_job) \<times> 'w) outcome" where
  "app_setup fp fe k dataroom headroom arc app num_queues ip_addr gateway w =
     (case EthDev_info fe (EthDev_new (app_port_id app)) w of
        Inl e \<Rightarrow> Panic ''Failed to get device info''
      | Inr info \<Rightarrow>
          (case MemPool_create fp app_pool_name (app_pool_config dataroom headroom app num_queues) w of
             (Inl e, w) \<Rightarrow> Panic ''Failed to create mempool''
           | (Inr pool, w) \<Rightarrow>
               outcome_bind (EthDevBuilder_build fe (app_builder k app num_queues (info_reta_size fe info)) pool w) (\<lambda>(r, w).
                 case r of
                   Inl e \<Rightarrow> Panic ''Failed to configure ethernet device''
                 | Inr eth_dev \<Rightarrow>
                     (case EthDev_mac_addr fe eth_dev w of
                        Inl e \<Rightarrow> Panic ''Failed to get MAC address''
                      | Inr addr \<Rightarrow>
                          Done (eth_dev, pool,
                            (\<lambda>q. \<lparr>wk_queue_id = q, wk_port_id = app_port_id app, wk_mempool = pool, wk_mac_addr = mac_of addr,
                                  wk_ip_addr = ip_addr, wk_gateway = gateway,
                                  wk_arp_cache = (if 1 < num_queues then Some arc else None)\<rparr>), w)))))"

text \<open>
  \<open>run\<close> returns nothing. The value here has the jobs handed to the workers and the one run on the main lcore. It is
  \<open>None\<close> only if the enumeration of the lcores does not end.
\<close>

definition DpdkApp_run ::
  "('S, 't, 'u, 'i, dpdk_device, 'z) smol_scheme \<Rightarrow> ('w, 'y) lcore_ffi_scheme \<Rightarrow> ('w, 'z1) pool_ffi_scheme
     \<Rightarrow> ('w, 'j, 's, 'r, 'q, 'z2) eth_ffi_scheme \<Rightarrow> 'k rss_hf_consts_scheme \<Rightarrow> u32 \<Rightarrow> u32 \<Rightarrow> nat \<Rightarrow> ('w, 'i, 'S, 'x) app_env_scheme
     \<Rightarrow> dpdk_app \<Rightarrow> 'w lcore_rt \<Rightarrow> ((lcore \<times> worker_job) list \<times> worker_job \<times> 'w lcore_rt) outcome option" where
  "DpdkApp_run F fl fp fe k dataroom headroom arc env app rt =
     (case app_ip_addr app of
        None \<Rightarrow> Some (Panic ''IP address not set. Call ip() before run()'')
      | Some ip_addr \<Rightarrow>
     (case app_gateway app of
        None \<Rightarrow> Some (Panic ''Gateway not set. Call gateway() before run()'')
      | Some gateway \<Rightarrow>
          LcoreIter_collect fl Lcore_all (lc_world rt) \<bind> (\<lambda>lcores.
            let num_queues = length lcores
            in if num_queues = 0 then Some (Panic ''No lcores available. Ensure EAL is initialized with -l flag.'')
               else Some (
                 outcome_bind (app_setup fp fe k dataroom headroom arc app num_queues ip_addr gateway (lc_world rt)) (\<lambda>(eth_dev, pool, job, w).
                 outcome_bind (launch_workers fl job (enumerate 0 lcores) 0 [] (rt\<lparr>lc_world := w\<rparr>)) (\<lambda>(main_queue_id, launched, rt).
                 outcome_bind (DpdkApp_run_worker F fl env (job main_queue_id) rt) (\<lambda>rt.
                   (let rt = Lcore_wait_all_workers fl rt;
                        w = snd (EthDev_close fe eth_dev (snd (EthDev_stop fe eth_dev (lc_world rt))));
                        w = MemPool_drop fp pool w
                    in Done (launched, job main_queue_id, rt\<lparr>lc_world := w\<rparr>)))))))))"

subsection \<open>Every queue has one lcore\<close>

text \<open>The constants leave room for every packet: making the device of a worker does not panic.\<close>

lemma worker_device_ok:
  "\<exists>d. worker_device job = Done d \<and> rxq d = RxQueue_new (wk_port_id job) (wk_queue_id job)
     \<and> txq d = TxQueue_new (wk_port_id job) (wk_queue_id job) \<and> mempool d = wk_mempool job \<and> shared_arp_cache d = wk_arp_cache job
     \<and> (wk_arp_cache job \<noteq> None \<longrightarrow> queue_id d = wk_queue_id job)"
proof -
  have "unat app_DEFAULT_MBUF_DATA_ROOM_SIZE - app_DEFAULT_MBUF_HEADROOM = 2048"
    by (simp add: app_DEFAULT_MBUF_DATA_ROOM_SIZE_def app_DEFAULT_MBUF_HEADROOM_def)
  then show ?thesis
    by (cases "wk_arp_cache job")
      (simp_all add: worker_device_def DpdkDevice_new_def MAX_PACKET_OVERHEAD_def app_DEFAULT_MTU_def with_shared_arp_cache_def)
qed

lemma app_setup_Done:
  assumes "app_setup fp fe k dataroom headroom arc app n ip gw w = Done (dev, pool, job, w')"
  obtains info w1 addr where
    "MemPool_create fp app_pool_name (app_pool_config dataroom headroom app n) w = (Inr pool, w1)"
    "EthDevBuilder_build fe (app_builder k app n (info_reta_size fe info)) pool w1 = Done (Inr dev, w')"
    "job = (\<lambda>q. \<lparr>wk_queue_id = q, wk_port_id = app_port_id app, wk_mempool = pool, wk_mac_addr = mac_of addr,
        wk_ip_addr = ip, wk_gateway = gw, wk_arp_cache = (if 1 < n then Some arc else None)\<rparr>)"
proof -
  from assms obtain info where i: "EthDev_info fe (EthDev_new (app_port_id app)) w = Inr info"
    by (auto simp: app_setup_def split: sum.splits)
  obtain p w1 where c: "MemPool_create fp app_pool_name (app_pool_config dataroom headroom app n) w = (p, w1)" by fastforce
  with assms i obtain pool1 where p: "p = Inr pool1" by (cases p) (auto simp: app_setup_def)
  with assms i c obtain r w2 where b: "EthDevBuilder_build fe (app_builder k app n (info_reta_size fe info)) pool1 w1 = Done (r, w2)"
    by (auto simp: app_setup_def)
  with assms i c p obtain dev1 where r: "r = Inr dev1" by (cases r) (auto simp: app_setup_def)
  with assms i c p b obtain addr where "EthDev_mac_addr fe dev1 w2 = Inr addr"
    by (cases "EthDev_mac_addr fe dev1 w2") (auto simp: app_setup_def)
  with assms i c p b r show thesis by (intro that [of w1 info addr]) (auto simp: app_setup_def)
qed

lemma enumerate_snd: "(i, x) \<in> set (enumerate k xs) \<Longrightarrow> x \<in> set xs"
  by (metis enumerate_eq_zip set_zip_rightD)

lemma launch_workers_spec:
  assumes "\<And>w. rust_rte_get_main_lcore fl w = m"
    and "launch_workers fl job (enumerate k ls) mq acc rt = Done (mq', acc', rt')" and "distinct ls"
  shows "acc' = acc @ map (\<lambda>(i, l). (l, job (of_nat i))) (filter (\<lambda>(i, l). l \<noteq> Lcore m) (enumerate k ls))
    \<and> mq' = (case filter (\<lambda>(i, l). l = Lcore m) (enumerate k ls) of [] \<Rightarrow> mq | (i, l) # _ \<Rightarrow> of_nat i)"
  using assms(2,3)
proof (induction ls arbitrary: k mq acc rt)
  case (Cons l ls)
  show ?case
  proof (cases "l = Lcore m")
    case True
    then have run: "launch_workers fl job (enumerate (Suc k) ls) (of_nat k) acc rt = Done (mq', acc', rt')"
      using Cons.prems(1) assms(1) by (simp add: Lcore_is_main_def)
    have "filter (\<lambda>(i, x). x = Lcore m) (enumerate (Suc k) ls) = []"
      using Cons.prems(2) True by (auto simp: filter_empty_conv dest: enumerate_snd)
    then show ?thesis using Cons.IH [OF run] Cons.prems(2) True by simp
  next
    case False
    then have "lcore_id l \<noteq> m" by (metis lcore.collapse)
    then obtain rt1 where run: "launch_workers fl job (enumerate (Suc k) ls) mq (acc @ [(l, job (of_nat k))]) rt1 = Done (mq', acc', rt')"
      using Cons.prems(1) assms(1) by (auto simp: Lcore_is_main_def split: prod.splits sum.splits)
    then show ?thesis using Cons.IH [OF run] Cons.prems(2) False by simp
  qed
qed simp

lemma enumerate_mapped: "enumerate k (map f xs) = map (\<lambda>(i, x). (i, f x)) (enumerate k xs)"
  by (induction xs arbitrary: k) simp_all

lemma enumerate_one: "distinct xs \<Longrightarrow> n < length xs \<Longrightarrow> filter (\<lambda>(i, x). x = xs ! n) (enumerate k xs) = [(k + n, xs ! n)]"
proof (induction xs arbitrary: k n)
  case (Cons x xs)
  have "filter (\<lambda>(i, y). y = x) (enumerate (Suc k) xs) = []"
    using Cons.prems(1) by (auto simp: filter_empty_conv dest: enumerate_snd)
  then show ?case using Cons.IH [of "n - 1" "Suc k"] Cons.prems by (cases n) auto
qed simp

lemma mset_filter_split: "mset (map f (filter P xs)) + mset (map f (filter (\<lambda>x. \<not> P x) xs)) = mset (map f xs)"
  by (induction xs) simp_all

text \<open>What the loop hands out when the given lcores are numbered by \<open>js\<close>, among them the main one, \<open>mn\<close>.\<close>

lemma launch_assigns:
  assumes "\<And>w. rust_rte_get_main_lcore fl w = of_nat mn" and "distinct js" and "inj_on (\<lambda>j. Lcore (of_nat j)) (set js)" and "mn \<in> set js"
    and "launch_workers fl job (enumerate 0 (map (\<lambda>j. Lcore (of_nat j)) js)) 0 [] rt = Done (mq, launched, rt')"
  obtains m where "m < length js" "js ! m = mn" "mq = of_nat m"
    "launched = map (\<lambda>(i, j). (Lcore (of_nat j), job (of_nat i))) (filter (\<lambda>(i, j). j \<noteq> mn) (enumerate 0 js))"
proof -
  let ?ls = "map (\<lambda>j. Lcore (of_nat j)) js" and ?es = "enumerate 0 js"
  have ls: "distinct ?ls" using assms(2,3) by (simp add: distinct_map)
  note l = launch_workers_spec [OF assms(1,5) this]
  have eqmn: "Lcore (of_nat j) = Lcore (of_nat mn) \<longleftrightarrow> j = mn" if "j \<in> set js" for j
    using inj_on_eq_iff [OF assms(3) that assms(4)] by simp
  obtain m where m: "m < length js" "js ! m = mn" using assms(4) by (metis in_set_conv_nth)
  have one: "filter (\<lambda>(i, l). l = Lcore (of_nat mn)) (enumerate 0 ?ls) = [(m, Lcore (of_nat mn))]"
    using enumerate_one [OF ls, of m 0] m by simp
  have rest: "filter (\<lambda>(i, l). l \<noteq> Lcore (of_nat mn)) (enumerate 0 ?ls) = map (\<lambda>(i, j). (i, Lcore (of_nat j))) (filter (\<lambda>(i, j). j \<noteq> mn) ?es)"
    unfolding enumerate_mapped filter_map using eqmn by (auto intro!: arg_cong [where f = "map _"] filter_cong dest: enumerate_snd)
  show thesis using l one rest m by (intro that [of m]) (simp_all add: o_def split_def)
qed

text \<open>The queues of the workers and of the main lcore are all queues.\<close>

lemma queues_covered:
  assumes "distinct js" "m < length js" "js ! m = mn"
  shows "mset (of_nat m # map (\<lambda>(i, j). of_nat i :: u16) (filter (\<lambda>(i, j). j \<noteq> mn) (enumerate 0 js))) = mset (map of_nat [0..<length js])"
proof -
  let ?es = "enumerate 0 js" and ?q = "\<lambda>(i, j). (of_nat i :: u16)"
  have "[of_nat m] = map ?q (filter (\<lambda>(i, j). j = mn) ?es)" using enumerate_one [OF assms(1,2), of 0] assms(3) by simp
  moreover have "filter (\<lambda>(i, j). j \<noteq> mn) ?es = filter (\<lambda>e. \<not> (\<lambda>(i, j). j = mn) e) ?es" by (simp add: split_def)
  moreover have "map ?q ?es = map of_nat [0..<length js]"
    using map_map [of "of_nat :: nat \<Rightarrow> u16" fst ?es] by (simp add: o_def split_def)
  ultimately show ?thesis using mset_filter_split [of ?q "\<lambda>(i, j). j = mn" ?es]
    by (metis append_Cons append_Nil mset_append)
qed


subsection \<open>An instance\<close>

text \<open>Two lcores, of which the second is the main one, a pool and an environment in which nothing fails.\<close>

definition two_lcores :: "'w lcore_ffi" where
  "two_lcores = \<lparr>rte_max_lcore = 128, rte_lcore_is_enabled = (\<lambda>i w. if i < 2 then 1 else 0),
     rust_rte_lcore_id = (\<lambda>w. 1), rust_rte_get_main_lcore = (\<lambda>w. 1),
     rte_get_next_lcore = (\<lambda>i skip w. case find (wanted (\<lambda>j. j < 2) 1 skip) [unat (i + 1)..<128] of Some j \<Rightarrow> of_nat j | None \<Rightarrow> 128),
     rte_lcore_count = (\<lambda>w. 2), rte_eal_lcore_role = (\<lambda>i w. 0), rte_lcore_to_socket_id = (\<lambda>i w. 0), rte_lcore_to_cpu_id = (\<lambda>i w. i),
     rte_eal_get_lcore_state = (\<lambda>i w. 0), rte_eal_remote_launch = (\<lambda>p i rt. (0, rt)), rte_eal_wait_lcore = (\<lambda>i rt. (0, rt)),
     rte_eal_mp_wait_lcore = id\<rparr>"

definition one_pool :: "'w pool_ffi" where
  "one_pool = \<lparr>rust_get_rte_errno = (\<lambda>_. 12), nix_from_raw = id, rust_pktmbuf_data_room_size = (\<lambda>w p. 2176),
     rte_pktmbuf_pool_create = (\<lambda>n a b c d e w. (7, w)), rte_mempool_lookup = (\<lambda>n w. 7),
     rte_mempool_avail_count = (\<lambda>w p. 100), rte_mempool_free = (\<lambda>p w. w)\<rparr>"

definition idle_env :: "('w, unit, 'S) app_env" where
  "idle_env = \<lparr>ae_interface_new = (\<lambda>m d. ()), ae_push_ip_addr = (\<lambda>a n i. Some i), ae_add_default_route = (\<lambda>a i. Some i),
     ae_block_on = (\<lambda>R c rt. Done rt)\<rparr>"

lemma two_lcores_next: "next_law two_lcores (\<lambda>j. j < 2) 1"
  by (simp add: next_law_def two_lcores_def split: option.splits)

lemma two_lcores_simps [simp]:
  "rte_max_lcore two_lcores = 128" "rust_rte_get_main_lcore two_lcores w = 1" "rust_rte_lcore_id two_lcores w = 1"
  "rte_eal_remote_launch two_lcores p i rt = (0, rt)"
  by (simp_all add: two_lcores_def)

lemma two_ids: "filter (\<lambda>j. j < 2) [0..<128] = [0, 1 :: nat]"
  by (simp add: upt_rec)

lemma two_lcores_collect: "LcoreIter_collect two_lcores Lcore_all w = Some [Lcore 0, Lcore 1]"
proof -
  have "wanted (\<lambda>j. j < 2) 1 False = (\<lambda>j. j < 2)" by (simp add: wanted_def fun_eq_iff)
  then show ?thesis using collect_eq [OF two_lcores_next, of "- 1" False w] two_ids by (simp add: Lcore_all_def)
qed

definition sim_app :: dpdk_app where
  "sim_app = DpdkApp_gateway (DpdkApp_ip DpdkApp_new (Ipv4 10 0 0 5)) (Ipv4 10 0 0 1)"

abbreviation (input) sim_app_rt :: "sim_ports lcore_rt" where
  "sim_app_rt \<equiv> \<lparr>lc_world = sim_port0, boxes = (\<lambda>p. None), next_box = 0\<rparr>"

lemma sim_app_runs:
  "\<exists>l j rt'. DpdkApp_run F two_lcores one_pool sim_eth k 2048 128 3 idle_env sim_app sim_app_rt = Some (Done (l, j, rt'))"
proof -
  have info: "EthDev_info sim_eth (EthDev_new 0) sim_port0 = Inr 5"
    by (simp add: EthDev_info_def filled_def sim_eth_def EthDev_new_def sim_port0_def check_rte_success_def)
  have pool: "MemPool_create one_pool app_pool_name c w = (Inr (MemPool 7), w)" for c and w :: sim_ports
    by (simp add: MemPool_create_def CString_new_def app_pool_name_def one_pool_def)
  obtain dev w1 where build: "EthDevBuilder_build sim_eth (app_builder k sim_app 2 5) (MemPool 7) sim_port0 = Done (Inr dev, w1)"
    using sim_build_ok [of "app_builder k sim_app 2 5"]
    by (fastforce simp: app_builder_def EthDevBuilder_new_def EthDevBuilder_eth_conf_def EthDevBuilder_nb_rx_queues_def
      EthDevBuilder_nb_tx_queues_def EthDevBuilder_rx_queue_conf_def EthDevBuilder_tx_queue_conf_def sim_app_def DpdkApp_gateway_def
      DpdkApp_ip_def DpdkApp_new_def)
  have mac: "EthDev_mac_addr sim_eth dev w1 = Inr (EtherAddr 2 0 0 0 0 1)"
    by (simp add: EthDev_mac_addr_def filled_def sim_eth_def check_rte_success_def)
  have app: "app_ip_addr sim_app = Some (Ipv4 10 0 0 5)" "app_gateway sim_app = Some (Ipv4 10 0 0 1)" "app_port_id sim_app = 0"
    by (simp_all add: sim_app_def DpdkApp_gateway_def DpdkApp_ip_def DpdkApp_new_def)
  obtain job where st: "app_setup one_pool sim_eth k 2048 128 3 sim_app 2 (Ipv4 10 0 0 5) (Ipv4 10 0 0 1) sim_port0 = Done (dev, MemPool 7, job, w1)"
    using info pool build mac by (simp add: app_setup_def app sim_eth_def)
  have wk: "DpdkApp_run_worker F two_lcores idle_env j rt = Done rt" for j and rt :: "sim_ports lcore_rt"
    using worker_device_ok [of j]
    by (auto simp: DpdkApp_run_worker_def Lcore_current_def LCORE_ID_ANY_def idle_env_def)
  show ?thesis using st
    by (simp add: DpdkApp_run_def app two_lcores_collect wk Lcore_is_main_def Lcore_launch_def box_new_def Let_def numeral_2_eq_2)
qed


end
