(* ===== verification/Spec2Isabelle.thy ===== *)
theory Spec2Isabelle
  imports Device_Session Socket_System Eth_Port Eal_Env Lcore_Launch Http_Conn Http_Pool Bridge_Udp App_Run
begin

text \<open>
  Verification of rust-dpdk-net.
\<close>

end
